(* ===== verification/Stack_Prelude.thy ===== *)
theory Stack_Prelude
  imports Main "HOL-Library.Word" "HOL-Library.AList"
begin

text \<open>
  Shared vocabulary of the development: the machine integers and byte strings of the C++
  sources, the two ways a C++ call can go wrong (an exception of \<open>exceptions.h\<close>, or
  undefined behaviour such as an out-of-range \<open>operator[]\<close>), sequencing of fallible calls,
  and generic facts on lists and words used by several components.
\<close>

unbundle bit_operations_syntax

section \<open>Machine types\<close>

type_synonym u8 = "8 word"
type_synonym u16 = "16 word"
type_synonym u32 = "32 word"
type_synonym u64 = "64 word"

type_synonym bytes = "u8 list"

section \<open>Fallible calls\<close>

text \<open>
  \<open>BaseException\<close> is the exception the codecs throw; \<open>UndefinedBehaviour\<close> is what C++ gives
  no meaning to. Keeping the two apart lets a theorem say that no input of a parser reaches
  the second.
\<close>

datatype cpp_error = BaseException | UndefinedBehaviour

type_synonym 'a result = "cpp_error + 'a"

definition rbind :: "'a result \<Rightarrow> ('a \<Rightarrow> 'b result) \<Rightarrow> 'b result" where
  "rbind m f = (case m of Inl e \<Rightarrow> Inl e | Inr x \<Rightarrow> f x)"

definition no_ub :: "'a result \<Rightarrow> bool" where
  "no_ub m \<longleftrightarrow> m \<noteq> Inl UndefinedBehaviour"

named_theorems no_ub_rules \<open>rules that show a call free of undefined behaviour\<close>

lemma rbind_simps [simp]:
  "rbind (Inl e) f = Inl e"
  "rbind (Inr x) f = f x"
  by (simp_all add: rbind_def)

lemma rbind_eq_Inr: "rbind m f = Inr y \<longleftrightarrow> (\<exists>x. m = Inr x \<and> f x = Inr y)"
  by (cases m) auto

lemma rbind_cong [fundef_cong]:
  "m = m' \<Longrightarrow> (\<And>x. m' = Inr x \<Longrightarrow> f x = f' x) \<Longrightarrow> rbind m f = rbind m' f'"
  by (cases m') auto

lemma no_ub_simps [simp]:
  "no_ub (Inr x)" "no_ub (Inl BaseException)" "\<not> no_ub (Inl UndefinedBehaviour)"
  by (simp_all add: no_ub_def)

lemma no_ub_rbind [no_ub_rules]:
  "no_ub m \<Longrightarrow> (\<And>x. m = Inr x \<Longrightarrow> no_ub (f x)) \<Longrightarrow> no_ub (rbind m f)"
  by (cases m) (auto simp: no_ub_def)

lemma no_ub_if [no_ub_rules]:
  "(c \<Longrightarrow> no_ub a) \<Longrightarrow> (\<not> c \<Longrightarrow> no_ub b) \<Longrightarrow> no_ub (if c then a else b)"
  by simp

lemma no_ub_prod [no_ub_rules]: "(\<And>a b. x = (a, b) \<Longrightarrow> no_ub (f a b)) \<Longrightarrow> no_ub (case x of (a, b) \<Rightarrow> f a b)"
  by (cases x) simp

text \<open>A member function that changes its object and may throw: the object as the call leaves it, and the error.\<close>

type_synonym 's outcome = "'s \<times> cpp_error option"

definition and_then :: "'s \<times> 'e option \<Rightarrow> ('s \<Rightarrow> 's \<times> 'e option) \<Rightarrow> 's \<times> 'e option" where
  "and_then m f = (case m of (s, None) \<Rightarrow> f s | (s, Some e) \<Rightarrow> (s, Some e))"

lemma and_then_simps [simp]: "and_then (s, None) f = f s" "and_then (s, Some e) f = (s, Some e)"
  by (simp_all add: and_then_def)

lemma and_then_None: "and_then m f = (t, None) \<longleftrightarrow> (\<exists>s. m = (s, None) \<and> f s = (t, None))"
  by (cases m) (auto simp: and_then_def split: option.splits)

section \<open>Lists\<close>

lemma drop_Cons_nth: "drop i xs = y # ys \<Longrightarrow> i < length xs \<and> xs ! i = y \<and> drop (Suc i) xs = ys"
proof (induction i arbitrary: xs)
  case 0
  then show ?case by simp
next
  case (Suc i)
  then show ?case by (cases xs) auto
qed

lemma take_drop_append_exact [simp]:
  "length xs = n \<Longrightarrow> take n (xs @ ys) = xs"
  "length xs = n \<Longrightarrow> drop n (xs @ ys) = ys"
  by auto

lemma concat_map_length_fold: "length (concat xss) = sum_list (map length xss)"
  by (simp add: length_concat)

section \<open>Words\<close>

lemma unat_u8_less: "unat (b :: u8) < 256"
  using unsigned_less [of b, where 'a = nat] by simp

lemma unat_u16_less: "unat (b :: u16) < 65536"
  using unsigned_less [of b, where 'a = nat] by simp

lemma unat_u32_less: "unat (b :: u32) < 4294967296"
  using unsigned_less [of b, where 'a = nat] by simp

lemma unat_ucast_up [simp]:
  assumes "LENGTH('a) \<le> LENGTH('b)"
  shows "unat (ucast (w :: 'a::len word) :: 'b::len word) = unat w"
proof -
  have "unat w < 2 ^ LENGTH('b)"
    by (rule less_le_trans [OF unsigned_less]) (use assms in \<open>simp add: power_increasing\<close>)
  then show ?thesis by (simp add: unsigned_ucast_eq take_bit_nat_eq_self)
qed

lemma ucast_ucast_up_down [simp]:
  "LENGTH('a) \<le> LENGTH('b) \<Longrightarrow> ucast (ucast (w :: 'a::len word) :: 'b::len word) = w"
  by (rule bit_word_eqI) (auto simp: bit_simps dest: bit_imp_le_length)

lemma unat_numeral_add_less:
  "unat (a :: 'a::len word) + unat b < 2 ^ LENGTH('a) \<Longrightarrow> unat (a + b) = unat a + unat b"
  by (simp add: unat_word_ariths)

lemma rbindE: "rbind m f = Inr y \<Longrightarrow> (\<And>x. m = Inr x \<Longrightarrow> f x = Inr y \<Longrightarrow> P) \<Longrightarrow> P"
  by (cases m) auto

lemma if_throwE: "(if c then Inl e else m) = Inr y \<Longrightarrow> (\<not> c \<Longrightarrow> m = Inr y \<Longrightarrow> P) \<Longrightarrow> P"
  by (simp split: if_splits)

lemma if_E: "(if c then x else m) = y \<Longrightarrow> (c \<Longrightarrow> x = y \<Longrightarrow> P) \<Longrightarrow> (\<not> c \<Longrightarrow> m = y \<Longrightarrow> P) \<Longrightarrow> P"
  by (simp split: if_splits)

lemma InrE: "Inr x = Inr y \<Longrightarrow> (y = x \<Longrightarrow> P) \<Longrightarrow> P"
  by simp

lemma unat_of_nat_u8: "n < 256 \<Longrightarrow> unat (of_nat n :: u8) = n"
  by (simp add: unsigned_of_nat take_bit_nat_eq_self)

lemma sint_small:
  assumes "unat (n :: u32) < 2 ^ 31"
  shows "sint n = int (unat n)"
proof -
  have "uint n < 2 ^ 31" using assms by (metis of_nat_less_iff of_nat_numeral of_nat_power uint_nat)
  then have "signed_take_bit 31 (uint n) = uint n" by (intro signed_take_bit_int_eq_self) (use unsigned_greater_eq [of n, where ?'a = int] in linarith)+
  then show ?thesis by (simp add: sint_uint)
qed

lemma length_alist_update:
  "length (AList.update k v al) = (if map_of al k = None then Suc (length al) else length al)"
  by (induction al) auto

section \<open>Association lists\<close>

lemma sum_list_alist_update:
  fixes f :: "'b \<Rightarrow> nat"
  assumes "distinct (map fst al)"
  shows "sum_list (map (f \<circ> snd) (AList.update k v al)) + (case map_of al k of None \<Rightarrow> 0 | Some old \<Rightarrow> f old)
       = sum_list (map (f \<circ> snd) al) + f v"
  using assms
proof (induction al)
  case (Cons kv al)
  then show ?case by (cases kv) (auto simp: map_of_eq_None_iff split: option.splits)
qed simp

lemma sum_list_alist_delete:
  fixes f :: "'b \<Rightarrow> nat"
  assumes "distinct (map fst al)"
  shows "sum_list (map (f \<circ> snd) (AList.delete k al)) + (case map_of al k of None \<Rightarrow> 0 | Some old \<Rightarrow> f old)
       = sum_list (map (f \<circ> snd) al)"
  using assms
proof (induction al)
  case (Cons kv al)
  have "AList.delete k al = al" if "k \<notin> fst ` set al" using that by (simp add: delete_id)
  with Cons show ?case by (cases kv) (auto simp: map_of_eq_None_iff image_iff split: option.splits)
qed (simp add: delete_simps)

lemma set_alist_update: "(k', v') \<in> set (AList.update k v al) \<Longrightarrow> (k', v') = (k, v) \<or> (k', v') \<in> set al"
  by (induction al) (auto split: if_splits)

lemma set_alist_delete: "x \<in> set (AList.delete k al) \<Longrightarrow> x \<in> set al"
  by (induction al) (auto split: if_splits)

lemma if_both: "P a \<Longrightarrow> P b \<Longrightarrow> P (if c then a else b)"
  by simp

lemma take_split: "k \<le> n \<Longrightarrow> take k xs @ take (n - k) (drop k xs) = take n xs"
  by (metis le_add_diff_inverse take_add)

lemma unat_of_nat_u32: "n < 2 ^ 32 \<Longrightarrow> unat (of_nat n :: u32) = n"
  by (simp add: unsigned_of_nat take_bit_nat_eq_self)

lemma of_nat_u32_eq: "m < 2 ^ 32 \<Longrightarrow> n < 2 ^ 32 \<Longrightarrow> (of_nat m :: u32) = of_nat n \<longleftrightarrow> m = n"
  by (metis unat_of_nat_u32)

end
