(* ===== verification/Wire_Bytes.thy ===== *)
theory Wire_Bytes
  imports Stack_Prelude
begin

text \<open>
  The \<open>Bytes\<close> class of \<open>bytes.cpp\<close> and the integer and text conversions of
  \<open>utils.h\<close>/\<open>utils.cpp\<close>. A \<open>Bytes\<close> value is a list of octets, a \<open>size_t\<close> is a natural
  number with the wrap-around written out where the sources can reach it (\<open>slice\<close>), and
  the integer templates are generic in the word width, as in the sources.
\<close>

section \<open>Reading\<close>

text \<open>\<open>operator[]\<close> of \<open>std::vector\<close>: no bounds check, so out of range is undefined.\<close>

definition byte_at :: "bytes \<Rightarrow> nat \<Rightarrow> u8 result" where
  "byte_at data i = (if i < length data then Inr (data ! i) else Inl UndefinedBehaviour)"

definition slice :: "bytes \<Rightarrow> nat \<Rightarrow> nat \<Rightarrow> bytes result" where
  "slice data index len =
     (if length data < (index + len) mod 2 ^ 64 then Inl BaseException
      else if length data < index + len then Inl UndefinedBehaviour
      else Inr (take len (drop index data)))"

text \<open>The one-argument form subtracts in \<open>size_t\<close>, so an index past the end wraps.\<close>

definition slice_from :: "bytes \<Rightarrow> nat \<Rightarrow> bytes result" where
  "slice_from data index =
     slice data index (nat ((int (length data) - int index) mod 2 ^ 64))"

definition slice_int :: "bytes \<Rightarrow> nat \<Rightarrow> 'a::len word result" where
  "slice_int data index =
     (if length data < index + LENGTH('a) div 8 then Inl BaseException
      else Inr (foldl (\<lambda>r b. push_bit 8 r OR ucast b) 0
                 (take (LENGTH('a) div 8) (drop index data))))"

definition bytes_to_int :: "bytes \<Rightarrow> 'a::len word result" where
  "bytes_to_int bs =
     (if length bs < LENGTH('a) div 8 then Inl UndefinedBehaviour
      else Inr (foldl (\<lambda>r b. r * 2 ^ 8 + ucast b) 0 (take (LENGTH('a) div 8) bs)))"

section \<open>Writing\<close>

primrec int_to_bytes_loop :: "nat \<Rightarrow> 'a::len word \<Rightarrow> bytes" where
  "int_to_bytes_loop 0 num = []"
| "int_to_bytes_loop (Suc n) num = int_to_bytes_loop n (num div 0x100) @ [ucast (num AND 0xff)]"

definition int_to_bytes :: "'a::len word \<Rightarrow> bytes" where
  "int_to_bytes num = int_to_bytes_loop (LENGTH('a) div 8) num"

definition append_int :: "bytes \<Rightarrow> 'a::len word \<Rightarrow> bytes" where
  "append_int data value = data @ int_to_bytes_loop (LENGTH('a) div 8) value"

definition bytes_concat :: "bytes \<Rightarrow> bytes \<Rightarrow> bytes" where
  "bytes_concat this other = this @ other"

definition bytes_plus :: "bytes \<Rightarrow> bytes \<Rightarrow> bytes" where
  "bytes_plus this other = map2 (+) this other"

definition bytes_minus :: "bytes \<Rightarrow> bytes \<Rightarrow> bytes" where
  "bytes_minus this other = map2 (-) this other"

section \<open>Text\<close>

definition hex_char_to_int :: "char \<Rightarrow> u8 result" where
  "hex_char_to_int c =
     (let n = of_char c :: nat in
      if of_char (CHR ''0'') \<le> n \<and> n \<le> of_char (CHR ''9'') then Inr (of_nat (n - of_char (CHR ''0'')))
      else if of_char (CHR ''a'') \<le> n \<and> n \<le> of_char (CHR ''f'') then Inr (of_nat (n - of_char (CHR ''a'') + 10))
      else if of_char (CHR ''A'') \<le> n \<and> n \<le> of_char (CHR ''F'') then Inr (of_nat (n - of_char (CHR ''A'') + 10))
      else Inl BaseException)"

definition decimal_char_to_int :: "char \<Rightarrow> u8 result" where
  "decimal_char_to_int c =
     (let n = of_char c :: nat in
      if of_char (CHR ''0'') \<le> n \<and> n \<le> of_char (CHR ''9'') then Inr (of_nat (n - of_char (CHR ''0'')))
      else Inl BaseException)"

definition byte_to_hex :: "u8 \<Rightarrow> string" where
  "byte_to_hex byte =
     [''0123456789abcdef'' ! unat (byte div 0x10), ''0123456789abcdef'' ! unat (byte mod 0x10)]"

function byte_to_decimal_loop :: "u8 \<Rightarrow> string \<Rightarrow> string" where
  "byte_to_decimal_loop byte result =
     (if 0 < byte then byte_to_decimal_loop (byte div 10) (result @ [''0123456789'' ! unat (byte mod 10)])
      else result)"
  by pat_completeness auto
termination
  by (relation "measure (\<lambda>(byte, result). unat byte)") (auto simp: unat_div_distrib word_less_nat_alt)

definition byte_to_decimal :: "u8 \<Rightarrow> string" where
  "byte_to_decimal byte = (if byte = 0 then ''0'' else rev (byte_to_decimal_loop byte []))"

fun decimal_to_byte_loop :: "string \<Rightarrow> u16 \<Rightarrow> u16 result" where
  "decimal_to_byte_loop [] result = Inr result"
| "decimal_to_byte_loop (digit # rest) result =
     rbind (decimal_char_to_int digit) (\<lambda>d.
       let result' = result * 10 + ucast d in
       if result' > 0xff then Inl BaseException else decimal_to_byte_loop rest result')"

definition decimal_to_byte :: "string \<Rightarrow> u8 result" where
  "decimal_to_byte decimal =
     (if decimal = [] then Inl BaseException
      else rbind (decimal_to_byte_loop decimal 0) (\<lambda>r. Inr (ucast (r AND 0xff))))"

fun from_hex_pairs :: "string \<Rightarrow> bytes result" where
  "from_hex_pairs (h # l # rest) =
     rbind (hex_char_to_int h) (\<lambda>hi.
     rbind (hex_char_to_int l) (\<lambda>lo.
     rbind (from_hex_pairs rest) (\<lambda>bs. Inr ((hi * 0x10 + lo) # bs))))"
| "from_hex_pairs _ = Inr []"

definition from_hex :: "string \<Rightarrow> bytes result" where
  "from_hex hex = (if length hex mod 2 \<noteq> 0 then Inl BaseException else from_hex_pairs hex)"

definition to_hex :: "bytes \<Rightarrow> string" where
  "to_hex bs = concat (map byte_to_hex bs)"

text \<open>
  \<open>string_replace_all\<close>: \<open>find\<close> from the current index, replace, continue behind the
  replacement, so the part already produced is never searched again.
\<close>

function string_replace_loop :: "string \<Rightarrow> string \<Rightarrow> string \<Rightarrow> string" where
  "string_replace_loop to_replace replace_with [] = []"
| "string_replace_loop to_replace replace_with (c # cs) =
     (if to_replace \<noteq> [] \<and> take (length to_replace) (c # cs) = to_replace
      then replace_with @ string_replace_loop to_replace replace_with (drop (length to_replace) (c # cs))
      else c # string_replace_loop to_replace replace_with cs)"
  by pat_completeness auto
termination
  by (relation "measure (\<lambda>(p, w, s). length s)") auto

definition string_replace_all :: "string \<Rightarrow> string \<Rightarrow> string \<Rightarrow> string result" where
  "string_replace_all str to_replace replace_with =
     (if to_replace = [] then Inl BaseException
      else Inr (string_replace_loop to_replace replace_with str))"


section \<open>Laws of the integer conversions\<close>

lemma ff_mask: "(0xff :: 'a::len word) = mask 8"
  by (simp add: mask_eq_exp_minus_1)

lemma ucast_and_ff [simp]: "ucast (w AND 0xff) = (ucast w :: u8)"
  by (rule bit_word_eqI) (auto simp: ff_mask bit_simps dest: bit_imp_le_length)

lemma u8_and_ff [simp]: "(w :: u8) AND 0xff = w"
  using ucast_and_ff [of w] by simp

lemma word_div_0x100: "8 < LENGTH('a) \<Longrightarrow> (w :: 'a::len word) div 0x100 = drop_bit 8 w"
  by (simp add: drop_bit_eq_div)

lemma int_to_bytes_loop_numeral [simp]:
  "int_to_bytes_loop (numeral k) num =
     int_to_bytes_loop (pred_numeral k) (num div 0x100) @ [ucast num]"
  by (simp add: numeral_eq_Suc)

lemma int_to_bytes_u8 [simp]: "int_to_bytes (v :: u8) = [v]"
  by (simp add: int_to_bytes_def)

lemma int_to_bytes_u16 [simp]: "int_to_bytes (v :: u16) = [ucast (drop_bit 8 v), ucast v]"
  by (simp add: int_to_bytes_def word_div_0x100)

lemma int_to_bytes_u32 [simp]:
  "int_to_bytes (v :: u32) =
     [ucast (drop_bit 24 v), ucast (drop_bit 16 v), ucast (drop_bit 8 v), ucast v]"
  by (simp add: int_to_bytes_def word_div_0x100)

lemma append_int_eq: "append_int data v = data @ int_to_bytes v"
  by (simp add: append_int_def int_to_bytes_def)

lemma byte_at_in [simp]: "i < length data \<Longrightarrow> byte_at data i = Inr (data ! i)"
  by (simp add: byte_at_def)

lemma slice_ok: "index + len \<le> length data \<Longrightarrow> slice data index len = Inr (take len (drop index data))"
  by (auto simp: slice_def not_less intro: order_trans [OF mod_less_eq_dividend])

lemma slice_short: "length data < index + len \<Longrightarrow> index + len < 2 ^ 64 \<Longrightarrow> slice data index len = Inl BaseException"
  by (simp add: slice_def)

lemma slice_from_ok: 
  assumes "index \<le> length data" "length data < 2 ^ 64"
  shows "slice_from data index = Inr (drop index data)"
proof -
  have "nat ((int (length data) - int index) mod 2 ^ 64) = length data - index"
    using assms by (simp add: nat_mod_distrib flip: of_nat_diff)
  with assms show ?thesis by (simp add: slice_from_def slice_ok)
qed

lemma slice_from_past_end:
  assumes "length data < index" "index \<le> 2 ^ 64"
  shows "slice_from data index = Inl UndefinedBehaviour"
proof -
  have "(int (length data) - int index) mod 2 ^ 64 = int (length data) - int index + 2 ^ 64"
    using assms by (subst mod_add_self2 [symmetric], subst mod_pos_pos_trivial) auto
  with assms have "nat ((int (length data) - int index) mod 2 ^ 64) = length data + 2 ^ 64 - index"
    by (simp add: nat_diff_distrib')
  with assms show ?thesis by (simp add: slice_from_def slice_def)
qed

lemma join16: "push_bit 8 (ucast (ucast (drop_bit 8 v) :: u8)) OR ucast (ucast v :: u8) = (v :: u16)"
  by (rule bit_word_eqI) (auto simp: bit_simps not_less)

lemma join32 [simp]:
  fixes v :: u32
  shows "((push_bit 24 (ucast (ucast (drop_bit 24 v) :: u8)) OR push_bit 16 (ucast (ucast (drop_bit 16 v) :: u8)))
     OR push_bit 8 (ucast (ucast (drop_bit 8 v) :: u8))) OR ucast (ucast v :: u8) = v" (is "?w = v")
proof (rule bit_word_eqI)
  fix n assume "n < LENGTH(32)"
  then consider "n < 8" | "8 \<le> n" "n < 16" | "16 \<le> n" "n < 24" | "24 \<le> n" "n < 32" by fastforce
  then show "bit ?w n \<longleftrightarrow> bit v n"
    by cases (auto simp: bit_simps)
qed

lemma slice_int_u8: "i < length data \<Longrightarrow> slice_int data i = (Inr (data ! i) :: u8 result)"
  by (simp add: slice_int_def take_Suc_conv_app_nth drop_eq_Nil flip: Cons_nth_drop_Suc)

lemma slice_int_at_u16:
  "slice_int (pre @ int_to_bytes v @ post) (length pre) = (Inr v :: u16 result)"
  by (simp add: slice_int_def join16)

lemma slice_int_at_u32:
  "slice_int (pre @ int_to_bytes v @ post) (length pre) = (Inr v :: u32 result)"
  by (simp add: slice_int_def join32)


section \<open>Undefined behaviour\<close>

lemma no_ub_slice_int [simp, no_ub_rules]: "no_ub (slice_int data i)"
  by (simp add: slice_int_def)

lemma no_ub_byte_at [no_ub_rules]: "i < length data \<Longrightarrow> no_ub (byte_at data i)"
  by simp

lemma no_ub_slice [no_ub_rules]: "index + len < 2 ^ 64 \<Longrightarrow> no_ub (slice data index len)"
  by (simp add: slice_def)

lemma no_ub_slice_inside: "index + len \<le> length data \<Longrightarrow> no_ub (slice data index len)"
  by (simp add: slice_ok)

lemma no_ub_slice_from [no_ub_rules]:
  "index \<le> length data \<Longrightarrow> length data < 2 ^ 64 \<Longrightarrow> no_ub (slice_from data index)"
  by (simp add: slice_from_ok)

section \<open>Text round trips\<close>

lemma hex_char_of_digit:
  "n < 16 \<Longrightarrow> hex_char_to_int (''0123456789abcdef'' ! n) = Inr (of_nat n)"
proof -
  have "\<forall>n\<in>set [0..<16]. hex_char_to_int (''0123456789abcdef'' ! n) = Inr (of_nat n)"
    by (simp add: upt_rec hex_char_to_int_def nth_Cons')
  then show "n < 16 \<Longrightarrow> hex_char_to_int (''0123456789abcdef'' ! n) = Inr (of_nat n)" by simp
qed

lemma from_hex_pairs_byte:
  "from_hex_pairs (byte_to_hex b @ s) = rbind (from_hex_pairs s) (\<lambda>bs. Inr (b # bs))"
proof -
  have hi: "unat (b div 0x10) < 16"
    by (simp add: unat_div_distrib) (use unat_u8_less [of b] in linarith)
  have lo: "unat (b mod 0x10) < 16"
    by (simp add: unat_mod_distrib)
  have "b div 0x10 * 0x10 + b mod 0x10 = b"
    by (metis mult_div_mod_eq mult.commute)
  then show ?thesis
    by (simp add: byte_to_hex_def hex_char_of_digit [OF hi] hex_char_of_digit [OF lo])
qed

lemma length_byte_to_hex [simp]: "length (byte_to_hex b) = 2"
  by (simp add: byte_to_hex_def)

lemma length_to_hex [simp]: "length (to_hex bs) = 2 * length bs"
  by (induction bs) (simp_all add: to_hex_def)

lemma from_hex_to_hex: "from_hex (to_hex bs) = Inr bs"
proof -
  have "from_hex_pairs (to_hex bs) = Inr bs"
    by (induction bs) (simp_all add: to_hex_def from_hex_pairs_byte)
  then show ?thesis by (simp add: from_hex_def)
qed

declare byte_to_decimal_loop.simps [simp del]

lemma decimal_char_of_digit: "n < 10 \<Longrightarrow> decimal_char_to_int (''0123456789'' ! n) = Inr (of_nat n)"
proof -
  have "\<forall>n\<in>set [0..<10]. decimal_char_to_int (''0123456789'' ! n) = Inr (of_nat n)"
    by (simp add: upt_rec decimal_char_to_int_def nth_Cons')
  then show "n < 10 \<Longrightarrow> decimal_char_to_int (''0123456789'' ! n) = Inr (of_nat n)" by simp
qed

lemma byte_to_decimal_loop_zero [simp]: "byte_to_decimal_loop 0 acc = acc"
  by (simp add: byte_to_decimal_loop.simps)

lemma byte_to_decimal_loop_pos:
  "0 < b \<Longrightarrow> byte_to_decimal_loop b acc =
     byte_to_decimal_loop (b div 10) (acc @ [''0123456789'' ! unat (b mod 10)])"
  by (simp add: byte_to_decimal_loop.simps [of b])

lemma unat_div10_less: "0 < b \<Longrightarrow> unat (b div 10) < unat (b :: u8)"
  by (simp add: unat_div_distrib word_less_nat_alt)

lemma byte_to_decimal_loop_acc: "byte_to_decimal_loop b acc = acc @ byte_to_decimal_loop b []"
proof (induction "unat b" arbitrary: b acc rule: less_induct)
  case less
  show ?case
  proof (cases "0 < b")
    case True
    note IH = less [OF unat_div10_less [OF True]]
    show ?thesis
      by (simp add: byte_to_decimal_loop_pos [OF True] IH [of "_ @ _"] IH [of "[_]"])
  qed (simp add: word_gt_0)
qed

lemma decimal_to_byte_loop_append:
  "decimal_to_byte_loop (xs @ ys) r = rbind (decimal_to_byte_loop xs r) (decimal_to_byte_loop ys)"
proof (induction xs arbitrary: r)
  case (Cons x xs)
  then show ?case by (cases "decimal_char_to_int x") (simp_all add: Let_def)
qed simp

lemma decimal_digit_step:
  fixes b :: u8
  shows "ucast (b div 10) * 10 + ucast (b mod 10) = (ucast b :: u16)"
proof -
  have "unat b div 10 < 256" and "unat b < 65536" using unat_u8_less [of b] by linarith+
  then show ?thesis
    by (simp add: word_unat_eq_iff unat_word_ariths unat_div_distrib unat_mod_distrib mod_simps)
qed

lemma decimal_to_byte_loop_print:
  "decimal_to_byte_loop (rev (byte_to_decimal_loop b [])) 0 = Inr (ucast b)"
proof (induction "unat b" arbitrary: b rule: less_induct)
  case less
  show ?case
  proof (cases "0 < b")
    case True
    have "unat (b mod 10) < 10" by (simp add: unat_mod_distrib)
    moreover have "(ucast b :: u16) \<le> 0xff" 
      using unat_u8_less [of b] by (simp add: word_le_nat_alt)
    ultimately show ?thesis
      using less [OF unat_div10_less [OF True]]
      by (simp add: byte_to_decimal_loop_pos [OF True] byte_to_decimal_loop_acc [of _ "[_]"]
          decimal_to_byte_loop_append decimal_char_of_digit decimal_digit_step Let_def not_less)
  qed (simp add: word_gt_0)
qed

lemma byte_to_decimal_loop_nonempty: "0 < b \<Longrightarrow> byte_to_decimal_loop b [] \<noteq> []"
  by (simp add: byte_to_decimal_loop_pos byte_to_decimal_loop_acc [of _ "[_]"])

lemma decimal_to_byte_to_decimal: "decimal_to_byte (byte_to_decimal b) = Inr b"
proof (cases "b = 0")
  case True
  then show ?thesis
    by (simp add: byte_to_decimal_def decimal_to_byte_def decimal_char_to_int_def)
next
  case False
  then show ?thesis
    using decimal_to_byte_loop_print [of b] byte_to_decimal_loop_nonempty [of b]
    by (simp add: byte_to_decimal_def decimal_to_byte_def word_gt_0)
qed


section \<open>Fields at fixed offsets\<close>

text \<open>
  Reading a field and finding its big-endian image at that offset are the same thing; codec
  proofs use these equivalences in both directions.
\<close>

lemma split_join_u16:
  "int_to_bytes ((push_bit 8 (ucast a) OR ucast b) :: u16) = [a :: u8, b]"
  by (simp, intro conjI; rule bit_word_eqI) (auto simp: bit_simps dest: bit_imp_le_length)

lemma split_join_u32:
  "int_to_bytes ((((push_bit 24 (ucast a) OR push_bit 16 (ucast b)) OR push_bit 8 (ucast c)) OR ucast d) :: u32)
   = [a :: u8, b, c, d]"
  by (simp, intro conjI; rule bit_word_eqI) (auto simp: bit_simps dest: bit_imp_le_length)

lemma take_2_obtain:
  assumes "i + 2 \<le> length data"
  obtains a b where "take 2 (drop i data) = [a, b]"
proof -
  have "length (take 2 (drop i data)) = 2" using assms by simp
  then show ?thesis
    using that [of "hd (take 2 (drop i data))" "hd (tl (take 2 (drop i data)))"]
    by (cases "take 2 (drop i data)"; cases "tl (take 2 (drop i data))") auto
qed

lemma take_4_obtain:
  assumes "i + 4 \<le> length data"
  obtains a b c d where "take 4 (drop i data) = [a, b, c, d]"
proof -
  have "i + 2 \<le> length data" and "i + 2 + 2 \<le> length data" using assms by simp_all
  then obtain a b c d where ab: "take 2 (drop i data) = [a, b]" and cd: "take 2 (drop (i + 2) data) = [c, d]"
    by (metis take_2_obtain)
  have "take 4 (drop i data) = take 2 (drop i data) @ take 2 (drop 2 (drop i data))"
    by (metis numeral_Bit0 take_add)
  also have "\<dots> = [a, b, c, d]" using ab cd by (simp add: add.commute)
  finally show ?thesis by (rule that)
qed

lemma slice_int_u8_iff:
  "slice_int data i = (Inr v :: u8 result) \<longleftrightarrow> i + 1 \<le> length data \<and> data ! i = v"
  by (cases "i < length data") (auto simp: slice_int_u8, auto simp: slice_int_def)

lemma slice_int_u16_iff:
  "slice_int data i = (Inr v :: u16 result) \<longleftrightarrow> i + 2 \<le> length data \<and> take 2 (drop i data) = int_to_bytes v"
proof (cases "i + 2 \<le> length data")
  case True
  then obtain a b where ab: "take 2 (drop i data) = [a, b]" by (rule take_2_obtain)
  then have "slice_int data i = (Inr (push_bit 8 (ucast a) OR ucast b) :: u16 result)"
    using True by (simp add: slice_int_def)
  with ab True show ?thesis
    by (metis (no_types, lifting) join16 int_to_bytes_u16 split_join_u16 list.inject sum.inject(2))
qed (simp add: slice_int_def)

lemma slice_int_u32_iff:
  "slice_int data i = (Inr v :: u32 result) \<longleftrightarrow> i + 4 \<le> length data \<and> take 4 (drop i data) = int_to_bytes v"
proof (cases "i + 4 \<le> length data")
  case True
  then obtain a b c d where ab: "take 4 (drop i data) = [a, b, c, d]" by (rule take_4_obtain)
  then have "slice_int data i = (Inr (((push_bit 24 (ucast a) OR push_bit 16 (ucast b)) OR push_bit 8 (ucast c)) OR ucast d) :: u32 result)"
    using True by (simp add: slice_int_def)
  with ab True show ?thesis
    by (metis (no_types, lifting) join32 int_to_bytes_u32 split_join_u32 list.inject sum.inject(2))
qed (simp add: slice_int_def)

lemmas slice_int_iff = slice_int_u8_iff slice_int_u16_iff slice_int_u32_iff

lemma slice_Inr_iff:
  "length data < 2 ^ 64 \<Longrightarrow> index + len < 2 ^ 64 \<Longrightarrow>
   slice data index len = Inr bs \<longleftrightarrow> index + len \<le> length data \<and> bs = take len (drop index data)"
  by (auto simp: slice_def)

lemma drop_field: "i + n \<le> length data \<Longrightarrow> take n (drop i data) @ drop (i + n) data = drop i data"
  by (metis append_take_drop_id drop_drop add.commute)

lemma byte_drop: "drop i data = x # r \<Longrightarrow> byte_at data i = Inr x"
  by (metis byte_at_in drop_eq_Nil2 list.distinct(1) linorder_not_le nth_via_drop)

lemma drop_append_length:
  assumes "drop i data = xs @ r" "xs \<noteq> []"
  shows "i + length xs \<le> length data"
proof -
  have "length data - i = length xs + length r" using arg_cong [OF assms(1), of length] by simp
  with assms(2) show ?thesis by (cases xs) auto
qed

lemma slice_u16_drop: "drop i data = int_to_bytes v @ r \<Longrightarrow> slice_int data i = (Inr v :: u16 result)"
  using drop_append_length [of i data "int_to_bytes v" r] by (simp add: slice_int_u16_iff)

lemma slice_u32_drop: "drop i data = int_to_bytes v @ r \<Longrightarrow> slice_int data i = (Inr v :: u32 result)"
  using drop_append_length [of i data "int_to_bytes v" r] by (simp add: slice_int_u32_iff)

lemma drop_append_step: "drop i data = xs @ r \<Longrightarrow> drop (i + length xs) data = r"
  by (metis add.commute append_eq_conv_conj drop_drop)

lemma drop_append_at: "drop i data = xs @ r \<Longrightarrow> j = i + length xs \<Longrightarrow> drop j data = r"
  by (simp add: drop_append_step)

lemma drop_field_eq:
  "take n (drop i data) = xs \<Longrightarrow> i + n \<le> length data \<Longrightarrow> j = i + n \<Longrightarrow> drop i data = xs @ drop j data"
  using drop_field by metis

lemma slice_length: "slice data i n = Inr bs \<Longrightarrow> length bs \<le> length data"
  by (auto simp: slice_def split: if_splits)

lemma slice_from_length: "slice_from data i = Inr bs \<Longrightarrow> length bs \<le> length data"
  by (auto simp: slice_from_def intro: slice_length)

lemma byte_at_drop: "byte_at data i = Inr b \<Longrightarrow> drop i data = b # drop (Suc i) data"
  by (auto simp: byte_at_def Cons_nth_drop_Suc split: if_splits)

lemma slice_int_u16_drop: "slice_int data i = (Inr w :: u16 result) \<Longrightarrow> j = i + 2 \<Longrightarrow> drop i data = int_to_bytes w @ drop j data"
  using drop_field_eq [of 2 i data "int_to_bytes w" j] by (simp add: slice_int_u16_iff)

lemma slice_drop: "slice data i n = Inr xs \<Longrightarrow> j = i + n \<Longrightarrow> drop i data = xs @ drop j data"
  by (auto simp: slice_def drop_field split: if_splits)

lemma bytes_to_int_u16: "bytes_to_int (int_to_bytes w) = (Inr w :: u16 result)"
proof -
  have mult256: "(x :: u16) * 0x100 = push_bit 8 x" for x by (simp add: push_bit_eq_mult)
  have "ucast (ucast (drop_bit 8 w) :: u8) * 0x100 + ucast (ucast w :: u8)
      = push_bit 8 (ucast (ucast (drop_bit 8 w) :: u8)) OR (ucast (ucast w :: u8) :: u16)"
    unfolding mult256 by (rule disjunctive_add_eq_or, rule bit_word_eqI) (auto simp: bit_simps)
  then show ?thesis by (simp add: bytes_to_int_def join16)
qed

lemma bytes_to_int_no_ub [no_ub_rules]: "2 \<le> length bs \<Longrightarrow> no_ub (bytes_to_int bs :: u16 result)"
  by (simp add: bytes_to_int_def)

lemma slice_int_high_byte:
  assumes "byte_at data i = Inr b" "slice_int data i = (Inr w :: u16 result)"
  shows "b = ucast (drop_bit 8 w)"
proof -
  have "i + 2 \<le> length data" and t: "take 2 (drop i data) = [ucast (drop_bit 8 w), ucast w]"
    using assms(2) by (simp_all add: slice_int_u16_iff)
  then have "drop i data = ucast (drop_bit 8 w) # ucast w # drop (i + 2) data"
    using drop_field_eq [OF t] by simp
  from byte_drop [OF this] assms(1) show ?thesis by simp
qed

end
