(* ===== verification/Net_Addr.thy ===== *)
theory Net_Addr
  imports Wire_Bytes
begin

text \<open>
  \<open>network_addresses.cpp\<close> and \<open>interface_config.cpp\<close>: hardware and IPv4 addresses with their
  textual forms, and the prefix arithmetic of an interface's configuration. Every constructor
  of \<open>MacAddress\<close> leaves exactly six octets behind and every constructor of \<open>IPv4Address\<close>
  exactly four, so both are datatypes over their octets.
\<close>

section \<open>Addresses\<close>

datatype mac = MacAddress u8 u8 u8 u8 u8 u8

datatype ipv4 = IPv4Address u8 u8 u8 u8

fun mac_get_address :: "mac \<Rightarrow> bytes" where
  "mac_get_address (MacAddress a b c d e f) = [a, b, c, d, e, f]"

fun ipv4_get_address :: "ipv4 \<Rightarrow> bytes" where
  "ipv4_get_address (IPv4Address a b c d) = [a, b, c, d]"

definition mac_zero :: mac where
  "mac_zero = MacAddress 0 0 0 0 0 0"

definition ipv4_zero :: ipv4 where
  "ipv4_zero = IPv4Address 0 0 0 0"

definition MAC_BROADCAST :: mac where
  "MAC_BROADCAST = MacAddress 0xff 0xff 0xff 0xff 0xff 0xff"

definition mac_of_bytes :: "bytes \<Rightarrow> mac result" where
  "mac_of_bytes address =
     (case address of [a, b, c, d, e, f] \<Rightarrow> Inr (MacAddress a b c d e f) | _ \<Rightarrow> Inl BaseException)"

definition ipv4_of_bytes :: "bytes \<Rightarrow> ipv4 result" where
  "ipv4_of_bytes address =
     (case address of [a, b, c, d] \<Rightarrow> Inr (IPv4Address a b c d) | _ \<Rightarrow> Inl BaseException)"

text \<open>The colon check visits the indices 2, 5, 8, 11 and 14 of a 17-character string.\<close>

definition mac_of_string :: "string \<Rightarrow> mac result" where
  "mac_of_string address =
     (if length address \<noteq> 6 * 2 + 5 then Inl BaseException
      else if \<exists>i\<in>{2, 5, 8, 11, 14}. address ! i \<noteq> CHR '':'' then Inl BaseException
      else rbind (string_replace_all address '':'' '''') (\<lambda>address_hex.
        if length address_hex \<noteq> 6 * 2 then Inl BaseException
        else rbind (from_hex address_hex) mac_of_bytes))"

definition mac_to_string :: "mac \<Rightarrow> string" where
  "mac_to_string m = butlast (concat (map (\<lambda>byte. byte_to_hex byte @ '':'') (mac_get_address m)))"

function ipv4_parse_loop :: "string \<Rightarrow> bytes result" where
  "ipv4_parse_loop s =
     (let octet = takeWhile (\<lambda>c. c \<noteq> CHR ''.'') s; rest = dropWhile (\<lambda>c. c \<noteq> CHR ''.'') s
      in rbind (decimal_to_byte octet) (\<lambda>b.
           case rest of [] \<Rightarrow> Inr [b]
           | dot # s' \<Rightarrow> rbind (ipv4_parse_loop s') (\<lambda>bs. Inr (b # bs))))"
  by pat_completeness auto
termination
proof (relation "measure length")
  fix s s' :: string and octet rest :: string and b dot
  assume "rest = dropWhile (\<lambda>c. c \<noteq> CHR ''.'') s" and "rest = dot # s'"
  then have "length (dot # s') \<le> length s"
    by (metis length_dropWhile_le)
  then show "(s', s) \<in> measure length" by simp
qed simp

definition ipv4_of_string :: "string \<Rightarrow> ipv4 result" where
  "ipv4_of_string address = rbind (ipv4_parse_loop address) ipv4_of_bytes"

definition ipv4_to_string :: "ipv4 \<Rightarrow> string" where
  "ipv4_to_string a = butlast (concat (map (\<lambda>byte. byte_to_decimal byte @ ''.'') (ipv4_get_address a)))"

section \<open>Interface configuration\<close>

record iface_config =
  ic_mac :: mac
  ic_ip :: ipv4
  ic_prefix_length :: u8
  ic_gateway :: ipv4
  ic_mtu :: u16

definition has_address :: "iface_config \<Rightarrow> bool" where
  "has_address c \<longleftrightarrow> ic_ip c \<noteq> ipv4_zero"

definition has_gateway :: "iface_config \<Rightarrow> bool" where
  "has_gateway c \<longleftrightarrow> ic_gateway c \<noteq> ipv4_zero"

text \<open>
  \<open>mtu - 20\<close> is an \<open>int\<close> and meets a 64-bit mask; \<open>local_mss\<close> is cast back to 16 bits. Both
  wrap for an MTU below the headers it has to carry.
\<close>

definition max_ip_payload :: "iface_config \<Rightarrow> u64" where
  "max_ip_payload c = (ucast (ic_mtu c) - 20) AND NOT 7"

definition local_mss :: "iface_config \<Rightarrow> u16" where
  "local_mss c = ic_mtu c - 20 - 20"

fun ipv4_to_uint32 :: "ipv4 \<Rightarrow> u32" where
  "ipv4_to_uint32 (IPv4Address a b c d) =
     ((push_bit 24 (ucast a) OR push_bit 16 (ucast b)) OR push_bit 8 (ucast c)) OR ucast d"

definition ipv4_from_uint32 :: "u32 \<Rightarrow> ipv4" where
  "ipv4_from_uint32 value =
     IPv4Address (ucast (drop_bit 24 value)) (ucast (drop_bit 16 value)) (ucast (drop_bit 8 value)) (ucast value)"

definition ipv4_prefix_mask :: "u8 \<Rightarrow> u32" where
  "ipv4_prefix_mask prefix_length =
     (if prefix_length = 0 then 0
      else if prefix_length \<ge> 32 then 0xFFFFFFFF
      else push_bit (32 - unat prefix_length) 0xFFFFFFFF)"

definition limited_broadcast_address :: ipv4 where
  "limited_broadcast_address = ipv4_from_uint32 0xFFFFFFFF"

definition is_same_network :: "ipv4 \<Rightarrow> ipv4 \<Rightarrow> u8 \<Rightarrow> bool" where
  "is_same_network a b prefix_length =
     (let msk = ipv4_prefix_mask prefix_length
      in ipv4_to_uint32 a AND msk = ipv4_to_uint32 b AND msk)"

definition is_broadcast_address :: "ipv4 \<Rightarrow> iface_config \<Rightarrow> bool" where
  "is_broadcast_address ip config =
     (let value = ipv4_to_uint32 ip in
      if value = 0xFFFFFFFF then True
      else if \<not> has_address config then False
      else let msk = ipv4_prefix_mask (ic_prefix_length config);
               network = ipv4_to_uint32 (ic_ip config) AND msk
           in value = network OR NOT msk)"


section \<open>Address laws\<close>

lemma length_mac_get_address [simp]: "length (mac_get_address m) = 6"
  by (cases m) simp

lemma length_ipv4_get_address [simp]: "length (ipv4_get_address a) = 4"
  by (cases a) simp

lemma mac_of_bytes_get_address [simp]: "mac_of_bytes (mac_get_address m) = Inr m"
  by (cases m) (simp add: mac_of_bytes_def)

lemma ipv4_of_bytes_get_address [simp]: "ipv4_of_bytes (ipv4_get_address a) = Inr a"
  by (cases a) (simp add: ipv4_of_bytes_def)

lemma ipv4_of_bytes_Inr_iff: "ipv4_of_bytes bs = Inr a \<longleftrightarrow> bs = ipv4_get_address a"
  by (cases a) (auto simp: ipv4_of_bytes_def split: list.splits)

lemma mac_of_bytes_Inr_iff: "mac_of_bytes bs = Inr m \<longleftrightarrow> bs = mac_get_address m"
  by (cases m) (auto simp: mac_of_bytes_def split: list.splits)

lemma no_ub_of_bytes [simp, no_ub_rules]: "no_ub (mac_of_bytes bs)" "no_ub (ipv4_of_bytes bs)"
  by (auto simp: mac_of_bytes_def ipv4_of_bytes_def split: list.splits)

lemma ipv4_from_to_uint32 [simp]: "ipv4_from_uint32 (ipv4_to_uint32 a) = a"
proof (cases a)
  case (IPv4Address a b c d)
  have "n < 8 \<Longrightarrow> bit (ucast (drop_bit 24 (ipv4_to_uint32 (IPv4Address a b c d))) :: u8) n = bit a n"
   and "n < 8 \<Longrightarrow> bit (ucast (drop_bit 16 (ipv4_to_uint32 (IPv4Address a b c d))) :: u8) n = bit b n"
   and "n < 8 \<Longrightarrow> bit (ucast (drop_bit 8 (ipv4_to_uint32 (IPv4Address a b c d))) :: u8) n = bit c n"
   and "n < 8 \<Longrightarrow> bit (ucast (ipv4_to_uint32 (IPv4Address a b c d)) :: u8) n = bit d n" for n
    by (auto simp: bit_simps dest: bit_imp_le_length)
  then show ?thesis
    unfolding IPv4Address ipv4_from_uint32_def by (auto intro!: bit_word_eqI simp del: ipv4_to_uint32.simps)
qed

lemma ipv4_to_from_uint32 [simp]: "ipv4_to_uint32 (ipv4_from_uint32 v) = v"
  by (simp add: ipv4_from_uint32_def)

lemma ipv4_to_uint32_inj [simp]: "ipv4_to_uint32 a = ipv4_to_uint32 b \<longleftrightarrow> a = b"
  by (metis ipv4_from_to_uint32)

text \<open>The textual form reads back as the address it was printed from.\<close>

lemma byte_to_decimal_loop_digits:
  "c \<in> set (byte_to_decimal_loop b []) \<Longrightarrow> c \<in> set ''0123456789''"
proof (induction "unat b" arbitrary: b rule: less_induct)
  case less
  show ?case
  proof (cases "0 < b")
    case True
    have "unat (b mod 10) < length ''0123456789''" by (simp add: unat_mod_distrib)
    then have "''0123456789'' ! unat (b mod 10) \<in> set ''0123456789''" by (rule nth_mem)
    with less.prems less.hyps [OF unat_div10_less [OF True]] show ?thesis
      by (auto simp: byte_to_decimal_loop_pos [OF True] byte_to_decimal_loop_acc [of _ "[_]"])
  qed (use less.prems in \<open>simp add: word_gt_0\<close>)
qed

lemma byte_to_decimal_no_dot: "CHR ''.'' \<notin> set (byte_to_decimal b)"
  using byte_to_decimal_loop_digits [of "CHR ''.''" b] by (auto simp: byte_to_decimal_def)

declare ipv4_parse_loop.simps [simp del]

lemma takeWhile_no_dot:
  assumes "CHR ''.'' \<notin> set xs"
  shows "takeWhile (\<lambda>c. c \<noteq> CHR ''.'') xs = xs" and "dropWhile (\<lambda>c. c \<noteq> CHR ''.'') xs = []"
    and "takeWhile (\<lambda>c. c \<noteq> CHR ''.'') (xs @ CHR ''.'' # ys) = xs"
    and "dropWhile (\<lambda>c. c \<noteq> CHR ''.'') (xs @ CHR ''.'' # ys) = CHR ''.'' # ys"
  using assms by (induction xs) auto

lemma ipv4_parse_loop_last: "ipv4_parse_loop (byte_to_decimal b) = Inr [b]"
  by (simp add: ipv4_parse_loop.simps [of "byte_to_decimal b"] takeWhile_no_dot
      byte_to_decimal_no_dot decimal_to_byte_to_decimal)

lemma ipv4_parse_loop_dot:
  "ipv4_parse_loop (byte_to_decimal b @ CHR ''.'' # s) = rbind (ipv4_parse_loop s) (\<lambda>bs. Inr (b # bs))"
  by (subst ipv4_parse_loop.simps)
     (simp add: takeWhile_no_dot byte_to_decimal_no_dot decimal_to_byte_to_decimal)

lemma ipv4_string_roundtrip: "ipv4_of_string (ipv4_to_string a) = Inr a"
  by (cases a)
     (simp add: ipv4_of_string_def ipv4_to_string_def butlast_append
       ipv4_parse_loop_dot ipv4_parse_loop_last ipv4_of_bytes_def)


lemma hex_digit_not_colon: "n < 16 \<Longrightarrow> ''0123456789abcdef'' ! n \<noteq> CHR '':''"
proof -
  assume "n < 16"
  then have "''0123456789abcdef'' ! n \<in> set ''0123456789abcdef''" by (intro nth_mem) simp
  then show ?thesis by auto
qed

lemma byte_to_hex_digits:
  obtains x y where "byte_to_hex b = [x, y]" and "x \<noteq> CHR '':''" and "y \<noteq> CHR '':''"
proof -
  have "unat (b div 0x10) < 16" using unat_u8_less [of b] by (simp add: unat_div_distrib)
  moreover have "unat (b mod 0x10) < 16" by (simp add: unat_mod_distrib)
  ultimately show ?thesis
    using that [OF byte_to_hex_def] hex_digit_not_colon by blast
qed

lemma string_replace_colon:
  "string_replace_loop '':'' '''' (byte_to_hex b @ s) = byte_to_hex b @ string_replace_loop '':'' '''' s"
  "string_replace_loop '':'' '''' (CHR '':'' # s) = string_replace_loop '':'' '''' s"
  by (rule byte_to_hex_digits [of b]; simp) simp

lemma mac_to_string_eq:
  "mac_to_string (MacAddress a b c d e f) =
     byte_to_hex a @ CHR '':'' # byte_to_hex b @ CHR '':'' # byte_to_hex c @ CHR '':'' #
     byte_to_hex d @ CHR '':'' # byte_to_hex e @ CHR '':'' # byte_to_hex f"
  by (simp add: mac_to_string_def butlast_append)

lemma mac_string_roundtrip: "mac_of_string (mac_to_string m) = Inr m"
proof (cases m)
  case (MacAddress a b c d e f)
  let ?s = "mac_to_string m"
  have len: "length ?s = 17" by (simp add: MacAddress mac_to_string_eq)
  have colons: "?s ! i = CHR '':''" if "i \<in> {2, 5, 8, 11, 14}" for i
    using that by (auto simp: MacAddress mac_to_string_eq nth_append)
  have strip: "string_replace_loop '':'' '''' ?s = to_hex [a, b, c, d, e, f]"
    using string_replace_colon(1) [of f "[]"]
    by (simp add: MacAddress mac_to_string_eq string_replace_colon to_hex_def)
  have "length (to_hex [a, b, c, d, e, f]) = 12" by simp
  with len colons strip from_hex_to_hex show ?thesis
    by (simp add: mac_of_string_def string_replace_all_def MacAddress mac_of_bytes_def del: length_to_hex)
qed

section \<open>Prefix arithmetic\<close>

lemma bit_ipv4_prefix_mask: "bit (ipv4_prefix_mask p) n \<longleftrightarrow> n < 32 \<and> 32 \<le> n + unat p"
proof -
  have all_ones: "(0xFFFFFFFF :: u32) = - 1" by simp
  show ?thesis
    unfolding ipv4_prefix_mask_def all_ones
    by (auto simp: bit_simps word_le_nat_alt unat_eq_zero)
qed

lemma and_prefix_mask_eq_iff:
  "a AND ipv4_prefix_mask p = b AND ipv4_prefix_mask p \<longleftrightarrow>
     (\<forall>n<32. 32 \<le> n + unat p \<longrightarrow> bit a n = bit b n)"
  by (auto simp: bit_eq_iff bit_simps bit_ipv4_prefix_mask dest: bit_imp_le_length)

lemma is_same_network_iff:
  "is_same_network a b p \<longleftrightarrow>
     (\<forall>n<32. 32 \<le> n + unat p \<longrightarrow> bit (ipv4_to_uint32 a) n = bit (ipv4_to_uint32 b) n)"
  by (simp add: is_same_network_def and_prefix_mask_eq_iff)

lemma is_same_network_mono: "is_same_network a b p \<Longrightarrow> q \<le> p \<Longrightarrow> is_same_network a b q"
  by (auto simp: is_same_network_iff word_le_nat_alt)

lemma prefix_mask_idem [simp]: "(v AND ipv4_prefix_mask p) AND ipv4_prefix_mask p = v AND ipv4_prefix_mask p"
  by (simp add: and.assoc)

lemma prefix_mask_longer:
  "q \<le> p \<Longrightarrow> (v AND ipv4_prefix_mask p) AND ipv4_prefix_mask q = v AND ipv4_prefix_mask q"
  by (rule bit_word_eqI) (auto simp: bit_simps bit_ipv4_prefix_mask word_le_nat_alt)


section \<open>Properties of the address types\<close>

text \<open>C36. Printing an address and reading it back gives the same address, for dotted-decimal IPv4
  addresses, colon-separated MAC addresses and the 32-bit integer form.\<close>

theorem address_text_roundtrip:
  "ipv4_of_string (ipv4_to_string a) = Inr a \<and> mac_of_string (mac_to_string m) = Inr m
   \<and> ipv4_from_uint32 (ipv4_to_uint32 a) = a \<and> ipv4_to_uint32 (ipv4_from_uint32 w) = w"
  by (simp add: ipv4_string_roundtrip mac_string_roundtrip)

end
