(* ===== verification/Checksum.thy ===== *)
theory Checksum
  imports Net_Addr
begin

text \<open>
  The Internet checksum of \<open>utils.cpp\<close> (RFC 1071) and the TCP/UDP checksum built on it. The
  32-bit accumulator, the carry-folding loop with its termination proof and the final
  complement are modelled at their width. The reference view is the natural-number total of
  the 16-bit words: the checksum is its ones'-complement negation, so verification succeeds
  exactly on the non-zero multiples of 65535.
\<close>

section \<open>The accumulator and the carry loop\<close>


fun checksum_sum :: "bytes \<Rightarrow> u32 \<Rightarrow> u32" where
  "checksum_sum (a # b # rest) acc = checksum_sum rest (acc + (push_bit 8 (ucast a) OR ucast b))"
| "checksum_sum [a] acc = acc + push_bit 8 (ucast a)"
| "checksum_sum [] acc = acc"

lemma u32_low_half: "(s :: u32) AND 0xffff = take_bit 16 s"
  by (simp add: take_bit_eq_mask mask_eq_exp_minus_1)

lemma unat_u32_high: "unat (drop_bit 16 (s :: u32)) = unat s div 65536"
  by (simp add: unat_drop_bit_eq drop_bit_eq_div unat_div_distrib)

lemma unat_u32_low: "unat ((s :: u32) AND 0xffff) = unat s mod 65536"
  by (simp add: u32_low_half take_bit_eq_mod unat_mod_distrib)

lemma unat_fold_step:
  fixes s :: u32
  shows "unat ((s AND 0xffff) + drop_bit 16 s) = unat s mod 65536 + unat s div 65536"
proof -
  have "unat s div 65536 < 65536" using unat_u32_less [of s] by linarith
  moreover have "unat s mod 65536 < 65536" by simp
  ultimately have "unat s mod 65536 + unat s div 65536 < 2 ^ LENGTH(32)" by simp
  then show ?thesis
    using unat_numeral_add_less [of "s AND 0xffff" "drop_bit 16 s"]
    by (simp add: unat_u32_low unat_u32_high)
qed

function fold_carries :: "u32 \<Rightarrow> u32" where
  "fold_carries acc =
     (if drop_bit 16 acc \<noteq> 0 then fold_carries ((acc AND 0xffff) + drop_bit 16 acc) else acc)"
  by pat_completeness auto
termination
proof (relation "measure unat")
  fix acc :: u32
  assume "drop_bit 16 acc \<noteq> 0"
  then have "0 < unat acc div 65536" by (simp add: unat_gt_0 flip: unat_u32_high)
  then have "unat acc mod 65536 + unat acc div 65536 < unat acc"
    using div_mult_mod_eq [of "unat acc" 65536] by linarith
  then show "((acc AND 0xffff) + drop_bit 16 acc, acc) \<in> measure unat"
    by (simp add: unat_fold_step)
qed simp

declare fold_carries.simps [simp del]

definition internet_checksum :: "bytes \<Rightarrow> u16" where
  "internet_checksum data = ucast (NOT (fold_carries (checksum_sum data 0)))"

definition transport_checksum :: "ipv4 \<Rightarrow> ipv4 \<Rightarrow> u8 \<Rightarrow> bytes \<Rightarrow> u16" where
  "transport_checksum src dest protocol segment =
     internet_checksum
       (ipv4_get_address src @ ipv4_get_address dest @ int_to_bytes (0 :: u8) @ int_to_bytes protocol
        @ int_to_bytes (of_nat (length segment) :: u16) @ segment)"

section \<open>The total of the 16-bit words\<close>

fun words16 :: "bytes \<Rightarrow> nat list" where
  "words16 (a # b # rest) = (256 * unat a + unat b) # words16 rest"
| "words16 [a] = [256 * unat a]"
| "words16 [] = []"

definition word_total :: "bytes \<Rightarrow> nat" where
  "word_total data = sum_list (words16 data)"

text \<open>Ones'-complement normal form: the representative of a total in \<open>{1..65535}\<close>, or 0.\<close>

definition ones_sum :: "nat \<Rightarrow> nat" where
  "ones_sum n = (if n = 0 then 0 else (n - 1) mod 65535 + 1)"

lemma unat_join_u8: "unat ((push_bit 8 (ucast (a :: u8)) OR ucast (b :: u8)) :: u32) = 256 * unat a + unat b"
proof -
  have "push_bit 8 (ucast a :: u32) OR ucast b = push_bit 8 (ucast a) + ucast b"
    by (rule disjunctive_add [symmetric]) (auto simp: bit_simps dest: bit_imp_le_length)
  moreover have "unat (push_bit 8 (ucast a) :: u32) = 256 * unat a"
    using unat_u8_less [of a] by (simp add: push_bit_eq_mult unat_word_ariths)
  ultimately show ?thesis
    using unat_u8_less [of a] unat_u8_less [of b] by (simp add: unat_word_ariths)
qed

lemma unat_shift_u8: "unat (push_bit 8 (ucast (a :: u8)) :: u32) = 256 * unat a"
  using unat_join_u8 [of a 0] by simp

lemma words16_bound: "w \<in> set (words16 data) \<Longrightarrow> w \<le> 65535"
proof (induction data rule: words16.induct)
  case (1 a b rest)
  then show ?case using unat_u8_less [of a] unat_u8_less [of b] by auto
next
  case (2 a)
  then show ?case using unat_u8_less [of a] by auto
qed simp

lemma length_words16: "length (words16 data) = (length data + 1) div 2"
  by (induction data rule: words16.induct) auto

lemma word_total_bound: "word_total data \<le> 65535 * ((length data + 1) div 2)"
  unfolding word_total_def
  using sum_list_mono [of "words16 data" "\<lambda>w. w" "\<lambda>_. 65535"] words16_bound [of _ data]
  by (simp add: sum_list_triv length_words16 mult.commute)

lemma checksum_sum_total:
  "unat acc + word_total data < 2 ^ 32 \<Longrightarrow> unat (checksum_sum data acc) = unat acc + word_total data"
proof (induction data acc rule: checksum_sum.induct)
  case (1 a b rest acc)
  then have "unat (acc + (push_bit 8 (ucast a) OR ucast b)) = unat acc + (256 * unat a + unat b)"
    by (subst unat_numeral_add_less) (simp_all add: unat_join_u8 word_total_def)
  with 1 show ?case by (simp add: word_total_def)
next
  case (2 a acc)
  then show ?case
    by (simp add: word_total_def) (subst unat_numeral_add_less, simp_all add: unat_shift_u8)
qed (simp add: word_total_def)

lemma ones_sum_fold: "ones_sum (n mod 65536 + n div 65536) = ones_sum n"
proof (cases "n < 65536")
  case False
  let ?m = "n mod 65536 + n div 65536"
  have "n = ?m + 65535 * (n div 65536)"
    using div_mult_mod_eq [of n 65536] by linarith
  moreover have "0 < n div 65536" using False by (simp add: div_greater_zero_iff)
  then have "0 < ?m" by linarith
  ultimately have "n - 1 = (?m - 1) + 65535 * (n div 65536)" by linarith
  then have "(n - 1) mod 65535 = (?m - 1) mod 65535" by (metis mod_mult_self2)
  with \<open>0 < ?m\<close> False show ?thesis by (simp add: ones_sum_def)
qed simp

lemma unat_fold_carries: "unat (fold_carries s) = ones_sum (unat s)"
proof (induction s rule: fold_carries.induct)
  case (1 s)
  show ?case
  proof (cases "drop_bit 16 s = 0")
    case True
    then have "unat s < 65536" by (metis div_less_dividend unat_0 unat_u32_high div_eq_0_iff zero_neq_numeral)
    then have "ones_sum (unat s) = unat s" by (auto simp: ones_sum_def)
    with True show ?thesis by (simp add: fold_carries.simps [of s])
  next
    case False
    with 1 show ?thesis
      by (simp add: fold_carries.simps [of s] unat_fold_step ones_sum_fold)
  qed
qed

lemma ones_sum_le: "ones_sum n \<le> 65535"
  by (simp add: ones_sum_def Suc_le_eq)

lemma unat_checksum_aux:
  assumes "unat (s :: u32) \<le> 65535"
  shows "unat (ucast (NOT s) :: u16) = 65535 - unat s"
proof -
  have "NOT s = - 1 - s" by (simp add: not_eq_complement)
  then have "unat (NOT s) = 4294967295 - unat s"
    using unat_sub [of s "- 1"] by (simp add: unsigned_minus_1_eq_mask mask_eq_exp_minus_1)
  also have "\<dots> = (65535 - unat s) + 65535 * 65536" using assms by linarith
  finally have "unat (NOT s) mod 65536 = (65535 - unat s) mod 65536" by (metis mod_mult_self1)
  also have "\<dots> = 65535 - unat s" by simp
  finally show ?thesis by (simp add: unsigned_ucast_eq take_bit_eq_mod unat_mod_distrib)
qed

lemma unat_internet_checksum:
  assumes "length data \<le> 131072"
  shows "unat (internet_checksum data) = 65535 - ones_sum (word_total data)"
proof -
  have "word_total data < 2 ^ 32" using word_total_bound [of data] assms by simp
  then have "unat (checksum_sum data 0) = word_total data" by (simp add: checksum_sum_total)
  then show ?thesis
    by (simp add: internet_checksum_def unat_checksum_aux unat_fold_carries ones_sum_le)
qed

lemma words16_append: "even (length xs) \<Longrightarrow> words16 (xs @ ys) = words16 xs @ words16 ys"
  by (induction xs rule: words16.induct) auto

lemma word_total_append: "even (length xs) \<Longrightarrow> word_total (xs @ ys) = word_total xs + word_total ys"
  by (simp add: word_total_def words16_append)

lemma word_total_u16: "word_total (int_to_bytes (v :: u16) @ ys) = unat v + word_total ys"
proof -
  have "unat (ucast (drop_bit 8 v) :: u8) = unat v div 256"
    using unat_u16_less [of v]
    by (simp add: unsigned_ucast_eq take_bit_eq_mod unat_mod_distrib drop_bit_eq_div unat_div_distrib)
  moreover have "unat (ucast v :: u8) = unat v mod 256"
    by (simp add: unsigned_ucast_eq take_bit_eq_mod unat_mod_distrib)
  ultimately show ?thesis by (simp add: word_total_def)
qed

text \<open>A message verifies when its words total a non-zero multiple of 65535.\<close>

lemma internet_checksum_zero_iff:
  assumes "length data \<le> 131072"
  shows "internet_checksum data = 0 \<longleftrightarrow> word_total data \<noteq> 0 \<and> 65535 dvd word_total data"
proof -
  let ?n = "word_total data"
  have "internet_checksum data = 0 \<longleftrightarrow> ones_sum ?n = 65535"
    using unat_internet_checksum [OF assms] ones_sum_le [of ?n]
    by (metis diff_diff_cancel diff_self_eq_0 diff_zero unat_eq_zero)
  also have "\<dots> \<longleftrightarrow> ?n \<noteq> 0 \<and> (?n - 1) mod 65535 = 65534" by (auto simp: ones_sum_def)
  also have "\<dots> \<longleftrightarrow> ?n \<noteq> 0 \<and> ?n mod 65535 = 0"
  proof (cases ?n)
    case (Suc m)
    show ?thesis by (simp add: Suc mod_Suc)
  qed simp
  finally show ?thesis by (simp add: dvd_eq_mod_eq_0)
qed

lemma ones_complement_total: "n + (65535 - ones_sum n) \<noteq> 0 \<and> 65535 dvd n + (65535 - ones_sum n)"
proof (cases n)
  case (Suc m)
  define q r where "q = m div 65535" and "r = m mod 65535"
  have "m = 65535 * q + r" and "r < 65535" by (simp_all add: q_def r_def)
  moreover have "ones_sum n = r + 1" by (simp add: Suc ones_sum_def r_def)
  ultimately have "n + (65535 - ones_sum n) = 65535 * (q + 1)" using Suc by simp
  then show ?thesis by simp
qed (simp add: ones_sum_def)

lemma checksum_self_verifies:
  assumes "even (length pre)" and "length pre + 2 + length post \<le> 131072"
  shows "internet_checksum (pre @ int_to_bytes (internet_checksum (pre @ [0, 0] @ post)) @ post) = 0"
proof -
  let ?n = "word_total pre + word_total post"
  let ?c = "internet_checksum (pre @ [0, 0] @ post)"
  have zeroed: "word_total (pre @ [0, 0] @ post) = ?n"
    using assms(1) word_total_u16 [of 0 post] by (simp add: word_total_append)
  have "unat ?c = 65535 - ones_sum ?n"
    using unat_internet_checksum [of "pre @ [0, 0] @ post"] assms(2) zeroed by simp
  moreover have "word_total (pre @ int_to_bytes ?c @ post) = ?n + unat ?c"
    using assms(1) word_total_u16 [of ?c post] by (simp add: word_total_append del: int_to_bytes_u16)
  moreover have "length (pre @ int_to_bytes ?c @ post) \<le> 131072" using assms(2) by simp
  ultimately show ?thesis
    using ones_complement_total [of ?n] by (simp add: internet_checksum_zero_iff del: int_to_bytes_u16)
qed

lemma checksum_detects_word_change:
  assumes "even (length pre)" and "length pre + 2 + length post \<le> 131072"
    and ok: "internet_checksum (pre @ int_to_bytes (v :: u16) @ post) = 0"
    and ok': "internet_checksum (pre @ int_to_bytes w @ post) = 0"
  shows "v = w \<or> {v, w} = {0, 0xffff}"
proof -
  let ?n = "word_total pre + word_total post"
  have len: "length (pre @ int_to_bytes u @ post) \<le> 131072" for u :: u16 using assms(2) by simp
  have tot: "word_total (pre @ int_to_bytes u @ post) = ?n + unat u" for u :: u16
    using assms(1) word_total_u16 [of u post] by (simp add: word_total_append del: int_to_bytes_u16)
  have dv: "65535 dvd ?n + unat v" "65535 dvd ?n + unat w"
    using ok ok' internet_checksum_zero_iff [OF len] tot by (simp_all del: int_to_bytes_u16)
  have "65535 dvd int (?n + unat v) - int (?n + unat w)"
    using dv by (metis dvd_diff int_dvd_int_iff of_nat_numeral)
  then have d: "65535 dvd int (unat v) - int (unat w)" by simp
  then obtain k where k: "int (unat v) - int (unat w) = 65535 * k" by (elim dvdE)
  moreover have "unat v < 65536" "unat w < 65536" by (rule unat_u16_less)+
  ultimately have "k = 0 \<or> k = 1 \<or> k = -1" by linarith
  then show ?thesis
  proof (elim disjE)
    assume "k = 0" then show ?thesis using k by (simp add: word_uint_eq_iff)
  next
    assume "k = 1"
    then have "unat v = 65535" "unat w = 0" using k unat_u16_less [of v] by linarith+
    then show ?thesis by (auto simp: word_unat_eq_iff)
  next
    assume "k = -1"
    then have "unat w = 65535" "unat v = 0" using k unat_u16_less [of w] by linarith+
    then show ?thesis by (auto simp: word_unat_eq_iff)
  qed
qed


lemma transport_checksum_self_verifies:
  assumes "even (length pre)" and "length pre + 2 + length post \<le> 65535"
  shows "transport_checksum src dest protocol
           (pre @ int_to_bytes (transport_checksum src dest protocol (pre @ [0, 0] @ post)) @ post) = 0"
proof -
  let ?len = "of_nat (length pre + 2 + length post) :: u16"
  let ?pseudo = "ipv4_get_address src @ ipv4_get_address dest @ [0, protocol] @ int_to_bytes ?len @ pre"
  have "even (length ?pseudo)" using assms(1) by simp
  moreover have "length ?pseudo + 2 + length post \<le> 131072" using assms(2) by simp
  ultimately have "internet_checksum (?pseudo @ int_to_bytes (internet_checksum (?pseudo @ [0, 0] @ post)) @ post) = 0"
    by (rule checksum_self_verifies)
  then show ?thesis by (simp add: transport_checksum_def add.assoc add.commute [of "length post"])
qed


section \<open>Properties of the checksum\<close>

text \<open>C24. The checksum loop with its deferred carry folding computes the RFC 1071 sum: the
  ones' complement of the ones'-complement sum of the big-endian 16-bit words, an odd last byte
  padded with zero, for every input up to 128 KiB.\<close>

theorem internet_checksum_is_rfc1071:
  assumes "length data \<le> 131072"
  shows "unat (internet_checksum data) = 65535 - ones_sum (sum_list (words16 data))"
  using unat_internet_checksum [OF assms] by (simp add: word_total_def)

theorem internet_checksum_is_rfc1071_witness:
  "internet_checksum [0x45, 0, 0, 0x73, 0, 0, 0x40, 0, 0x40, 0x11, 0, 0, 0xc0, 0xa8, 0, 1, 0xc0, 0xa8, 0, 0xc7] = 0xb861"
proof -
  have "unat (internet_checksum [0x45, 0, 0, 0x73, 0, 0, 0x40, 0, 0x40, 0x11, 0, 0, 0xc0, 0xa8, 0, 1, 0xc0, 0xa8, 0, 0xc7])
      = unat (0xb861 :: u16)"
    by (subst internet_checksum_is_rfc1071) (simp_all add: ones_sum_def)
  then show ?thesis by (simp only: word_unat_eq_iff)
qed

end
