(* ===== verification/Tcp_Codec.thy ===== *)
theory Tcp_Codec
  imports Checksum
begin

text \<open>
  The TCP codec of \<open>tcp.h\<close>/\<open>tcp.cpp\<close>: header fields, the option list (MSS, window scale,
  SACK-permitted, SACK blocks, timestamps) and the payload as a \<open>Raw\<close> next layer. The option
  loop is a terminating recursion over the index into the received bytes, each iteration
  advancing by at least one; the writer pads the options with NOPs to whole 32-bit words.
\<close>

section \<open>Segments\<close>

record sack_block =
  sb_start :: u32
  sb_end :: u32

record tcp =
  tcp_src_port :: u16
  tcp_dest_port :: u16
  tcp_sequence_number :: u32
  tcp_acknowledgement_number :: u32
  tcp_data_offset :: u8
  tcp_cwr :: bool
  tcp_ece :: bool
  tcp_urg :: bool
  tcp_ack :: bool
  tcp_psh :: bool
  tcp_rst :: bool
  tcp_syn :: bool
  tcp_fin :: bool
  tcp_window :: u16
  tcp_checksum :: u16
  tcp_urgent_ptr :: u16
  tcp_has_mss_option :: bool
  tcp_mss_option :: u16
  tcp_has_window_scale_option :: bool
  tcp_window_scale_option :: u8
  tcp_has_sack_permitted_option :: bool
  tcp_sack_blocks :: "sack_block list"
  tcp_has_timestamp_option :: bool
  tcp_timestamp_value :: u32
  tcp_timestamp_echo :: u32
  tcp_received_bytes :: bytes
  tcp_next_layer :: "bytes option"

definition MAX_SACK_BLOCKS :: nat where "MAX_SACK_BLOCKS = 4"
definition MAX_SACK_BLOCKS_WITH_TIMESTAMP :: nat where "MAX_SACK_BLOCKS_WITH_TIMESTAMP = 3"
definition MAX_WINDOW_SCALE :: u8 where "MAX_WINDOW_SCALE = 14"

text \<open>The header constructor: the flag byte is spread over the eight booleans.\<close>

definition tcp_new :: "u16 \<Rightarrow> u16 \<Rightarrow> u32 \<Rightarrow> u32 \<Rightarrow> u8 \<Rightarrow> u8 \<Rightarrow> u16 \<Rightarrow> u16 \<Rightarrow> u16 \<Rightarrow> tcp" where
  "tcp_new src_port dest_port sequence_number acknowledgement_number data_offset flags window csum urgent_pointer =
     \<lparr>tcp_src_port = src_port, tcp_dest_port = dest_port,
      tcp_sequence_number = sequence_number, tcp_acknowledgement_number = acknowledgement_number,
      tcp_data_offset = data_offset,
      tcp_cwr = (flags AND 0x80 \<noteq> 0), tcp_ece = (flags AND 0x40 \<noteq> 0),
      tcp_urg = (flags AND 0x20 \<noteq> 0), tcp_ack = (flags AND 0x10 \<noteq> 0),
      tcp_psh = (flags AND 0x08 \<noteq> 0), tcp_rst = (flags AND 0x04 \<noteq> 0),
      tcp_syn = (flags AND 0x02 \<noteq> 0), tcp_fin = (flags AND 0x01 \<noteq> 0),
      tcp_window = window, tcp_checksum = csum, tcp_urgent_ptr = urgent_pointer,
      tcp_has_mss_option = False, tcp_mss_option = 0,
      tcp_has_window_scale_option = False, tcp_window_scale_option = 0,
      tcp_has_sack_permitted_option = False, tcp_sack_blocks = [],
      tcp_has_timestamp_option = False, tcp_timestamp_value = 0, tcp_timestamp_echo = 0,
      tcp_received_bytes = [], tcp_next_layer = None\<rparr>"

definition tcp_set_mss_option :: "u16 \<Rightarrow> tcp \<Rightarrow> tcp" where
  "tcp_set_mss_option m t = t\<lparr>tcp_has_mss_option := True, tcp_mss_option := m\<rparr>"

definition tcp_set_window_scale_option :: "u8 \<Rightarrow> tcp \<Rightarrow> tcp" where
  "tcp_set_window_scale_option shift t =
     t\<lparr>tcp_has_window_scale_option := True, tcp_window_scale_option := shift\<rparr>"

definition tcp_set_sack_permitted_option :: "tcp \<Rightarrow> tcp" where
  "tcp_set_sack_permitted_option t = t\<lparr>tcp_has_sack_permitted_option := True\<rparr>"

definition tcp_set_sack_blocks :: "sack_block list \<Rightarrow> tcp \<Rightarrow> tcp" where
  "tcp_set_sack_blocks blocks t = t\<lparr>tcp_sack_blocks := blocks\<rparr>"

definition tcp_set_timestamp_option :: "u32 \<Rightarrow> u32 \<Rightarrow> tcp \<Rightarrow> tcp" where
  "tcp_set_timestamp_option v e t =
     t\<lparr>tcp_has_timestamp_option := True, tcp_timestamp_value := v, tcp_timestamp_echo := e\<rparr>"

section \<open>Parsing\<close>

primrec tcp_parse_sack :: "bytes \<Rightarrow> nat \<Rightarrow> nat \<Rightarrow> sack_block list result" where
  "tcp_parse_sack data at 0 = Inr []"
| "tcp_parse_sack data at (Suc block_count) =
     rbind (slice_int data at) (\<lambda>start.
     rbind (slice_int data (at + 4)) (\<lambda>end'.
     rbind (tcp_parse_sack data (at + 8) block_count) (\<lambda>blocks.
     Inr (\<lparr>sb_start = start, sb_end = end'\<rparr> # blocks))))"

text \<open>One complete option of kind \<open>kind\<close> and length \<open>len\<close> at index \<open>i\<close>; unknown kinds are skipped.\<close>

definition tcp_parse_option :: "bytes \<Rightarrow> nat \<Rightarrow> u8 \<Rightarrow> nat \<Rightarrow> tcp \<Rightarrow> tcp result" where
  "tcp_parse_option data i kind len t =
     (if kind = 2 \<and> len = 4 then
        rbind (slice_int data (i + 2)) (\<lambda>m. Inr (tcp_set_mss_option m t))
      else if kind = 4 \<and> len = 2 then
        Inr (tcp_set_sack_permitted_option t)
      else if kind = 5 \<and> len \<ge> 10 \<and> (len - 2) mod 8 = 0 then
        rbind (tcp_parse_sack data (i + 2) ((len - 2) div 8)) (\<lambda>blocks.
          Inr (t\<lparr>tcp_sack_blocks := tcp_sack_blocks t @ blocks\<rparr>))
      else if kind = 8 \<and> len = 10 then
        rbind (slice_int data (i + 2)) (\<lambda>v.
        rbind (slice_int data (i + 6)) (\<lambda>e. Inr (tcp_set_timestamp_option v e t)))
      else if kind = 3 \<and> len = 3 then
        rbind (byte_at data (i + 2)) (\<lambda>shift.
          Inr (tcp_set_window_scale_option (if shift > MAX_WINDOW_SCALE then MAX_WINDOW_SCALE else shift) t))
      else Inr t)"

function tcp_parse_options :: "bytes \<Rightarrow> nat \<Rightarrow> nat \<Rightarrow> tcp \<Rightarrow> tcp result" where
  "tcp_parse_options data header_length i t =
     (if i < header_length then
        rbind (byte_at data i) (\<lambda>kind.
          if kind = 0 then Inr t
          else if kind = 1 then tcp_parse_options data header_length (i + 1) t
          else if i + 1 \<ge> header_length then Inr t
          else rbind (byte_at data (i + 1)) (\<lambda>len.
            if unat len < 2 \<or> i + unat len > header_length then Inr t
            else rbind (tcp_parse_option data i kind (unat len) t) (\<lambda>t'.
              tcp_parse_options data header_length (i + unat len) t')))
      else Inr t)"
  by pat_completeness auto
termination
  by (relation "measure (\<lambda>(data, header_length, i, t). header_length - i)") auto

text \<open>The fixed header, up to the point where the option flags are reset.\<close>

definition tcp_parse_header :: "bytes \<Rightarrow> tcp \<Rightarrow> tcp result" where
  "tcp_parse_header data t =
     (if length data < 20 then Inl BaseException
      else
        rbind (slice_int data 0) (\<lambda>src_port.
        rbind (slice_int data 2) (\<lambda>dest_port.
        rbind (slice_int data 4) (\<lambda>sequence_number.
        rbind (slice_int data 8) (\<lambda>acknowledgement_number.
        rbind (byte_at data 12) (\<lambda>b12.
        let data_offset = drop_bit 4 b12; header_length = unat data_offset * 4 in
        if data_offset < 5 \<or> header_length > length data then Inl BaseException
        else
          rbind (byte_at data 13) (\<lambda>flags.
          rbind (slice_int data 14) (\<lambda>window.
          rbind (slice_int data 16) (\<lambda>csum.
          rbind (slice_int data 18) (\<lambda>urgent_ptr.
          Inr (t\<lparr>tcp_src_port := src_port, tcp_dest_port := dest_port,
               tcp_sequence_number := sequence_number,
               tcp_acknowledgement_number := acknowledgement_number,
               tcp_data_offset := data_offset,
               tcp_cwr := flags AND 0x80 \<noteq> 0, tcp_ece := flags AND 0x40 \<noteq> 0,
               tcp_urg := flags AND 0x20 \<noteq> 0, tcp_ack := flags AND 0x10 \<noteq> 0,
               tcp_psh := flags AND 0x08 \<noteq> 0, tcp_rst := flags AND 0x04 \<noteq> 0,
               tcp_syn := flags AND 0x02 \<noteq> 0, tcp_fin := flags AND 0x01 \<noteq> 0,
               tcp_window := window, tcp_checksum := csum, tcp_urgent_ptr := urgent_ptr,
               tcp_has_mss_option := False, tcp_has_window_scale_option := False\<rparr>)))))))))))"

definition tcp_parse_payload :: "bytes \<Rightarrow> nat \<Rightarrow> tcp \<Rightarrow> tcp result" where
  "tcp_parse_payload data header_length t =
     (if length data > header_length
      then rbind (slice_from data header_length) (\<lambda>raw. Inr (t\<lparr>tcp_next_layer := Some raw\<rparr>))
      else Inr t)"

definition tcp_parse :: "tcp \<Rightarrow> tcp result" where
  "tcp_parse t =
     (let data = tcp_received_bytes t in
      rbind (tcp_parse_header data t) (\<lambda>t1.
      let header_length = unat (tcp_data_offset t1) * 4 in
      rbind (tcp_parse_options data header_length 20 t1) (\<lambda>t2.
      tcp_parse_payload data header_length t2)))"

text \<open>\<open>Tcp(Bytes)\<close>: members without an initialiser are overwritten by every successful parse.\<close>

definition tcp_blank :: "bytes \<Rightarrow> tcp" where
  "tcp_blank bs = (tcp_new 0 0 0 0 0 0 0 0 0)\<lparr>tcp_received_bytes := bs\<rparr>"

definition tcp_of_bytes :: "bytes \<Rightarrow> tcp result" where
  "tcp_of_bytes bs = tcp_parse (tcp_blank bs)"

definition tcp_from_bytes :: "bytes \<Rightarrow> tcp \<Rightarrow> tcp result" where
  "tcp_from_bytes data t = tcp_parse (t\<lparr>tcp_received_bytes := data\<rparr>)"

section \<open>Writing\<close>

function nop_padding :: "bytes \<Rightarrow> bytes" where
  "nop_padding options =
     (if length options mod 4 \<noteq> 0 then nop_padding (append_int options (1 :: u8)) else options)"
  by pat_completeness auto
termination
proof (relation "measure (\<lambda>options. (4 - length options mod 4) mod 4)")
  fix options :: bytes
  assume nz: "length options mod 4 \<noteq> 0"
  have "length options mod 4 < 4" by simp
  with nz consider "length options mod 4 = 1" | "length options mod 4 = 2" | "length options mod 4 = 3"
    by linarith
  then have "(4 - Suc (length options) mod 4) mod 4 < (4 - length options mod 4) mod 4"
    by cases (simp_all add: mod_Suc)
  then show "(append_int options (1 :: u8), options) \<in> measure (\<lambda>options. (4 - length options mod 4) mod 4)"
    by (simp add: append_int_eq)
qed simp

definition tcp_options_to_bytes :: "tcp \<Rightarrow> bytes" where
  "tcp_options_to_bytes t =
     (let options = [];
          options = (if tcp_has_mss_option t
                     then append_int (options @ [2, 4]) (tcp_mss_option t) else options);
          options = (if tcp_has_window_scale_option t
                     then options @ [3, 3, tcp_window_scale_option t] else options);
          options = (if tcp_has_sack_permitted_option t then options @ [4, 2] else options);
          options = (if tcp_sack_blocks t \<noteq> []
                     then foldl (\<lambda>o' block. append_int (append_int o' (sb_start block)) (sb_end block))
                            (options @ [1, 1, 5, of_nat (2 + length (tcp_sack_blocks t) * 8)])
                            (tcp_sack_blocks t)
                     else options);
          options = (if tcp_has_timestamp_option t
                     then append_int (append_int (options @ [1, 1, 8, 10]) (tcp_timestamp_value t)) (tcp_timestamp_echo t)
                     else options)
      in nop_padding options)"

definition tcp_flags_byte :: "tcp \<Rightarrow> u8" where
  "tcp_flags_byte t =
     ((((((push_bit 7 (of_bool (tcp_cwr t)) OR push_bit 6 (of_bool (tcp_ece t)))
        OR push_bit 5 (of_bool (tcp_urg t))) OR push_bit 4 (of_bool (tcp_ack t)))
        OR push_bit 3 (of_bool (tcp_psh t))) OR push_bit 2 (of_bool (tcp_rst t)))
        OR push_bit 1 (of_bool (tcp_syn t))) OR of_bool (tcp_fin t)"

text \<open>\<open>to_bytes\<close> first recomputes the data offset from the options, then serialises.\<close>

definition tcp_recompute_data_offset :: "tcp \<Rightarrow> tcp" where
  "tcp_recompute_data_offset t =
     t\<lparr>tcp_data_offset := of_nat (5 + length (tcp_options_to_bytes t) div 4)\<rparr>"

definition tcp_to_bytes :: "tcp \<Rightarrow> bytes" where
  "tcp_to_bytes t =
     (let options = tcp_options_to_bytes t;
          t = tcp_recompute_data_offset t;
          result = append_int [] (tcp_src_port t);
          result = append_int result (tcp_dest_port t);
          result = append_int result (tcp_sequence_number t);
          result = append_int result (tcp_acknowledgement_number t);
          result = append_int result (push_bit 4 (tcp_data_offset t));
          result = append_int result (tcp_flags_byte t);
          result = append_int result (tcp_window t);
          result = append_int result (tcp_checksum t);
          result = append_int result (tcp_urgent_ptr t);
          result = result @ options
      in case tcp_next_layer t of None \<Rightarrow> result | Some raw \<Rightarrow> result @ raw)"


declare tcp_parse_options.simps [simp del] nop_padding.simps [simp del]

section \<open>Memory safety of the parser\<close>

lemma header_length_ok: "\<not> ((w :: u8) < 5 \<or> n < unat w * 4) \<Longrightarrow> 20 \<le> unat w * 4 \<and> unat w * 4 \<le> n"
  by (simp add: word_less_nat_alt)

lemma tcp_parse_sack_no_ub [no_ub_rules]: "no_ub (tcp_parse_sack data at n)"
  by (induction n arbitrary: at) (auto intro!: no_ub_rules)

lemma tcp_parse_option_no_ub [no_ub_rules]:
  "i + len \<le> length data \<Longrightarrow> no_ub (tcp_parse_option data i kind len t)"
  unfolding tcp_parse_option_def by (intro no_ub_rules) auto

lemma tcp_parse_options_no_ub [no_ub_rules]:
  "header_length \<le> length data \<Longrightarrow> no_ub (tcp_parse_options data header_length i t)"
proof (induction "header_length - i" arbitrary: i t rule: less_induct)
  case less
  have step: "no_ub (tcp_parse_options data header_length j t')" if "i < header_length" "i < j" for j t'
    by (rule less.hyps) (use that less.prems in auto)
  show ?case
    by (subst tcp_parse_options.simps, intro no_ub_rules) (use less.prems step in auto)
qed

lemma tcp_parse_header_no_ub [no_ub_rules]: "no_ub (tcp_parse_header data t)"
  unfolding tcp_parse_header_def Let_def by (intro no_ub_rules) simp_all

lemma tcp_parse_header_bounds:
  "tcp_parse_header data t = Inr t1 \<Longrightarrow>
     20 \<le> unat (tcp_data_offset t1) * 4 \<and> unat (tcp_data_offset t1) * 4 \<le> length data"
  unfolding tcp_parse_header_def Let_def
  by (elim rbindE if_throwE InrE, hypsubst) (drule header_length_ok, simp (no_asm_simp))

lemma tcp_parse_no_ub:
  assumes "length (tcp_received_bytes t) < 2 ^ 64"
  shows "no_ub (tcp_parse t)"
  unfolding tcp_parse_def tcp_parse_payload_def Let_def
  by (intro no_ub_rules) (use assms in \<open>auto dest: tcp_parse_header_bounds\<close>)

section \<open>The window scale is clamped at the boundary\<close>

lemma tcp_parse_option_scale:
  "tcp_parse_option data i kind len t = Inr t' \<Longrightarrow> tcp_window_scale_option t \<le> MAX_WINDOW_SCALE \<Longrightarrow>
   tcp_window_scale_option t' \<le> MAX_WINDOW_SCALE"
  unfolding tcp_parse_option_def tcp_set_mss_option_def tcp_set_sack_permitted_option_def
    tcp_set_timestamp_option_def tcp_set_window_scale_option_def
  by (elim if_E rbindE InrE; hypsubst; simp (no_asm_simp) add: not_less)

lemma tcp_parse_options_inv:
  assumes step: "\<And>i kind len t t'. P t \<Longrightarrow> tcp_parse_option data i kind len t = Inr t' \<Longrightarrow> P t'"
  shows "P t \<Longrightarrow> tcp_parse_options data header_length i t = Inr t' \<Longrightarrow> P t'"
proof (induction "header_length - i" arbitrary: i t rule: less_induct)
  case less
  have IH: "P t'" if "i < header_length" "i < j" "P u" "tcp_parse_options data header_length j u = Inr t'" for j u
    by (rule less.hyps [OF _ that(3,4)]) (use that in auto)
  have skip: "P t'" if "i < header_length" "tcp_parse_options data header_length (Suc i) t = Inr t'"
    using IH [OF that(1) _ less.prems(1) that(2)] by simp
  have opt: "P t'" if "i < header_length" "\<not> (unat len < 2 \<or> header_length < i + unat len)" "P u"
      "tcp_parse_options data header_length (i + unat len) u = Inr t'" for len :: u8 and u
    by (rule IH [OF that(1) _ that(3,4)]) (use that(2) in simp)
  show ?case
  proof (cases "i < header_length")
    case True
    show ?thesis
      using less.prems(2) [unfolded tcp_parse_options.simps [of data header_length i t] if_P [OF True]]
    proof (elim rbindE if_E, goal_cases)
      case (5 kind len u)
      show ?case by (rule opt [OF True 5(6) step [OF less.prems(1) 5(7)] 5(8)])
    qed (use less.prems(1) skip [OF True] in auto)
  qed (use less.prems in \<open>simp add: tcp_parse_options.simps [of data header_length i t]\<close>)
qed

lemma tcp_parse_header_scale:
  "tcp_parse_header data t = Inr t1 \<Longrightarrow> tcp_window_scale_option t1 = tcp_window_scale_option t"
  unfolding tcp_parse_header_def Let_def by (elim rbindE if_throwE InrE, hypsubst) (simp (no_asm))

lemma tcp_parse_payload_scale:
  "tcp_parse_payload data h t = Inr t1 \<Longrightarrow> tcp_window_scale_option t1 = tcp_window_scale_option t"
  by (auto simp: tcp_parse_payload_def rbind_eq_Inr split: if_splits)

lemma tcp_blank_received: "tcp_received_bytes (tcp_blank bs) = bs"
  by (simp add: tcp_blank_def)

lemma tcp_blank_scale: "tcp_window_scale_option (tcp_blank bs) = 0"
  by (simp add: tcp_blank_def tcp_new_def)

lemma tcp_of_bytes_scale:
  assumes "tcp_of_bytes bs = Inr t"
  shows "tcp_window_scale_option t \<le> MAX_WINDOW_SCALE"
proof -
  obtain h t1 t2 where hdr: "tcp_parse_header bs (tcp_blank bs) = Inr t1"
    and opts: "tcp_parse_options bs h 20 t1 = Inr t2" and pay: "tcp_parse_payload bs h t2 = Inr t"
    using assms unfolding tcp_of_bytes_def tcp_parse_def Let_def tcp_blank_received by (elim rbindE) blast
  have "tcp_window_scale_option t1 \<le> MAX_WINDOW_SCALE"
    using tcp_parse_header_scale [OF hdr] by (simp add: tcp_blank_scale)
  then have "tcp_window_scale_option t2 \<le> MAX_WINDOW_SCALE"
    using tcp_parse_options_inv [of "\<lambda>t. tcp_window_scale_option t \<le> MAX_WINDOW_SCALE", OF _ _ opts]
      tcp_parse_option_scale by blast
  with tcp_parse_payload_scale [OF pay] show ?thesis by simp
qed


section \<open>What is written is what is read\<close>

text \<open>A run of option bytes whose effect on the segment being parsed is \<open>f\<close>.\<close>

definition option_run :: "bytes \<Rightarrow> nat \<Rightarrow> bytes \<Rightarrow> (tcp \<Rightarrow> tcp) \<Rightarrow> bool" where
  "option_run data h xs f \<longleftrightarrow>
     (\<forall>i r t. drop i data = xs @ r \<and> i + length xs \<le> h \<longrightarrow>
        tcp_parse_options data h i t = tcp_parse_options data h (i + length xs) (f t))"

lemma option_run_Nil: "option_run data h [] (\<lambda>t. t)"
  by (simp add: option_run_def)

lemma option_run_append:
  assumes "option_run data h xs f" "option_run data h ys g"
  shows "option_run data h (xs @ ys) (\<lambda>t. g (f t))"
  unfolding option_run_def
proof (intro allI impI, elim conjE)
  fix i r t
  assume d: "drop i data = (xs @ ys) @ r" and len: "i + length (xs @ ys) \<le> h"
  have "tcp_parse_options data h i t = tcp_parse_options data h (i + length xs) (f t)"
    using assms(1) d len unfolding option_run_def by simp
  also have "\<dots> = tcp_parse_options data h (i + length xs + length ys) (g (f t))"
    using assms(2) drop_append_step [of i data xs "ys @ r"] d len unfolding option_run_def by simp
  finally show "tcp_parse_options data h i t = tcp_parse_options data h (i + length (xs @ ys)) (g (f t))"
    by (simp add: add.assoc)
qed

lemma option_run_nop: "option_run data h [1] (\<lambda>t. t)"
  unfolding option_run_def
  by (intro allI impI, elim conjE, subst tcp_parse_options.simps) (simp add: byte_drop)

lemma option_run_nops: "option_run data h (replicate n 1) (\<lambda>t. t)"
proof (induction n)
  case (Suc n)
  from option_run_append [OF option_run_nop Suc] show ?case by simp
qed (simp add: option_run_Nil)

lemma option_run_tlv:
  assumes "kind \<noteq> 0" "kind \<noteq> 1" "unat len = length xs + 2"
    and "\<And>i r t. drop i data = kind # len # xs @ r \<Longrightarrow> tcp_parse_option data i kind (unat len) t = Inr (f t)"
  shows "option_run data h (kind # len # xs) f"
  unfolding option_run_def
proof (intro allI impI, elim conjE)
  fix i r t
  assume d: "drop i data = (kind # len # xs) @ r" and le: "i + length (kind # len # xs) \<le> h"
  have "byte_at data (i + 1) = Inr len"
    using drop_append_step [of i data "[kind]"] d by (intro byte_drop) simp
  moreover have "byte_at data i = Inr kind" using d by (intro byte_drop) simp
  ultimately show "tcp_parse_options data h i t = tcp_parse_options data h (i + length (kind # len # xs)) (f t)"
    using assms(1-3) assms(4) [of i r t] d le by (subst tcp_parse_options.simps) simp
qed

lemma option_run_mss: "option_run data h ([2, 4] @ int_to_bytes m) (tcp_set_mss_option m)"
proof -
  have "option_run data h (2 # 4 # int_to_bytes m) (tcp_set_mss_option m)"
  proof (rule option_run_tlv)
    fix i r t
    assume "drop i data = 2 # 4 # int_to_bytes m @ r"
    with drop_append_step [of i data "[2, 4]" "int_to_bytes m @ r"] slice_u16_drop
    show "tcp_parse_option data i 2 (unat (4 :: u8)) t = Inr (tcp_set_mss_option m t)"
      by (simp add: tcp_parse_option_def)
  qed simp_all
  then show ?thesis by simp
qed

lemma option_run_scale:
  assumes "w \<le> MAX_WINDOW_SCALE"
  shows "option_run data h [3, 3, w] (tcp_set_window_scale_option w)"
proof (rule option_run_tlv)
  fix i r t
  assume "drop i data = 3 # 3 # [w] @ r"
  with drop_append_step [of i data "[3, 3]" "w # r"] byte_drop [of "i + 2" data w] assms
  show "tcp_parse_option data i 3 (unat (3 :: u8)) t = Inr (tcp_set_window_scale_option w t)"
    by (simp add: tcp_parse_option_def)
qed simp_all

lemma option_run_sack_permitted: "option_run data h [4, 2] tcp_set_sack_permitted_option"
  by (rule option_run_tlv) (simp_all add: tcp_parse_option_def)

lemma option_run_timestamp:
  "option_run data h ([8, 10] @ int_to_bytes v @ int_to_bytes e) (tcp_set_timestamp_option v e)"
proof -
  have "option_run data h (8 # 10 # int_to_bytes v @ int_to_bytes e) (tcp_set_timestamp_option v e)"
  proof (rule option_run_tlv)
    fix i r t
    assume d: "drop i data = 8 # 10 # (int_to_bytes v @ int_to_bytes e) @ r"
    have v: "drop (i + 2) data = int_to_bytes v @ int_to_bytes e @ r"
      using drop_append_step [of i data "[8, 10]" "int_to_bytes v @ int_to_bytes e @ r"] d by simp
    have e: "drop (i + 6) data = int_to_bytes e @ r"
      by (rule drop_append_at [OF v]) simp
    from slice_u32_drop [OF v] slice_u32_drop [OF e]
    show "tcp_parse_option data i 8 (unat (10 :: u8)) t = Inr (tcp_set_timestamp_option v e t)"
      by (simp add: tcp_parse_option_def)
  qed simp_all
  then show ?thesis by simp
qed


lemma tcp_parse_sack_run:
  "drop i data = concat (map (\<lambda>b. int_to_bytes (sb_start b) @ int_to_bytes (sb_end b)) blocks) @ r \<Longrightarrow>
   tcp_parse_sack data i (length blocks) = Inr blocks"
proof (induction blocks arbitrary: i)
  case (Cons b blocks)
  let ?rest = "concat (map (\<lambda>b. int_to_bytes (sb_start b) @ int_to_bytes (sb_end b)) blocks) @ r"
  have s': "drop i data = int_to_bytes (sb_start b) @ int_to_bytes (sb_end b) @ ?rest"
    using Cons.prems by simp
  have s: "slice_int data i = Inr (sb_start b)" by (rule slice_u32_drop [OF s'])
  have e': "drop (i + 4) data = int_to_bytes (sb_end b) @ ?rest"
    by (rule drop_append_at [OF s']) simp
  have e: "slice_int data (i + 4) = Inr (sb_end b)" by (rule slice_u32_drop [OF e'])
  have "drop (i + 8) data = ?rest" by (rule drop_append_at [OF e']) simp
  from Cons.IH [OF this] s e show ?case by simp
qed simp

lemma option_run_sack:
  assumes "blocks \<noteq> []" "length blocks \<le> 31"
  shows "option_run data h ([5, of_nat (2 + length blocks * 8)]
           @ concat (map (\<lambda>b. int_to_bytes (sb_start b) @ int_to_bytes (sb_end b)) blocks))
         (\<lambda>t. t\<lparr>tcp_sack_blocks := tcp_sack_blocks t @ blocks\<rparr>)"
proof -
  let ?body = "concat (map (\<lambda>b. int_to_bytes (sb_start b) @ int_to_bytes (sb_end b)) blocks)"
  let ?len = "of_nat (2 + length blocks * 8) :: u8"
  have len: "unat ?len = 2 + length blocks * 8"
    using assms(2) by (intro unat_of_nat_u8) simp
  have body: "length ?body = length blocks * 8" by (induction blocks) simp_all
  have "option_run data h (5 # ?len # ?body) (\<lambda>t. t\<lparr>tcp_sack_blocks := tcp_sack_blocks t @ blocks\<rparr>)"
  proof (rule option_run_tlv)
    fix i r t
    assume "drop i data = 5 # ?len # ?body @ r"
    then have "drop (i + 2) data = ?body @ r"
      using drop_append_step [of i data "[5, ?len]" "?body @ r"] by simp
    from tcp_parse_sack_run [OF this] assms(1) len
    show "tcp_parse_option data i 5 (unat ?len) t = Inr (t\<lparr>tcp_sack_blocks := tcp_sack_blocks t @ blocks\<rparr>)"
      by (cases blocks) (simp_all add: tcp_parse_option_def)
  qed (simp_all only: len body, simp_all)
  then show ?thesis by simp
qed


definition sack_bytes :: "sack_block list \<Rightarrow> bytes" where
  "sack_bytes blocks = concat (map (\<lambda>b. int_to_bytes (sb_start b) @ int_to_bytes (sb_end b)) blocks)"

lemma option_run_if: "option_run data h xs f \<Longrightarrow> option_run data h (if c then xs else []) (\<lambda>t. if c then f t else t)"
  by (simp add: option_run_def)

lemma foldl_sack_bytes:
  "foldl (\<lambda>o' block. append_int (append_int o' (sb_start block)) (sb_end block)) acc blocks = acc @ sack_bytes blocks"
  by (induction blocks arbitrary: acc) (simp_all add: append_int_eq sack_bytes_def)

lemma nop_padding_eq:
  "\<exists>k. nop_padding xs = xs @ replicate k 1 \<and> length (nop_padding xs) mod 4 = 0"
proof (induction xs rule: nop_padding.induct)
  case (1 options)
  show ?case
  proof (cases "length options mod 4 = 0")
    case True
    then have "nop_padding options = options @ replicate 0 1" by (subst nop_padding.simps) simp
    with True show ?thesis by (intro exI [of _ 0]) simp
  next
    case False
    then have step: "nop_padding options = nop_padding (append_int options (1 :: u8))"
      by (subst nop_padding.simps) simp
    from 1 [OF False] obtain k where
      k: "nop_padding (append_int options (1 :: u8)) = append_int options (1 :: u8) @ replicate k 1"
      and m: "length (nop_padding (append_int options (1 :: u8))) mod 4 = 0" by (elim exE conjE)
    have "nop_padding options = options @ replicate (Suc k) 1"
      unfolding step k by (simp add: append_int_eq)
    moreover have "length (nop_padding options) mod 4 = 0" unfolding step by (rule m)
    ultimately show ?thesis by (intro exI [of _ "Suc k"] conjI)
  qed
qed

definition tcp_option_parts :: "tcp \<Rightarrow> bytes" where
  "tcp_option_parts t =
     (if tcp_has_mss_option t then [2, 4] @ int_to_bytes (tcp_mss_option t) else [])
     @ (if tcp_has_window_scale_option t then [3, 3, tcp_window_scale_option t] else [])
     @ (if tcp_has_sack_permitted_option t then [4, 2] else [])
     @ (if tcp_sack_blocks t \<noteq> []
        then [1] @ [1] @ [5, of_nat (2 + length (tcp_sack_blocks t) * 8)] @ sack_bytes (tcp_sack_blocks t) else [])
     @ (if tcp_has_timestamp_option t
        then [1] @ [1] @ [8, 10] @ int_to_bytes (tcp_timestamp_value t) @ int_to_bytes (tcp_timestamp_echo t) else [])"

lemma tcp_options_image: "tcp_options_to_bytes t = nop_padding (tcp_option_parts t)"
  unfolding tcp_options_to_bytes_def tcp_option_parts_def Let_def foldl_sack_bytes
  by (rule arg_cong [of _ _ nop_padding]) (simp add: append_int_eq)

definition tcp_apply_options :: "tcp \<Rightarrow> tcp \<Rightarrow> tcp" where
  "tcp_apply_options o' t =
     (let t = (if tcp_has_mss_option o' then tcp_set_mss_option (tcp_mss_option o') t else t);
          t = (if tcp_has_window_scale_option o' then tcp_set_window_scale_option (tcp_window_scale_option o') t else t);
          t = (if tcp_has_sack_permitted_option o' then tcp_set_sack_permitted_option t else t);
          t = (if tcp_sack_blocks o' \<noteq> [] then t\<lparr>tcp_sack_blocks := tcp_sack_blocks t @ tcp_sack_blocks o'\<rparr> else t)
      in if tcp_has_timestamp_option o' then tcp_set_timestamp_option (tcp_timestamp_value o') (tcp_timestamp_echo o') t
         else t)"

lemma sack_bytes_length [simp]: "length (sack_bytes blocks) = length blocks * 8"
  by (induction blocks) (simp_all add: sack_bytes_def)

lemma option_run_parts:
  assumes "tcp_has_window_scale_option o' \<longrightarrow> tcp_window_scale_option o' \<le> MAX_WINDOW_SCALE" "length (tcp_sack_blocks o') \<le> 31"
  shows "option_run data h (tcp_option_parts o') (tcp_apply_options o')"
proof -
  note sack = option_run_append [OF option_run_nop option_run_append [OF option_run_nop
    option_run_sack [OF _ assms(2), folded sack_bytes_def]]]
  note ts = option_run_append [OF option_run_nop option_run_append [OF option_run_nop option_run_timestamp]]
  have sack': "option_run data h (if tcp_sack_blocks o' \<noteq> []
        then [1] @ [1] @ [5, of_nat (2 + length (tcp_sack_blocks o') * 8)] @ sack_bytes (tcp_sack_blocks o') else [])
     (\<lambda>t. if tcp_sack_blocks o' \<noteq> [] then t\<lparr>tcp_sack_blocks := tcp_sack_blocks t @ tcp_sack_blocks o'\<rparr> else t)"
    using sack option_run_Nil by simp
  have scale': "option_run data h (if tcp_has_window_scale_option o' then [3, 3, tcp_window_scale_option o'] else [])
     (\<lambda>t. if tcp_has_window_scale_option o' then tcp_set_window_scale_option (tcp_window_scale_option o') t else t)"
    using assms(1) option_run_scale option_run_Nil by simp
  show ?thesis
    unfolding tcp_option_parts_def tcp_apply_options_def Let_def
    by (intro option_run_append option_run_if option_run_mss scale' option_run_sack_permitted
          sack' ts)
qed


lemma tcp_flags_byte_bits:
  "tcp_flags_byte t AND 0x80 \<noteq> 0 \<longleftrightarrow> tcp_cwr t" "tcp_flags_byte t AND 0x40 \<noteq> 0 \<longleftrightarrow> tcp_ece t"
  "tcp_flags_byte t AND 0x20 \<noteq> 0 \<longleftrightarrow> tcp_urg t" "tcp_flags_byte t AND 0x10 \<noteq> 0 \<longleftrightarrow> tcp_ack t"
  "tcp_flags_byte t AND 0x08 \<noteq> 0 \<longleftrightarrow> tcp_psh t" "tcp_flags_byte t AND 0x04 \<noteq> 0 \<longleftrightarrow> tcp_rst t"
  "tcp_flags_byte t AND 0x02 \<noteq> 0 \<longleftrightarrow> tcp_syn t" "tcp_flags_byte t AND 0x01 \<noteq> 0 \<longleftrightarrow> tcp_fin t"
proof -
  have bits: "tcp_flags_byte t AND 2 ^ n \<noteq> 0 \<longleftrightarrow> bit (tcp_flags_byte t) n" for n
    by (simp add: and_exp_eq_0_iff_not_bit)
  note rules = tcp_flags_byte_def bit_simps
  show "tcp_flags_byte t AND 0x80 \<noteq> 0 \<longleftrightarrow> tcp_cwr t" using bits [of 7] by (simp add: rules)
  show "tcp_flags_byte t AND 0x40 \<noteq> 0 \<longleftrightarrow> tcp_ece t" using bits [of 6] by (simp add: rules)
  show "tcp_flags_byte t AND 0x20 \<noteq> 0 \<longleftrightarrow> tcp_urg t" using bits [of 5] by (simp add: rules)
  show "tcp_flags_byte t AND 0x10 \<noteq> 0 \<longleftrightarrow> tcp_ack t" using bits [of 4] by (simp add: rules)
  show "tcp_flags_byte t AND 0x08 \<noteq> 0 \<longleftrightarrow> tcp_psh t" using bits [of 3] by (simp add: rules)
  show "tcp_flags_byte t AND 0x04 \<noteq> 0 \<longleftrightarrow> tcp_rst t" using bits [of 2] by (simp add: rules)
  show "tcp_flags_byte t AND 0x02 \<noteq> 0 \<longleftrightarrow> tcp_syn t" using bits [of 1] by (simp add: rules)
  show "tcp_flags_byte t AND 0x01 \<noteq> 0 \<longleftrightarrow> tcp_fin t" using bits [of 0] by (simp add: rules)
qed


lemma tcp_parse_header_image:
  assumes data: "data = int_to_bytes sp @ int_to_bytes dp @ int_to_bytes sq @ int_to_bytes an
      @ [push_bit 4 off, flags] @ int_to_bytes win @ int_to_bytes csum @ int_to_bytes up @ rest"
    and off: "5 \<le> off" "off < 16" "unat off * 4 \<le> length data"
  shows "tcp_parse_header data t = Inr (t\<lparr>tcp_src_port := sp, tcp_dest_port := dp,
               tcp_sequence_number := sq, tcp_acknowledgement_number := an,
               tcp_data_offset := off,
               tcp_cwr := flags AND 0x80 \<noteq> 0, tcp_ece := flags AND 0x40 \<noteq> 0,
               tcp_urg := flags AND 0x20 \<noteq> 0, tcp_ack := flags AND 0x10 \<noteq> 0,
               tcp_psh := flags AND 0x08 \<noteq> 0, tcp_rst := flags AND 0x04 \<noteq> 0,
               tcp_syn := flags AND 0x02 \<noteq> 0, tcp_fin := flags AND 0x01 \<noteq> 0,
               tcp_window := win, tcp_checksum := csum, tcp_urgent_ptr := up,
               tcp_has_mss_option := False, tcp_has_window_scale_option := False\<rparr>)"
proof -
  have d0: "drop 0 data = int_to_bytes sp @ int_to_bytes dp @ int_to_bytes sq @ int_to_bytes an
      @ [push_bit 4 off, flags] @ int_to_bytes win @ int_to_bytes csum @ int_to_bytes up @ rest"
    using data by simp
  have d2: "drop 2 data = int_to_bytes dp @ int_to_bytes sq @ int_to_bytes an
      @ [push_bit 4 off, flags] @ int_to_bytes win @ int_to_bytes csum @ int_to_bytes up @ rest"
    by (rule drop_append_at [OF d0]) simp
  have d4: "drop 4 data = int_to_bytes sq @ int_to_bytes an
      @ [push_bit 4 off, flags] @ int_to_bytes win @ int_to_bytes csum @ int_to_bytes up @ rest"
    by (rule drop_append_at [OF d2]) simp
  have d8: "drop 8 data = int_to_bytes an
      @ [push_bit 4 off, flags] @ int_to_bytes win @ int_to_bytes csum @ int_to_bytes up @ rest"
    by (rule drop_append_at [OF d4]) simp
  have d12: "drop 12 data = [push_bit 4 off, flags] @ int_to_bytes win @ int_to_bytes csum @ int_to_bytes up @ rest"
    by (rule drop_append_at [OF d8]) simp
  have d13: "drop 13 data = flags # int_to_bytes win @ int_to_bytes csum @ int_to_bytes up @ rest"
    by (rule drop_append_at [of 12 _ "[push_bit 4 off]"]) (simp_all add: d12)
  have d14: "drop 14 data = int_to_bytes win @ int_to_bytes csum @ int_to_bytes up @ rest"
    by (rule drop_append_at [OF d12]) simp
  have d16: "drop 16 data = int_to_bytes csum @ int_to_bytes up @ rest"
    by (rule drop_append_at [OF d14]) simp
  have d18: "drop 18 data = int_to_bytes up @ rest"
    by (rule drop_append_at [OF d16]) simp
  have b12: "byte_at data 12 = Inr (push_bit 4 off)" by (rule byte_drop) (simp add: d12)
  have off': "drop_bit 4 (push_bit 4 off) = off"
  proof (rule bit_word_eqI)
    fix n assume "n < LENGTH(8)"
    have "\<not> bit off n" if "4 \<le> n"
    proof -
      have "drop_bit 4 off = 0" using off(2) by (simp add: drop_bit_eq_div word_less_nat_alt word_arith_nat_div)
      then have "\<not> bit (drop_bit 4 off) (n - 4)" by simp
      with that show ?thesis by (simp add: bit_simps)
    qed
    with \<open>n < LENGTH(8)\<close> show "bit (drop_bit 4 (push_bit 4 off)) n = bit off n"
      by (cases "4 \<le> n") (auto simp: bit_simps)
  qed
  have g: "\<not> length data < 20" using data by simp
  have g': "\<not> (off < 5 \<or> length data < unat off * 4)" using off by simp
  show ?thesis
    unfolding tcp_parse_header_def Let_def if_not_P [OF g]
      slice_u16_drop [OF d0] slice_u16_drop [OF d2] slice_u32_drop [OF d4] slice_u32_drop [OF d8]
      b12 byte_drop [OF d13] slice_u16_drop [OF d14] slice_u16_drop [OF d16] slice_u16_drop [OF d18]
      rbind_simps off' if_not_P [OF g'] ..
qed


text \<open>
  A segment as it comes back from the wire: absent options read as zero, an empty payload as none.
\<close>

definition tcp_on_wire :: "tcp \<Rightarrow> tcp" where
  "tcp_on_wire t =
     (tcp_recompute_data_offset t)\<lparr>
        tcp_mss_option := (if tcp_has_mss_option t then tcp_mss_option t else 0),
        tcp_window_scale_option := (if tcp_has_window_scale_option t then tcp_window_scale_option t else 0),
        tcp_timestamp_value := (if tcp_has_timestamp_option t then tcp_timestamp_value t else 0),
        tcp_timestamp_echo := (if tcp_has_timestamp_option t then tcp_timestamp_echo t else 0),
        tcp_received_bytes := tcp_to_bytes t,
        tcp_next_layer := (if tcp_next_layer t = Some [] then None else tcp_next_layer t)\<rparr>"

text \<open>What fits the header: the 4-bit data offset leaves 40 bytes of options.\<close>

definition tcp_writable :: "tcp \<Rightarrow> bool" where
  "tcp_writable t \<longleftrightarrow>
     length (tcp_options_to_bytes t) \<le> 40 \<and>
     (tcp_has_window_scale_option t \<longrightarrow> tcp_window_scale_option t \<le> MAX_WINDOW_SCALE) \<and>
     length (tcp_to_bytes t) < 2 ^ 64"

lemma tcp_image:
  "tcp_to_bytes t = int_to_bytes (tcp_src_port t) @ int_to_bytes (tcp_dest_port t)
     @ int_to_bytes (tcp_sequence_number t) @ int_to_bytes (tcp_acknowledgement_number t)
     @ [push_bit 4 (of_nat (5 + length (tcp_options_to_bytes t) div 4)), tcp_flags_byte t]
     @ int_to_bytes (tcp_window t) @ int_to_bytes (tcp_checksum t) @ int_to_bytes (tcp_urgent_ptr t)
     @ tcp_options_to_bytes t @ (case tcp_next_layer t of None \<Rightarrow> [] | Some raw \<Rightarrow> raw)"
  by (cases "tcp_next_layer t")
     (simp_all add: tcp_to_bytes_def append_int_eq tcp_recompute_data_offset_def Let_def tcp_flags_byte_def)


lemma tcp_options_length4: "length (tcp_options_to_bytes t) mod 4 = 0"
  using nop_padding_eq by (auto simp: tcp_options_image)

lemma tcp_options_run:
  assumes "length (tcp_options_to_bytes t) \<le> 40"
    "tcp_has_window_scale_option t \<longrightarrow> tcp_window_scale_option t \<le> MAX_WINDOW_SCALE"
  shows "option_run data h (tcp_options_to_bytes t) (tcp_apply_options t)"
proof -
  obtain k where k: "tcp_options_to_bytes t = tcp_option_parts t @ replicate k 1"
    using nop_padding_eq [of "tcp_option_parts t"] by (auto simp: tcp_options_image)
  have "length (tcp_sack_blocks t) * 8 \<le> length (tcp_option_parts t)"
    by (simp add: tcp_option_parts_def)
  then have "length (tcp_sack_blocks t) \<le> 31" using assms(1) k by simp
  from option_run_append [OF option_run_parts [OF assms(2) this] option_run_nops]
  show ?thesis unfolding k .
qed

lemma tcp_header_options_applied:
  "(tcp_apply_options t ((tcp_blank bs)\<lparr>tcp_src_port := tcp_src_port t, tcp_dest_port := tcp_dest_port t,
               tcp_sequence_number := tcp_sequence_number t, tcp_acknowledgement_number := tcp_acknowledgement_number t,
               tcp_data_offset := d,
               tcp_cwr := tcp_cwr t, tcp_ece := tcp_ece t, tcp_urg := tcp_urg t, tcp_ack := tcp_ack t,
               tcp_psh := tcp_psh t, tcp_rst := tcp_rst t, tcp_syn := tcp_syn t, tcp_fin := tcp_fin t,
               tcp_window := tcp_window t, tcp_checksum := tcp_checksum t, tcp_urgent_ptr := tcp_urgent_ptr t,
               tcp_has_mss_option := False, tcp_has_window_scale_option := False\<rparr>))
     = t\<lparr>tcp_data_offset := d,
        tcp_mss_option := (if tcp_has_mss_option t then tcp_mss_option t else 0),
        tcp_window_scale_option := (if tcp_has_window_scale_option t then tcp_window_scale_option t else 0),
        tcp_timestamp_value := (if tcp_has_timestamp_option t then tcp_timestamp_value t else 0),
        tcp_timestamp_echo := (if tcp_has_timestamp_option t then tcp_timestamp_echo t else 0),
        tcp_received_bytes := bs,
        tcp_next_layer := None\<rparr>"
  by (rule tcp.equality)
     (simp_all add: tcp_apply_options_def tcp_blank_def tcp_new_def Let_def tcp_set_mss_option_def
        tcp_set_window_scale_option_def tcp_set_sack_permitted_option_def tcp_set_timestamp_option_def)

abbreviation tcp_payload :: "tcp \<Rightarrow> bytes" where
  "tcp_payload t \<equiv> (case tcp_next_layer t of None \<Rightarrow> [] | Some raw \<Rightarrow> raw)"

abbreviation tcp_written_offset :: "tcp \<Rightarrow> u8" where
  "tcp_written_offset t \<equiv> of_nat (5 + length (tcp_options_to_bytes t) div 4)"

lemma tcp_written_offset_facts:
  assumes "length (tcp_options_to_bytes t) \<le> 40"
  shows "unat (tcp_written_offset t) * 4 = 20 + length (tcp_options_to_bytes t)"
    and "5 \<le> tcp_written_offset t" "tcp_written_offset t < 16"
proof -
  have un: "unat (tcp_written_offset t) = 5 + length (tcp_options_to_bytes t) div 4"
    by (rule unat_of_nat_u8) (use assms in simp)
  show "unat (tcp_written_offset t) * 4 = 20 + length (tcp_options_to_bytes t)"
    unfolding un using tcp_options_length4 [of t] by auto
  show "5 \<le> tcp_written_offset t" "tcp_written_offset t < 16"
    unfolding word_le_nat_alt word_less_nat_alt un using assms by simp_all
qed

lemma tcp_to_bytes_length: "length (tcp_to_bytes t) = 20 + length (tcp_options_to_bytes t) + length (tcp_payload t)"
  by (subst tcp_image) simp

lemma tcp_to_bytes_drop: "drop 20 (tcp_to_bytes t) = tcp_options_to_bytes t @ tcp_payload t"
  by (subst tcp_image) simp

lemma tcp_parse_payload_written:
  assumes "length (tcp_to_bytes t) < 2 ^ 64" "tcp_next_layer t1 = None"
  shows "tcp_parse_payload (tcp_to_bytes t) (20 + length (tcp_options_to_bytes t)) t1
      = Inr (t1\<lparr>tcp_next_layer := (if tcp_next_layer t = Some [] then None else tcp_next_layer t)\<rparr>)"
proof (cases "tcp_payload t = []")
  case True
  then have "(if tcp_next_layer t = Some [] then None else tcp_next_layer t) = None"
    by (cases "tcp_next_layer t") auto
  with True assms(2) show ?thesis
    unfolding tcp_parse_payload_def tcp_to_bytes_length by simp
next
  case False
  then have nl: "(if tcp_next_layer t = Some [] then None else tcp_next_layer t) = Some (tcp_payload t)"
    by (cases "tcp_next_layer t") auto
  have "drop (20 + length (tcp_options_to_bytes t)) (tcp_to_bytes t) = tcp_payload t"
    by (rule drop_append_at [OF tcp_to_bytes_drop]) simp
  with slice_from_ok [OF _ assms(1), of "20 + length (tcp_options_to_bytes t)"]
  have "slice_from (tcp_to_bytes t) (20 + length (tcp_options_to_bytes t)) = Inr (tcp_payload t)"
    by (simp add: tcp_to_bytes_length)
  with False show ?thesis unfolding nl tcp_parse_payload_def tcp_to_bytes_length by simp
qed

lemma tcp_roundtrip:
  assumes "tcp_writable t"
  shows "tcp_of_bytes (tcp_to_bytes t) = Inr (tcp_on_wire t)"
proof -
  let ?bs = "tcp_to_bytes t" and ?opts = "tcp_options_to_bytes t"
  have len: "length ?opts \<le> 40" and sz: "length ?bs < 2 ^ 64"
    and ws: "tcp_has_window_scale_option t \<longrightarrow> tcp_window_scale_option t \<le> MAX_WINDOW_SCALE"
    using assms by (auto simp: tcp_writable_def)
  note off = tcp_written_offset_facts [OF len]
  have fits: "unat (tcp_written_offset t) * 4 \<le> length ?bs" unfolding off tcp_to_bytes_length by simp
  define t1 where "t1 = (tcp_blank ?bs)\<lparr>tcp_src_port := tcp_src_port t, tcp_dest_port := tcp_dest_port t,
               tcp_sequence_number := tcp_sequence_number t, tcp_acknowledgement_number := tcp_acknowledgement_number t,
               tcp_data_offset := tcp_written_offset t,
               tcp_cwr := tcp_cwr t, tcp_ece := tcp_ece t, tcp_urg := tcp_urg t, tcp_ack := tcp_ack t,
               tcp_psh := tcp_psh t, tcp_rst := tcp_rst t, tcp_syn := tcp_syn t, tcp_fin := tcp_fin t,
               tcp_window := tcp_window t, tcp_checksum := tcp_checksum t, tcp_urgent_ptr := tcp_urgent_ptr t,
               tcp_has_mss_option := False, tcp_has_window_scale_option := False\<rparr>"
  have hdr: "tcp_parse_header ?bs (tcp_blank ?bs) = Inr t1"
    using tcp_parse_header_image [OF tcp_image off(2,3) fits, of "tcp_blank ?bs"]
    unfolding tcp_flags_byte_bits t1_def .
  have off1: "tcp_data_offset t1 = tcp_written_offset t" by (simp add: t1_def)
  have "tcp_parse_options ?bs (20 + length ?opts) 20 t1
      = tcp_parse_options ?bs (20 + length ?opts) (20 + length ?opts) (tcp_apply_options t t1)"
    using tcp_options_run [OF len ws, unfolded option_run_def] tcp_to_bytes_drop by blast
  also have "\<dots> = Inr (tcp_apply_options t t1)" by (subst tcp_parse_options.simps) simp
  finally have opts: "tcp_parse_options ?bs (unat (tcp_data_offset t1) * 4) 20 t1 = Inr (tcp_apply_options t t1)"
    unfolding off1 off .
  have pay: "tcp_parse_payload ?bs (20 + length ?opts) (tcp_apply_options t t1) = Inr (tcp_on_wire t)"
    by (subst tcp_parse_payload_written [OF sz])
       (simp_all add: t1_def tcp_header_options_applied tcp_on_wire_def tcp_recompute_data_offset_def)
  show ?thesis
    unfolding tcp_of_bytes_def tcp_parse_def Let_def tcp_blank_received hdr rbind_simps opts
    using pay by (simp only: off1 off)
qed


section \<open>Properties of the TCP codec\<close>

text \<open>C20. A segment that fits its header is read back as it was written: every field, every option
  and the payload, with options that are absent reading as zero.\<close>

theorem tcp_segment_roundtrip:
  assumes "tcp_writable t"
  shows "tcp_of_bytes (tcp_to_bytes t) = Inr (tcp_on_wire t)"
  using assms by (rule tcp_roundtrip)

theorem tcp_segment_roundtrip_witness:
  "tcp_of_bytes (tcp_to_bytes (tcp_set_mss_option 1460 (tcp_set_sack_permitted_option (tcp_new 80 4000 1 2 5 0x12 512 0 0))))
   = Inr (tcp_on_wire (tcp_set_mss_option 1460 (tcp_set_sack_permitted_option (tcp_new 80 4000 1 2 5 0x12 512 0 0))))"
proof (rule tcp_segment_roundtrip)
  let ?t = "tcp_set_mss_option 1460 (tcp_set_sack_permitted_option (tcp_new 80 4000 1 2 5 0x12 512 0 0))"
  have "tcp_options_to_bytes ?t = [2, 4, 5, 180, 4, 2, 1, 1]"
    by (simp add: tcp_options_image tcp_option_parts_def tcp_set_mss_option_def tcp_set_sack_permitted_option_def
        tcp_new_def nop_padding.simps append_int_eq)
  then show "tcp_writable ?t"
    by (simp add: tcp_writable_def tcp_to_bytes_length)
       (simp add: tcp_set_mss_option_def tcp_set_sack_permitted_option_def tcp_new_def)
qed

end
