(* ===== verification/Congestion_Control.thy ===== *)
theory Congestion_Control
  imports Stack_Prelude Complex_Main
begin

text \<open>
  Congestion control (\<open>congestion_control.cpp\<close>): the shared slow-start and recovery machinery, Reno
  and CUBIC. The \<open>uint32_t\<close> windows are words, so every sum and product wraps as in the code. CUBIC
  computes in \<open>double\<close>: a value is a real number and each operation rounds its exact result to the
  nearest 53-bit significand, ties to even (the IEEE 754 rule); exponent range and NaN play no role
  at these magnitudes. \<open>std::cbrt\<close> is taken as correctly rounded. The virtual dispatch of
  \<open>CongestionControl\<close> is a case on the algorithm stored with the state.
\<close>

section \<open>Double precision\<close>

definition round_even :: "real \<Rightarrow> int" where
  "round_even y =
     (let f = \<lfloor>y\<rfloor> in
      if y - of_int f < 1 / 2 then f
      else if y - of_int f > 1 / 2 then f + 1
      else if even f then f else f + 1)"

definition double_round :: "real \<Rightarrow> real" where
  "double_round x =
     (if x = 0 then 0
      else let e = 2 powr of_int (\<lfloor>log 2 \<bar>x\<bar>\<rfloor> - 52) in of_int (round_even (x / e)) * e)"

definition dadd :: "real \<Rightarrow> real \<Rightarrow> real" where "dadd a b = double_round (a + b)"
definition dsub :: "real \<Rightarrow> real \<Rightarrow> real" where "dsub a b = double_round (a - b)"
definition dmul :: "real \<Rightarrow> real \<Rightarrow> real" where "dmul a b = double_round (a * b)"
definition ddiv :: "real \<Rightarrow> real \<Rightarrow> real" where "ddiv a b = double_round (a / b)"

text \<open>\<open>static_cast<uint32_t>\<close> truncates; \<open>static_cast<double>\<close> of a 32-bit value is exact.\<close>

definition to_uint32 :: "real \<Rightarrow> u32" where "to_uint32 x = word_of_int \<lfloor>x\<rfloor>"
definition of_uint32 :: "u32 \<Rightarrow> real" where "of_uint32 w = of_nat (unat w)"
definition of_uint64 :: "u64 \<Rightarrow> real" where "of_uint64 w = double_round (of_nat (unat w))"

section \<open>State\<close>

record cubic =
  cu_w_max :: real
  cu_w_last_max :: real
  cu_k :: real
  cu_w_est :: real
  cu_epoch_start_ms :: u64
  cu_epoch_running :: bool

datatype cc_algo = Reno | Cubic cubic

record congestion =
  cc_cwnd :: u32
  cc_ssthresh :: u32
  cc_mss :: u32
  cc_algo :: cc_algo

definition INITIAL_SSTHRESH :: u32 where "INITIAL_SSTHRESH = 65536"
definition MAX_CWND :: u32 where "MAX_CWND = 2 ^ 30"
definition CUBIC_C :: real where "CUBIC_C = double_round (4 / 10)"
definition CUBIC_BETA :: real where "CUBIC_BETA = double_round (7 / 10)"

definition cubic_zero :: cubic where
  "cubic_zero = \<lparr>cu_w_max = 0, cu_w_last_max = 0, cu_k = 0, cu_w_est = 0, cu_epoch_start_ms = 0,
     cu_epoch_running = False\<rparr>"

datatype cc_name = RENO | CUBIC

definition make_congestion_control :: "cc_name \<Rightarrow> congestion" where
  "make_congestion_control algorithm =
     \<lparr>cc_cwnd = 0, cc_ssthresh = 0, cc_mss = 0,
      cc_algo = (case algorithm of RENO \<Rightarrow> Reno | CUBIC \<Rightarrow> Cubic cubic_zero)\<rparr>"

definition window_in_segments :: "congestion \<Rightarrow> real" where
  "window_in_segments c =
     (let segments = ddiv (of_uint32 (cc_cwnd c)) (of_uint32 (cc_mss c))
      in if segments < 1 then 1 else segments)"

section \<open>Reno\<close>

definition reno_on_congestion_event :: "u32 \<Rightarrow> congestion \<Rightarrow> congestion" where
  "reno_on_congestion_event bytes_in_flight c = c\<lparr>cc_ssthresh := max (bytes_in_flight div 2) (2 * cc_mss c)\<rparr>"

definition reno_grow :: "u32 \<Rightarrow> congestion \<Rightarrow> congestion" where
  "reno_grow bytes_acked c = c\<lparr>cc_cwnd := cc_cwnd c + max 1 ((cc_mss c * bytes_acked) div cc_cwnd c)\<rparr>"

section \<open>CUBIC\<close>

definition cubic_on_congestion_event :: "cubic \<Rightarrow> congestion \<Rightarrow> congestion" where
  "cubic_on_congestion_event u c =
     (let u = u\<lparr>cu_epoch_running := False\<rparr>;
          cwnd_segments = window_in_segments c;
          u = (if cwnd_segments < cu_w_last_max u
               then u\<lparr>cu_w_last_max := cwnd_segments,
                      cu_w_max := ddiv (dmul cwnd_segments (dadd 1 CUBIC_BETA)) 2\<rparr>
               else u\<lparr>cu_w_last_max := cwnd_segments, cu_w_max := cwnd_segments\<rparr>);
          reduced = to_uint32 (dmul (dmul cwnd_segments CUBIC_BETA) (of_uint32 (cc_mss c)))
      in c\<lparr>cc_ssthresh := max reduced (2 * cc_mss c), cc_algo := Cubic u\<rparr>)"

definition cubic_start_epoch :: "real \<Rightarrow> u64 \<Rightarrow> cubic \<Rightarrow> cubic" where
  "cubic_start_epoch cwnd_segments now_ms u =
     (if cu_epoch_running u then u
      else
        let u = u\<lparr>cu_epoch_running := True, cu_epoch_start_ms := now_ms, cu_w_est := cwnd_segments\<rparr> in
        if cwnd_segments < cu_w_max u
        then u\<lparr>cu_k := double_round (root 3 (ddiv (dsub (cu_w_max u) cwnd_segments) CUBIC_C))\<rparr>
        else u\<lparr>cu_k := 0, cu_w_max := cwnd_segments\<rparr>)"

definition cubic_target :: "u32 \<Rightarrow> u64 \<Rightarrow> cubic \<Rightarrow> real" where
  "cubic_target srtt_ms now_ms u =
     (let t = ddiv (of_uint64 (now_ms - cu_epoch_start_ms u)) 1000;
          rtt = ddiv (of_uint32 srtt_ms) 1000;
          offset = dsub (dadd t rtt) (cu_k u)
      in dadd (cu_w_max u) (dmul (dmul (dmul CUBIC_C offset) offset) offset))"

definition cubic_grow :: "cubic \<Rightarrow> u32 \<Rightarrow> u32 \<Rightarrow> u64 \<Rightarrow> congestion \<Rightarrow> congestion" where
  "cubic_grow u bytes_acked srtt_ms now_ms c =
     (let cwnd_segments = window_in_segments c;
          u = cubic_start_epoch cwnd_segments now_ms u;
          target = cubic_target srtt_ms now_ms u;
          u = u\<lparr>cu_w_est := dadd (cu_w_est u)
                 (ddiv (dmul (ddiv (dmul 3 (dsub 1 CUBIC_BETA)) (dadd 1 CUBIC_BETA))
                          (ddiv (of_uint32 bytes_acked) (of_uint32 (cc_mss c))))
                    cwnd_segments)\<rparr>;
          target = max target (cu_w_est u);
          growth_segments =
            (if target > cwnd_segments then ddiv (dsub target cwnd_segments) cwnd_segments
             else ddiv (double_round (1 / 100)) cwnd_segments);
          growth_bytes = min (dmul growth_segments (of_uint32 (cc_mss c))) (of_uint32 (cc_cwnd c))
      in c\<lparr>cc_cwnd := cc_cwnd c + max 1 (to_uint32 growth_bytes), cc_algo := Cubic u\<rparr>)"

section \<open>The shared machinery\<close>

text \<open>
  The base class is a template: its operations are fixed, and call the two virtual methods of the
  algorithm. They take those methods as arguments here.
\<close>

definition base_on_ack :: "(u32 \<Rightarrow> u32 \<Rightarrow> u64 \<Rightarrow> congestion \<Rightarrow> congestion) \<Rightarrow> u32 \<Rightarrow> u32 \<Rightarrow> u64 \<Rightarrow> congestion \<Rightarrow> congestion"
where
  "base_on_ack grow bytes_acked srtt_ms now_ms c =
     (let c = (if cc_cwnd c < cc_ssthresh c then c\<lparr>cc_cwnd := cc_cwnd c + bytes_acked\<rparr>
               else grow bytes_acked srtt_ms now_ms c)
      in c\<lparr>cc_cwnd := min (cc_cwnd c) MAX_CWND\<rparr>)"

definition base_on_fast_retransmit :: "(u32 \<Rightarrow> congestion \<Rightarrow> congestion) \<Rightarrow> u32 \<Rightarrow> u32 \<Rightarrow> congestion \<Rightarrow> congestion" where
  "base_on_fast_retransmit event bytes_in_flight duplicate_acks c =
     (let c = event bytes_in_flight c
      in c\<lparr>cc_cwnd := min (cc_ssthresh c + duplicate_acks * cc_mss c) MAX_CWND\<rparr>)"

definition base_on_retransmit_timeout :: "(u32 \<Rightarrow> congestion \<Rightarrow> congestion) \<Rightarrow> u32 \<Rightarrow> congestion \<Rightarrow> congestion" where
  "base_on_retransmit_timeout event bytes_in_flight c =
     (let c = event bytes_in_flight c in c\<lparr>cc_cwnd := cc_mss c\<rparr>)"

definition cc_on_recovery_inflate :: "congestion \<Rightarrow> congestion" where
  "cc_on_recovery_inflate c = c\<lparr>cc_cwnd := min (cc_cwnd c + cc_mss c) MAX_CWND\<rparr>"

definition cc_on_recovery_end :: "congestion \<Rightarrow> congestion" where
  "cc_on_recovery_end c = c\<lparr>cc_cwnd := cc_ssthresh c\<rparr>"

text \<open>Dynamic dispatch on the stored algorithm.\<close>

definition cc_on_congestion_event :: "u32 \<Rightarrow> congestion \<Rightarrow> congestion" where
  "cc_on_congestion_event bytes_in_flight c =
     (case cc_algo c of
        Reno \<Rightarrow> reno_on_congestion_event bytes_in_flight c
      | Cubic u \<Rightarrow> cubic_on_congestion_event u c)"

definition cc_grow :: "u32 \<Rightarrow> u32 \<Rightarrow> u64 \<Rightarrow> congestion \<Rightarrow> congestion" where
  "cc_grow bytes_acked srtt_ms now_ms c =
     (case cc_algo c of
        Reno \<Rightarrow> reno_grow bytes_acked c
      | Cubic u \<Rightarrow> cubic_grow u bytes_acked srtt_ms now_ms c)"

definition cc_on_reset :: "congestion \<Rightarrow> congestion" where
  "cc_on_reset c = (case cc_algo c of Reno \<Rightarrow> c | Cubic u \<Rightarrow> c\<lparr>cc_algo := Cubic cubic_zero\<rparr>)"

definition cc_on_established :: "u32 \<Rightarrow> congestion \<Rightarrow> congestion" where
  "cc_on_established mss c =
     cc_on_reset (c\<lparr>cc_mss := mss, cc_cwnd := mss, cc_ssthresh := INITIAL_SSTHRESH\<rparr>)"

definition cc_on_ack :: "u32 \<Rightarrow> u32 \<Rightarrow> u64 \<Rightarrow> congestion \<Rightarrow> congestion" where
  "cc_on_ack = base_on_ack cc_grow"

definition cc_on_fast_retransmit :: "u32 \<Rightarrow> u32 \<Rightarrow> congestion \<Rightarrow> congestion" where
  "cc_on_fast_retransmit = base_on_fast_retransmit cc_on_congestion_event"

definition cc_on_retransmit_timeout :: "u32 \<Rightarrow> congestion \<Rightarrow> congestion" where
  "cc_on_retransmit_timeout = base_on_retransmit_timeout cc_on_congestion_event"


section \<open>Rounding\<close>

lemma round_even_error: "\<bar>of_int (round_even y) - y\<bar> \<le> 1 / 2"
  using floor_correct [of y] by (auto simp: round_even_def Let_def abs_le_iff)

lemma double_round_error: "\<bar>double_round x - x\<bar> \<le> \<bar>x\<bar> / 2 ^ 53"
proof (cases "x = 0")
  case False
  define e :: real where "e = 2 powr of_int (\<lfloor>log 2 \<bar>x\<bar>\<rfloor> - 52)"
  have pos: "0 < e" by (simp add: e_def)
  have "e * 2 ^ 52 = 2 powr of_int \<lfloor>log 2 \<bar>x\<bar>\<rfloor>"
    by (simp add: e_def powr_diff flip: powr_realpow)
  also have "\<dots> \<le> 2 powr (log 2 \<bar>x\<bar>)" by (rule powr_mono) simp_all
  also have "\<dots> = \<bar>x\<bar>" using False by simp
  finally have e: "e * 2 ^ 52 \<le> \<bar>x\<bar>" .
  have "double_round x - x = (of_int (round_even (x / e)) - x / e) * e"
    using False pos unfolding double_round_def Let_def e_def [symmetric] by (simp add: left_diff_distrib)
  then have "\<bar>double_round x - x\<bar> = \<bar>of_int (round_even (x / e)) - x / e\<bar> * e"
    using pos by (simp add: abs_mult)
  also have "\<dots> \<le> 1 / 2 * e" using round_even_error [of "x / e"] pos by (intro mult_right_mono) simp_all
  also have "\<dots> \<le> \<bar>x\<bar> / 2 ^ 53" using e by simp
  finally show ?thesis .
qed (simp add: double_round_def)

lemma double_round_nonneg: "0 \<le> x \<Longrightarrow> 0 \<le> double_round x"
proof -
  assume x: "0 \<le> x"
  have "x - double_round x \<le> x / 2 ^ 53" using double_round_error [of x] x by linarith
  then show ?thesis using x by simp
qed

lemma double_round_le: "0 \<le> x \<Longrightarrow> double_round x \<le> x * (1 + 1 / 2 ^ 53)"
proof -
  assume x: "0 \<le> x"
  have "double_round x - x \<le> x / 2 ^ 53" using double_round_error [of x] x by linarith
  then show ?thesis by (simp add: algebra_simps)
qed

lemma unat_to_uint32: "0 \<le> x \<Longrightarrow> x < 2 ^ 32 \<Longrightarrow> unat (to_uint32 x) = nat \<lfloor>x\<rfloor>"
  by (simp add: to_uint32_def unat_eq_nat_uint uint_word_of_int_eq take_bit_int_eq_self floor_less_iff)

lemma of_uint32_simps [simp]:
  "0 \<le> of_uint32 w" "of_uint32 a \<le> of_uint32 b \<longleftrightarrow> unat a \<le> unat b" "0 < of_uint32 a \<longleftrightarrow> 0 < unat a"
  unfolding of_uint32_def by (simp_all only: of_nat_0_le_iff of_nat_le_iff of_nat_0_less_iff)

lemma of_uint32_less: "of_uint32 w < 2 ^ 32"
  unfolding of_uint32_def using unat_u32_less [of w] by (simp del: of_nat_unat)

lemma to_uint32_le:
  assumes "0 \<le> x" "x \<le> of_uint32 w"
  shows "to_uint32 x \<le> w"
proof -
  have "x < 2 ^ 32" using assms(2) of_uint32_less [of w] by linarith
  then have "unat (to_uint32 x) = nat \<lfloor>x\<rfloor>" by (rule unat_to_uint32 [OF assms(1)])
  moreover have "\<lfloor>x\<rfloor> \<le> int (unat w)"
    using assms(2) unfolding of_uint32_def by (metis floor_mono floor_of_nat)
  ultimately show ?thesis unfolding word_le_nat_alt by linarith
qed

section \<open>The window invariant\<close>

definition cc_inv :: "congestion \<Rightarrow> bool" where
  "cc_inv c \<longleftrightarrow> 0 < unat (cc_mss c) \<and> unat (cc_mss c) \<le> 65535
     \<and> unat (cc_mss c) \<le> unat (cc_cwnd c) \<and> unat (cc_cwnd c) \<le> 2 ^ 30
     \<and> unat (cc_mss c) \<le> unat (cc_ssthresh c) \<and> unat (cc_ssthresh c) \<le> 2 ^ 30"

lemma unat_max [simp]: "unat (max a b) = max (unat a) (unat b)"
  by (simp add: max_def word_le_nat_alt)

lemma unat_min [simp]: "unat (min a b) = min (unat a) (unat b)"
  by (simp add: min_def word_le_nat_alt)

lemma unat_MAX_CWND: "unat MAX_CWND = 2 ^ 30"
  by (simp add: MAX_CWND_def)

lemma unat_add_small: "unat (a :: u32) + unat b < 2 ^ 32 \<Longrightarrow> unat (a + b) = unat a + unat b"
  by (rule unat_numeral_add_less) simp

lemma window_in_segments_le:
  assumes "cc_inv c"
  shows "1 \<le> window_in_segments c"
    and "window_in_segments c * of_uint32 (cc_mss c) \<le> of_uint32 (cc_cwnd c) * (1 + 1 / 2 ^ 53)"
proof -
  let ?m = "of_uint32 (cc_mss c)" and ?w = "of_uint32 (cc_cwnd c)"
  have m: "0 < ?m" "?m \<le> ?w" using assms by (simp_all add: cc_inv_def)
  show "1 \<le> window_in_segments c" by (simp add: window_in_segments_def Let_def)
  have "ddiv ?w ?m \<le> ?w / ?m * (1 + 1 / 2 ^ 53)" unfolding ddiv_def by (rule double_round_le) (use m in simp)
  moreover have "1 * 1 \<le> ?w / ?m * (1 + 1 / 2 ^ 53)"
    by (rule mult_mono) (use m in \<open>simp_all only: le_divide_eq_1_pos, simp_all\<close>)
  ultimately have "window_in_segments c \<le> ?w / ?m * (1 + 1 / 2 ^ 53)"
    by (simp add: window_in_segments_def Let_def)
  then have "window_in_segments c * ?m \<le> ?w / ?m * (1 + 1 / 2 ^ 53) * ?m" using m by (intro mult_right_mono) simp_all
  then show "window_in_segments c * ?m \<le> ?w * (1 + 1 / 2 ^ 53)" using m by simp
qed

lemma CUBIC_BETA_bounds: "0 \<le> CUBIC_BETA" "CUBIC_BETA \<le> 7 / 10 * (1 + 1 / 2 ^ 53)"
  unfolding CUBIC_BETA_def by (rule double_round_nonneg, simp) (rule double_round_le, simp)

lemma cubic_reduced_le:
  assumes "cc_inv c"
  shows "0 \<le> dmul (dmul (window_in_segments c) CUBIC_BETA) (of_uint32 (cc_mss c))"
    and "dmul (dmul (window_in_segments c) CUBIC_BETA) (of_uint32 (cc_mss c)) \<le> of_uint32 (cc_cwnd c)"
proof -
  let ?m = "of_uint32 (cc_mss c)" and ?w = "of_uint32 (cc_cwnd c)" and ?s = "window_in_segments c"
  let ?e = "1 + 1 / 2 ^ 53 :: real"
  note s = window_in_segments_le [OF assms] and b = CUBIC_BETA_bounds
  have m: "0 \<le> ?m" "0 \<le> ?w" by simp_all
  have p: "0 \<le> ?s * CUBIC_BETA" using s b by simp
  have p': "0 \<le> dmul ?s CUBIC_BETA" unfolding dmul_def by (rule double_round_nonneg [OF p])
  then show "0 \<le> dmul (dmul ?s CUBIC_BETA) ?m" using m by (simp add: dmul_def [of _ ?m] double_round_nonneg)
  have "dmul (dmul ?s CUBIC_BETA) ?m \<le> dmul ?s CUBIC_BETA * ?m * ?e"
    unfolding dmul_def [of _ ?m] by (rule double_round_le) (use p' m in simp)
  also have "\<dots> \<le> ?s * CUBIC_BETA * ?e * ?m * ?e"
    unfolding dmul_def by (intro mult_right_mono double_round_le p) (simp_all add: m)
  also have "\<dots> = ?s * ?m * (CUBIC_BETA * ?e * ?e)" by (simp add: mult_ac)
  also have "\<dots> \<le> ?w * ?e * (7 / 10 * ?e * ?e * ?e)"
    by (intro mult_mono s b) (use b m in simp_all)
  also have "\<dots> = ?w * (7 / 10 * ?e * ?e * ?e * ?e)" by (simp add: mult_ac)
  also have "\<dots> \<le> ?w * 1" using m by (intro mult_left_mono) simp_all
  finally show "dmul (dmul ?s CUBIC_BETA) ?m \<le> ?w" by simp
qed

section \<open>Preservation\<close>

lemma unat_double_mss: "unat (m :: u32) \<le> 65535 \<Longrightarrow> unat (2 * m) = 2 * unat m"
  unfolding mult_2 by (rule unat_add_small) simp

lemma reno_event_inv:
  assumes "cc_inv c" "unat bytes_in_flight \<le> 2 ^ 31"
  shows "cc_inv (reno_on_congestion_event bytes_in_flight c)"
  using assms unat_double_mss [of "cc_mss c"]
  by (simp add: cc_inv_def reno_on_congestion_event_def unat_div) arith

lemma cubic_event_inv:
  assumes "cc_inv c"
  shows "cc_inv (cubic_on_congestion_event u c)"
  using assms unat_double_mss [of "cc_mss c"] to_uint32_le [OF cubic_reduced_le [OF assms]]
  by (simp add: cc_inv_def cubic_on_congestion_event_def Let_def word_le_nat_alt)

lemma reno_increment_le:
  assumes "unat (m :: u32) \<le> unat w"
  shows "unat ((m * a) div w) \<le> unat a"
proof (cases "unat w = 0")
  case False
  have "unat (m * a) \<le> unat m * unat a" unfolding unat_word_ariths by (rule mod_less_eq_dividend)
  also have "\<dots> \<le> unat w * unat a" using assms by (rule mult_le_mono1)
  finally have "unat (m * a) div unat w \<le> (unat w * unat a) div unat w" by (rule div_le_mono)
  then show ?thesis using False by (simp add: unat_div)
qed (simp add: unat_div)

lemma cwnd_grown:
  assumes "unat (w :: u32) \<le> 2 ^ 30" "unat d < 2 ^ 31"
  shows "unat (w + max 1 d) = unat w + max 1 (unat d)"
  using unat_add_small [of w "max 1 d"] assms by simp

lemma cubic_increment_le: "to_uint32 (min x (of_uint32 w)) \<le> w" if "0 \<le> x"
  using that by (intro to_uint32_le) simp_all


section \<open>What an algorithm owes the shared machinery\<close>

text \<open>
  The contract of the two virtual methods: a congestion event leaves the window itself alone and
  keeps the invariant with a threshold of at least two segments, and growth in congestion avoidance
  adds at least one byte, and no more than the larger of the window and the bytes acknowledged.
\<close>

locale congestion_controller =
  fixes event :: "u32 \<Rightarrow> congestion \<Rightarrow> congestion"
    and grow :: "u32 \<Rightarrow> u32 \<Rightarrow> u64 \<Rightarrow> congestion \<Rightarrow> congestion"
  assumes event_keeps: "cc_cwnd (event f c) = cc_cwnd c" "cc_mss (event f c) = cc_mss c"
    and event_inv: "cc_inv c \<Longrightarrow> unat f \<le> 2 ^ 31 \<Longrightarrow> cc_inv (event f c)"
    and event_floor: "cc_inv c \<Longrightarrow> 2 * unat (cc_mss c) \<le> unat (cc_ssthresh (event f c))"
    and grow_keeps: "cc_mss (grow a s n c) = cc_mss c" "cc_ssthresh (grow a s n c) = cc_ssthresh c"
    and grow_step: "cc_inv c \<Longrightarrow> unat a < 2 ^ 31 \<Longrightarrow>
      \<exists>d. 1 \<le> d \<and> d \<le> max (unat (cc_cwnd c)) (unat a) \<and> unat (cc_cwnd (grow a s n c)) = unat (cc_cwnd c) + d"
begin

lemma ack_step:
  assumes "cc_inv c" "0 < unat a" "unat a < 2 ^ 31"
  obtains d where "1 \<le> d" "d \<le> max (unat (cc_cwnd c)) (unat a)"
    "unat (cc_cwnd (base_on_ack grow a s n c)) = min (unat (cc_cwnd c) + d) (2 ^ 30)"
    "cc_mss (base_on_ack grow a s n c) = cc_mss c" "cc_ssthresh (base_on_ack grow a s n c) = cc_ssthresh c"
proof (cases "cc_cwnd c < cc_ssthresh c")
  case True
  have "unat (cc_cwnd c + a) = unat (cc_cwnd c) + unat a"
    using assms by (intro unat_add_small) (simp add: cc_inv_def)
  then show ?thesis using that [of "unat a"] True assms(2) by (simp add: base_on_ack_def Let_def unat_MAX_CWND)
next
  case False
  from grow_step [OF assms(1,3)] obtain d where
    "1 \<le> d" "d \<le> max (unat (cc_cwnd c)) (unat a)" "unat (cc_cwnd (grow a s n c)) = unat (cc_cwnd c) + d" by blast
  then show ?thesis using that [of d] False by (simp add: base_on_ack_def Let_def unat_MAX_CWND grow_keeps)
qed

lemma ack_inv:
  assumes "cc_inv c" "0 < unat a" "unat a < 2 ^ 31"
  shows "cc_inv (base_on_ack grow a s n c)"
  using assms(1) by (rule_tac ack_step [OF assms, of s n]) (simp add: cc_inv_def)

lemma fast_retransmit_window:
  assumes "cc_inv c" "unat f \<le> 2 ^ 31" "unat k * unat (cc_mss c) < 2 ^ 31"
  shows "unat (cc_cwnd (base_on_fast_retransmit event f k c))
       = min (unat (cc_ssthresh (event f c)) + unat k * unat (cc_mss c)) (2 ^ 30)"
proof -
  have "unat (k * cc_mss c) = unat k * unat (cc_mss c)"
    using assms(3) by (simp add: unat_word_ariths)
  moreover have "unat (cc_ssthresh (event f c)) \<le> 2 ^ 30"
    using event_inv [OF assms(1,2)] by (simp add: cc_inv_def)
  ultimately show ?thesis
    using assms(3) unat_add_small [of "cc_ssthresh (event f c)" "k * cc_mss c"]
    by (simp add: base_on_fast_retransmit_def Let_def event_keeps unat_MAX_CWND)
qed

lemma fast_retransmit_inv:
  assumes "cc_inv c" "unat f \<le> 2 ^ 31" "unat k * unat (cc_mss c) < 2 ^ 31"
  shows "cc_inv (base_on_fast_retransmit event f k c)"
  using event_inv [OF assms(1,2)] fast_retransmit_window [OF assms] assms(1)
  by (simp add: cc_inv_def base_on_fast_retransmit_def Let_def event_keeps)

lemma timeout_inv:
  assumes "cc_inv c" "unat f \<le> 2 ^ 31"
  shows "cc_inv (base_on_retransmit_timeout event f c)"
  using event_inv [OF assms] assms(1)
  by (simp add: cc_inv_def base_on_retransmit_timeout_def Let_def event_keeps)

lemma timeout_restarts:
  assumes "cc_inv c"
  shows "cc_cwnd (base_on_retransmit_timeout event f c) = cc_mss c
    \<and> cc_cwnd (base_on_retransmit_timeout event f c) < cc_ssthresh (base_on_retransmit_timeout event f c)"
  using event_floor [OF assms, of f] assms
  by (simp add: cc_inv_def base_on_retransmit_timeout_def Let_def event_keeps word_less_nat_alt)

end

lemma two_segment_floor: "cc_inv c \<Longrightarrow> 2 * unat (cc_mss c) \<le> unat (max x (2 * cc_mss c))"
  by (simp add: cc_inv_def unat_double_mss)

lemma reno_grow_step:
  assumes "cc_inv c" "unat a < 2 ^ 31"
  shows "\<exists>d. 1 \<le> d \<and> d \<le> max 1 (unat a) \<and> unat (cc_cwnd (reno_grow a c)) = unat (cc_cwnd c) + d"
proof -
  have i: "unat ((cc_mss c * a) div cc_cwnd c) \<le> unat a" using assms(1) by (intro reno_increment_le) (simp add: cc_inv_def)
  have "unat (cc_cwnd (reno_grow a c)) = unat (cc_cwnd c) + max 1 (unat ((cc_mss c * a) div cc_cwnd c))"
    using cwnd_grown [of "cc_cwnd c" "(cc_mss c * a) div cc_cwnd c"] assms i by (simp add: cc_inv_def reno_grow_def)
  then show ?thesis using i by (intro exI [of _ "max 1 (unat ((cc_mss c * a) div cc_cwnd c))"]) auto
qed

interpretation reno: congestion_controller reno_on_congestion_event "\<lambda>a s n. reno_grow a"
proof
  fix c f
  show "cc_cwnd (reno_on_congestion_event f c) = cc_cwnd c" "cc_mss (reno_on_congestion_event f c) = cc_mss c"
    by (simp_all add: reno_on_congestion_event_def)
  show "cc_inv (reno_on_congestion_event f c)" if "cc_inv c" "unat f \<le> 2 ^ 31"
    using that by (rule reno_event_inv)
  show "2 * unat (cc_mss c) \<le> unat (cc_ssthresh (reno_on_congestion_event f c))" if "cc_inv c"
    using two_segment_floor [OF that] by (simp add: reno_on_congestion_event_def)
next
  fix a c
  show "cc_mss (reno_grow a c) = cc_mss c" "cc_ssthresh (reno_grow a c) = cc_ssthresh c"
    by (simp_all add: reno_grow_def)
  assume a: "cc_inv c" "unat a < 2 ^ 31"
  from reno_grow_step [OF a] show
    "\<exists>d. 1 \<le> d \<and> d \<le> max (unat (cc_cwnd c)) (unat a) \<and> unat (cc_cwnd (reno_grow a c)) = unat (cc_cwnd c) + d"
    using a(1) by (auto simp: cc_inv_def)
qed

lemma dmul_nonneg: "0 \<le> a \<Longrightarrow> 0 \<le> b \<Longrightarrow> 0 \<le> dmul a b"
  unfolding dmul_def by (rule double_round_nonneg) simp

lemma ddiv_nonneg: "0 \<le> a \<Longrightarrow> 0 \<le> b \<Longrightarrow> 0 \<le> ddiv a b"
  unfolding ddiv_def by (rule double_round_nonneg) simp

lemma dsub_nonneg: "b \<le> a \<Longrightarrow> 0 \<le> dsub a b"
  unfolding dsub_def by (rule double_round_nonneg) simp

lemma cubic_grow_cwnd:
  assumes "1 \<le> window_in_segments c"
  obtains x where "0 \<le> x" "cc_cwnd (cubic_grow u a s n c) = cc_cwnd c + max 1 (to_uint32 (min x (of_uint32 (cc_cwnd c))))"
  by (rule that [rotated], simp add: cubic_grow_def Let_def)
    (use assms in \<open>auto intro!: dmul_nonneg ddiv_nonneg dsub_nonneg double_round_nonneg\<close>)

lemma cubic_grow_step:
  assumes "cc_inv c"
  shows "\<exists>d. 1 \<le> d \<and> d \<le> unat (cc_cwnd c) \<and> unat (cc_cwnd (cubic_grow u a s n c)) = unat (cc_cwnd c) + d"
proof -
  obtain x where x: "0 \<le> x"
    "cc_cwnd (cubic_grow u a s n c) = cc_cwnd c + max 1 (to_uint32 (min x (of_uint32 (cc_cwnd c))))"
    using window_in_segments_le(1) [OF assms] by (rule cubic_grow_cwnd)
  let ?d = "to_uint32 (min x (of_uint32 (cc_cwnd c)))"
  have d: "unat ?d \<le> unat (cc_cwnd c)" using cubic_increment_le [OF x(1)] by (simp add: word_le_nat_alt)
  have "unat (cc_cwnd (cubic_grow u a s n c)) = unat (cc_cwnd c) + max 1 (unat ?d)"
    unfolding x(2) by (rule cwnd_grown) (use assms d in \<open>simp_all add: cc_inv_def\<close>)
  then show ?thesis using d assms by (intro exI [of _ "max 1 (unat ?d)"]) (auto simp: cc_inv_def)
qed

interpretation cubic: congestion_controller "\<lambda>f. cubic_on_congestion_event u" "cubic_grow u" for u
proof
  fix c
  show "cc_cwnd (cubic_on_congestion_event u c) = cc_cwnd c" "cc_mss (cubic_on_congestion_event u c) = cc_mss c"
    by (simp_all add: cubic_on_congestion_event_def Let_def)
  show "cc_inv (cubic_on_congestion_event u c)" if "cc_inv c"
    using that by (rule cubic_event_inv)
  show "2 * unat (cc_mss c) \<le> unat (cc_ssthresh (cubic_on_congestion_event u c))" if "cc_inv c"
    using two_segment_floor [OF that] by (simp add: cubic_on_congestion_event_def Let_def)
next
  fix a s n c
  show "cc_mss (cubic_grow u a s n c) = cc_mss c" "cc_ssthresh (cubic_grow u a s n c) = cc_ssthresh c"
    by (simp_all add: cubic_grow_def Let_def)
  assume a: "cc_inv c" "unat a < 2 ^ 31"
  from cubic_grow_step [OF a(1), of u a s n] show "\<exists>d. 1 \<le> d \<and> d \<le> max (unat (cc_cwnd c)) (unat a)
      \<and> unat (cc_cwnd (cubic_grow u a s n c)) = unat (cc_cwnd c) + d" by auto
qed

lemma cc_grow_step:
  assumes "cc_inv c" "unat a < 2 ^ 31"
  shows "\<exists>d. 1 \<le> d \<and> d \<le> max (unat (cc_cwnd c)) (unat a) \<and> unat (cc_cwnd (cc_grow a s n c)) = unat (cc_cwnd c) + d"
  unfolding cc_grow_def
  using reno.grow_step [OF assms] cubic.grow_step [OF assms] by (cases "cc_algo c") simp_all

interpretation cc: congestion_controller cc_on_congestion_event cc_grow
  by unfold_locales
    (simp_all only: cc_grow_step, simp_all add: cc_on_congestion_event_def cc_grow_def reno.event_keeps
      cubic.event_keeps reno.grow_keeps cubic.grow_keeps reno.event_inv cubic.event_inv reno.event_floor
      cubic.event_floor split: cc_algo.split)

lemma cc_established_inv:
  assumes "0 < unat mss" "unat mss \<le> 65535"
  shows "cc_inv (cc_on_established mss c)"
  using assms by (simp add: cc_inv_def cc_on_established_def cc_on_reset_def INITIAL_SSTHRESH_def split: cc_algo.split)

lemma cc_inflate_inv:
  assumes "cc_inv c"
  shows "cc_inv (cc_on_recovery_inflate c)"
  using assms unat_add_small [of "cc_cwnd c" "cc_mss c"]
  by (simp add: cc_inv_def cc_on_recovery_inflate_def unat_MAX_CWND)

lemma cc_recovery_end_inv: "cc_inv c \<Longrightarrow> cc_inv (cc_on_recovery_end c)"
  by (simp add: cc_inv_def cc_on_recovery_end_def)


section \<open>Over a connection's lifetime\<close>

datatype cc_event = Established u32 | Ack u32 u32 u64 | Fast_retransmit u32 u32 | Timeout u32 | Inflate | Recovery_end

fun cc_step :: "cc_event \<Rightarrow> congestion \<Rightarrow> congestion" where
  "cc_step (Established mss) = cc_on_established mss"
| "cc_step (Ack bytes_acked srtt_ms now_ms) = cc_on_ack bytes_acked srtt_ms now_ms"
| "cc_step (Fast_retransmit bytes_in_flight duplicate_acks) = cc_on_fast_retransmit bytes_in_flight duplicate_acks"
| "cc_step (Timeout bytes_in_flight) = cc_on_retransmit_timeout bytes_in_flight"
| "cc_step Inflate = cc_on_recovery_inflate"
| "cc_step Recovery_end = cc_on_recovery_end"

text \<open>The arguments a connection can pass: a sequence space of \<open>2 ^ 32\<close> bounds what is acknowledged at once.\<close>

fun cc_event_ok :: "cc_event \<Rightarrow> bool" where
  "cc_event_ok (Established mss) \<longleftrightarrow> 0 < mss \<and> mss \<le> 65535"
| "cc_event_ok (Ack bytes_acked srtt_ms now_ms) \<longleftrightarrow> 0 < bytes_acked \<and> bytes_acked < 2 ^ 31"
| "cc_event_ok (Fast_retransmit bytes_in_flight duplicate_acks) \<longleftrightarrow> bytes_in_flight \<le> 2 ^ 31 \<and> duplicate_acks < 2 ^ 15"
| "cc_event_ok (Timeout bytes_in_flight) \<longleftrightarrow> bytes_in_flight \<le> 2 ^ 31"
| "cc_event_ok Inflate \<longleftrightarrow> True"
| "cc_event_ok Recovery_end \<longleftrightarrow> True"

lemma duplicates_small:
  assumes "cc_inv c" "unat (k :: u32) < 2 ^ 15"
  shows "unat k * unat (cc_mss c) < 2 ^ 31"
proof -
  have "unat k * unat (cc_mss c) \<le> 2 ^ 15 * 65535" using assms by (intro mult_le_mono) (simp_all add: cc_inv_def)
  then show ?thesis by simp
qed

lemma cc_step_inv: "cc_event_ok e \<Longrightarrow> cc_inv c \<Longrightarrow> cc_inv (cc_step e c)"
  by (cases e)
    (auto simp: word_less_nat_alt word_le_nat_alt cc_on_ack_def cc_on_fast_retransmit_def cc_on_retransmit_timeout_def
      intro!: cc_established_inv cc.ack_inv cc.fast_retransmit_inv cc.timeout_inv cc_inflate_inv cc_recovery_end_inv
        duplicates_small)

lemma cc_run_inv: "list_all cc_event_ok es \<Longrightarrow> cc_inv c \<Longrightarrow> cc_inv (fold cc_step es c)"
  by (induction es arbitrary: c) (simp_all add: cc_step_inv)

section \<open>Properties\<close>

text \<open>
  C25. From the moment the handshake settles the MSS, no sequence of acknowledgements, fast retransmits,
  inflations, recoveries and timeouts can take the congestion window, under Reno or CUBIC, below one
  segment or above \<open>2 ^ 30\<close> bytes: no growth path wraps the 32-bit window.
\<close>

theorem congestion_window_bounded:
  assumes "0 < mss" "mss \<le> 65535" "list_all cc_event_ok es"
  shows "let c = fold cc_step es (cc_on_established mss (make_congestion_control algorithm))
    in cc_mss c \<le> cc_cwnd c \<and> cc_cwnd c \<le> MAX_CWND"
proof -
  have "cc_inv (cc_on_established mss (make_congestion_control algorithm))"
    using assms(1,2) by (intro cc_established_inv) (simp_all add: word_less_nat_alt word_le_nat_alt)
  from cc_run_inv [OF assms(3) this] show ?thesis
    by (simp add: Let_def cc_inv_def word_le_nat_alt unat_MAX_CWND)
qed

theorem congestion_window_bounded_witness:
  "let c = fold cc_step [Ack 1460 20 5, Fast_retransmit 1460 3, Inflate, Recovery_end, Timeout 0, Ack 1460 20 900]
       (cc_on_established 1460 (make_congestion_control CUBIC))
   in cc_mss c \<le> cc_cwnd c \<and> cc_cwnd c \<le> MAX_CWND"
  by (rule congestion_window_bounded) simp_all

text \<open>
  C26. Every acknowledgement of new data opens the window, each phase at its own pace and never past the ceiling of
  one gigabyte. In slow start it grows by exactly the bytes acknowledged. In congestion avoidance it grows by at
  least one byte; with Reno by no more than the bytes acknowledged, with CUBIC by no more than the window itself.
  The threshold does not move.
\<close>

theorem ack_opens_window:
  assumes "cc_inv c" "0 < bytes_acked" "bytes_acked < 2 ^ 31"
  shows "let c' = cc_on_ack bytes_acked srtt_ms now_ms c in
    (if cc_cwnd c < cc_ssthresh c then unat (cc_cwnd c') = min (unat (cc_cwnd c) + unat bytes_acked) (2 ^ 30)
     else min (unat (cc_cwnd c) + 1) (2 ^ 30) \<le> unat (cc_cwnd c')
       \<and> unat (cc_cwnd c') \<le> unat (cc_cwnd c) + (case cc_algo c of Reno \<Rightarrow> unat bytes_acked | Cubic u \<Rightarrow> unat (cc_cwnd c)))
    \<and> cc_ssthresh c' = cc_ssthresh c \<and> cc_inv c'"
proof -
  have a: "0 < unat bytes_acked" "unat bytes_acked < 2 ^ 31" using assms(2,3) by (simp_all add: word_less_nat_alt)
  let ?c = "cc_on_ack bytes_acked srtt_ms now_ms c"
  have s: "cc_ssthresh ?c = cc_ssthresh c"
    by (rule cc.ack_step [OF assms(1) a, of srtt_ms now_ms]) (simp add: cc_on_ack_def)
  have i: "cc_inv ?c" using cc.ack_inv [OF assms(1) a] by (simp add: cc_on_ack_def)
  show ?thesis
  proof (cases "cc_cwnd c < cc_ssthresh c")
    case True
    have "unat (cc_cwnd c + bytes_acked) = unat (cc_cwnd c) + unat bytes_acked"
      using assms(1) a(2) by (intro unat_add_small) (simp add: cc_inv_def)
    then show ?thesis using True s i by (simp add: Let_def cc_on_ack_def base_on_ack_def unat_MAX_CWND)
  next
    case False
    have "\<exists>d. 1 \<le> d \<and> d \<le> (case cc_algo c of Reno \<Rightarrow> unat bytes_acked | Cubic u \<Rightarrow> unat (cc_cwnd c))
        \<and> unat (cc_cwnd (cc_grow bytes_acked srtt_ms now_ms c)) = unat (cc_cwnd c) + d"
      using reno_grow_step [OF assms(1) a(2)] cubic_grow_step [OF assms(1)] a(1)
      by (auto simp: cc_grow_def max_def split: cc_algo.split)
    then show ?thesis using False s i by (auto simp: Let_def cc_on_ack_def base_on_ack_def unat_MAX_CWND)
  qed
qed

theorem ack_opens_window_witness:
  "let c = cc_on_established 1000 (make_congestion_control RENO); c' = cc_on_ack 1000 20 5 c in
    unat (cc_cwnd c') = unat (cc_cwnd c) + 1000 \<and> cc_ssthresh c' = cc_ssthresh c \<and> cc_inv c'"
proof -
  let ?c = "cc_on_established 1000 (make_congestion_control RENO)"
  have "cc_cwnd ?c < cc_ssthresh ?c" "unat (cc_cwnd ?c) \<le> 65536"
    by (simp_all add: cc_on_established_def cc_on_reset_def make_congestion_control_def INITIAL_SSTHRESH_def)
  then show ?thesis
    using ack_opens_window [of ?c 1000 20 5] cc_established_inv [of 1000 "make_congestion_control RENO"]
    by (simp add: Let_def)
qed



end
