(* ===== verification/Tcp_Connection.thy ===== *)
theory Tcp_Connection
  imports Tcp_Codec Congestion_Control
begin

text \<open>
  One TCP connection (\<open>tcp_connection.h\<close>, \<open>tcp_connection.cpp\<close>). The object is a record with the
  fields of the class; every member function is a function from the record to the record. The class
  owns no I/O: it calls \<open>_send_segment\<close>, the state subscribers and \<open>_on_data_ready\<close>, and these calls
  are appended to the log \<open>c_events\<close> in the order they are made. The callbacks themselves are code of
  the stack or of the application, and run after the handler in this model.

  Sequence numbers, windows and the clock are words that wrap. Timers are C \<open>int\<close>s that count down
  by the elapsed time cast to \<open>int\<close>. The \<open>size_t\<close> byte counts are natural numbers; the invariant of
  the connection shows that they never go below zero. \<open>std::map\<close> is an association list in key
  order.
\<close>

section \<open>State\<close>

datatype tcp_state = LISTEN | SYN_SENT | SYN_RECEIVED | ESTABLISHED | FIN_WAIT_1 | FIN_WAIT_2
  | CLOSE_WAIT | CLOSING | LAST_ACK | TIME_WAIT | CLOSED

datatype tcp_event = Segment tcp bytes | State_changed tcp_state | Data_ready

record in_flight_segment =
  if_seq :: u32
  if_end_seq :: u32
  if_flags :: u8
  if_payload :: bytes
  if_retransmit_ms_remaining :: int
  if_retransmit_attempts :: int
  if_sent_at_ms :: u64
  if_sacked :: bool
  if_retransmitted :: bool

record tcp_connection =
  c_id :: u64
  c_local_port :: u16
  c_remote_ip :: ipv4
  c_remote_port :: u16
  c_state :: tcp_state
  c_send_next :: u32
  c_recv_next :: u32
  c_in_flight :: "in_flight_segment list"
  c_unsacked_in_flight_bytes :: u32
  c_send_queue :: "bytes list"
  c_send_queued_bytes :: nat
  c_fin_requested :: bool
  c_time_wait_ms_remaining :: int
  c_now_ms :: u64
  c_srtt_scaled :: u32
  c_rttvar_scaled :: u32
  c_has_rtt_sample :: bool
  c_rto_ms :: int
  c_persist_ms_remaining :: int
  c_persist_backoff :: nat
  c_ack_pending :: bool
  c_ack_delay_ms_remaining :: int
  c_keepalive_enabled :: bool
  c_keepalive_idle_ms_remaining :: int
  c_keepalive_probe_ms_remaining :: int
  c_keepalive_probes_sent :: int
  c_sack_permitted :: bool
  c_last_out_of_order_seq :: u32
  c_timestamps_negotiated :: bool
  c_ts_recent :: u32
  c_have_ts_recent :: bool
  c_local_mss :: u16
  c_peer_mss :: u16
  c_effective_mss :: u16
  c_window_scaling_negotiated :: bool
  c_peer_window_scale :: u8
  c_peer_window :: u32
  c_reorder_buffer :: "(u32 \<times> bytes) list"
  c_congestion :: congestion
  c_dup_ack_count :: u32
  c_in_fast_recovery :: bool
  c_has_data_ready :: bool
  c_receive_queue :: "bytes list"
  c_receive_queued_bytes :: nat
  c_events :: "tcp_event list"

definition FLAG_ACK :: u8 where "FLAG_ACK = 0x10"
definition FLAG_RST :: u8 where "FLAG_RST = 0x04"
definition FLAG_SYN :: u8 where "FLAG_SYN = 0x02"
definition FLAG_FIN :: u8 where "FLAG_FIN = 0x01"

definition SEND_BUFFER_CAPACITY :: nat where "SEND_BUFFER_CAPACITY = 131072"
definition RECEIVE_BUFFER_CAPACITY :: u32 where "RECEIVE_BUFFER_CAPACITY = 131072"
definition DEFAULT_PEER_MSS :: u16 where "DEFAULT_PEER_MSS = 536"
definition WINDOW_SCALE_SHIFT :: nat where "WINDOW_SCALE_SHIFT = 1"
definition DUP_ACK_FAST_RETRANSMIT_THRESHOLD :: u32 where "DUP_ACK_FAST_RETRANSMIT_THRESHOLD = 3"
definition INITIAL_RTO_MS :: int where "INITIAL_RTO_MS = 1000"
definition RTO_SCALE :: u32 where "RTO_SCALE = 8"
definition RTT_SMOOTHING_SHIFT :: nat where "RTT_SMOOTHING_SHIFT = 3"
definition RTT_VARIANCE_SHIFT :: nat where "RTT_VARIANCE_SHIFT = 2"
definition RTO_VARIANCE_MULTIPLIER :: u32 where "RTO_VARIANCE_MULTIPLIER = 4"
definition RTO_CLOCK_GRANULARITY_MS :: u32 where "RTO_CLOCK_GRANULARITY_MS = 100"
definition MIN_RTO_MS :: int where "MIN_RTO_MS = 200"
definition MAX_RTO_MS :: int where "MAX_RTO_MS = 60000"
definition MAX_RETRANSMIT_ATTEMPTS :: int where "MAX_RETRANSMIT_ATTEMPTS = 5"
definition TIME_WAIT_MS :: int where "TIME_WAIT_MS = 60000"
definition PERSIST_BASE_MS :: int where "PERSIST_BASE_MS = 1000"
definition PERSIST_MAX_BACKOFF_SHIFT :: nat where "PERSIST_MAX_BACKOFF_SHIFT = 5"
definition DELAYED_ACK_MS :: int where "DELAYED_ACK_MS = 200"
definition KEEPALIVE_IDLE_MS :: int where "KEEPALIVE_IDLE_MS = 7200000"
definition KEEPALIVE_PROBE_INTERVAL_MS :: int where "KEEPALIVE_PROBE_INTERVAL_MS = 75000"
definition KEEPALIVE_MAX_PROBES :: int where "KEEPALIVE_MAX_PROBES = 9"

definition seq_at_or_before :: "u32 \<Rightarrow> u32 \<Rightarrow> bool" where
  "seq_at_or_before a b \<longleftrightarrow> sint (a - b) \<le> 0"

definition new_connection :: "u64 \<Rightarrow> u16 \<Rightarrow> ipv4 \<Rightarrow> u16 \<Rightarrow> u32 \<Rightarrow> u16 \<Rightarrow> cc_name \<Rightarrow> tcp_connection" where
  "new_connection conn_id local_port remote_ip remote_port initial_seq mss algorithm =
     \<lparr>c_id = conn_id, c_local_port = local_port, c_remote_ip = remote_ip, c_remote_port = remote_port,
      c_state = LISTEN, c_send_next = initial_seq, c_recv_next = 0, c_in_flight = [],
      c_unsacked_in_flight_bytes = 0, c_send_queue = [], c_send_queued_bytes = 0,
      c_fin_requested = False, c_time_wait_ms_remaining = 0, c_now_ms = 1, c_srtt_scaled = 0,
      c_rttvar_scaled = 0, c_has_rtt_sample = False, c_rto_ms = INITIAL_RTO_MS,
      c_persist_ms_remaining = 0, c_persist_backoff = 0, c_ack_pending = False,
      c_ack_delay_ms_remaining = 0, c_keepalive_enabled = False,
      c_keepalive_idle_ms_remaining = KEEPALIVE_IDLE_MS, c_keepalive_probe_ms_remaining = 0,
      c_keepalive_probes_sent = 0, c_sack_permitted = False, c_last_out_of_order_seq = 0,
      c_timestamps_negotiated = False, c_ts_recent = 0, c_have_ts_recent = False,
      c_local_mss = mss, c_peer_mss = DEFAULT_PEER_MSS,
      c_effective_mss = min mss DEFAULT_PEER_MSS, c_window_scaling_negotiated = False,
      c_peer_window_scale = 0, c_peer_window = ucast mss, c_reorder_buffer = [],
      c_congestion = cc_on_established (ucast mss) (make_congestion_control algorithm),
      c_dup_ack_count = 0, c_in_fast_recovery = False, c_has_data_ready = False,
      c_receive_queue = [], c_receive_queued_bytes = 0, c_events = []\<rparr>"

definition emit :: "tcp_event \<Rightarrow> tcp_connection \<Rightarrow> tcp_connection" where
  "emit e c = c\<lparr>c_events := c_events c @ [e]\<rparr>"

definition transition :: "tcp_state \<Rightarrow> tcp_connection \<Rightarrow> tcp_connection" where
  "transition new_state c = emit (State_changed new_state) (c\<lparr>c_state := new_state\<rparr>)"

section \<open>The receive window and outgoing headers\<close>

definition receive_buffer_occupied :: "tcp_connection \<Rightarrow> u32" where
  "receive_buffer_occupied c =
     sum_list (map (\<lambda>(k, d). of_nat (length d)) (c_reorder_buffer c)) + of_nat (c_receive_queued_bytes c)"

fun merge_blocks :: "(u32 \<times> bytes) list \<Rightarrow> sack_block list \<Rightarrow> sack_block list" where
  "merge_blocks [] blocks = blocks"
| "merge_blocks ((start, data) # rest) blocks =
     (let block_end = start + of_nat (length data) in
      if blocks \<noteq> [] \<and> sb_end (last blocks) = start
      then merge_blocks rest (butlast blocks @ [(last blocks)\<lparr>sb_end := block_end\<rparr>])
      else merge_blocks rest (blocks @ [\<lparr>sb_start = start, sb_end = block_end\<rparr>]))"

fun block_index :: "u32 \<Rightarrow> nat \<Rightarrow> sack_block list \<Rightarrow> nat option" where
  "block_index s i [] = None"
| "block_index s i (b # bs) = (if sb_start b \<le> s \<and> s < sb_end b then Some i else block_index s (i + 1) bs)"

definition sack_blocks_to_report :: "tcp_connection \<Rightarrow> sack_block list" where
  "sack_blocks_to_report c =
     (let blocks = merge_blocks (c_reorder_buffer c) [];
          blocks = (if length blocks > 1 then
                      (case block_index (c_last_out_of_order_seq c) 0 blocks of
                         None \<Rightarrow> blocks
                       | Some i \<Rightarrow> blocks[0 := blocks ! i, i := blocks ! 0])
                    else blocks);
          limit = (if c_timestamps_negotiated c then MAX_SACK_BLOCKS_WITH_TIMESTAMP else MAX_SACK_BLOCKS)
      in if length blocks > limit then take limit blocks else blocks)"

definition advertised_window :: "tcp_connection \<Rightarrow> u32" where
  "advertised_window c =
     (let occupied = receive_buffer_occupied c
      in if occupied < RECEIVE_BUFFER_CAPACITY then RECEIVE_BUFFER_CAPACITY - occupied else 0)"

definition seq_in_receive_window :: "u32 \<Rightarrow> tcp_connection \<Rightarrow> bool" where
  "seq_in_receive_window seq c =
     (let occupied = receive_buffer_occupied c;
          window = (if occupied < RECEIVE_BUFFER_CAPACITY then RECEIVE_BUFFER_CAPACITY - occupied else 0)
      in if window = 0 then seq = c_recv_next c else seq - c_recv_next c < window)"

definition build_header :: "u8 \<Rightarrow> u32 \<Rightarrow> tcp_connection \<Rightarrow> tcp" where
  "build_header flags seq c =
     (let available = advertised_window c;
          our_shift = (if c_window_scaling_negotiated c then WINDOW_SCALE_SHIFT else 0);
          window_value = min (drop_bit our_shift available) 0xFFFF
      in tcp_new (c_local_port c) (c_remote_port c) seq (c_recv_next c) 5 flags (ucast window_value) 0 0)"

definition with_sack_blocks :: "tcp_connection \<Rightarrow> tcp \<Rightarrow> tcp" where
  "with_sack_blocks c header =
     (let blocks = sack_blocks_to_report c in if blocks \<noteq> [] then tcp_set_sack_blocks blocks header else header)"

definition flagged_header :: "u8 \<Rightarrow> bool \<Rightarrow> tcp_connection \<Rightarrow> tcp" where
  "flagged_header flags include_ack c =
     (let full_flags = (if include_ack then flags OR FLAG_ACK else flags);
          header = build_header full_flags (c_send_next c) c;
          header = (if flags AND FLAG_SYN \<noteq> 0 then
                      tcp_set_sack_permitted_option
                        (tcp_set_timestamp_option (ucast (c_now_ms c)) (if c_have_ts_recent c then c_ts_recent c else 0)
                          (tcp_set_window_scale_option (of_nat WINDOW_SCALE_SHIFT)
                            (tcp_set_mss_option (c_local_mss c) header)))
                    else if c_timestamps_negotiated c
                    then tcp_set_timestamp_option (ucast (c_now_ms c)) (c_ts_recent c) header
                    else header)
      in if c_sack_permitted c \<and> flags AND FLAG_SYN = 0 then with_sack_blocks c header else header)"

definition sequence_length :: "u8 \<Rightarrow> bytes \<Rightarrow> nat" where
  "sequence_length flags payload =
     length payload + (if flags AND FLAG_SYN \<noteq> 0 then 1 else 0) + (if flags AND FLAG_FIN \<noteq> 0 then 1 else 0)"

definition send_flags :: "u8 \<Rightarrow> bytes \<Rightarrow> bool \<Rightarrow> tcp_connection \<Rightarrow> tcp_connection" where
  "send_flags flags payload include_ack c =
     (let seq = c_send_next c;
          full_flags = (if include_ack then flags OR FLAG_ACK else flags);
          c = emit (Segment (flagged_header flags include_ack c) payload) c;
          end_seq = seq + of_nat (sequence_length flags payload);
          entry = \<lparr>if_seq = seq, if_end_seq = end_seq, if_flags = full_flags, if_payload = payload,
                   if_retransmit_ms_remaining = c_rto_ms c, if_retransmit_attempts = 0,
                   if_sent_at_ms = c_now_ms c, if_sacked = False, if_retransmitted = False\<rparr>
      in c\<lparr>c_ack_pending := False, c_ack_delay_ms_remaining := 0, c_send_next := end_seq,
           c_unsacked_in_flight_bytes := c_unsacked_in_flight_bytes c + (end_seq - seq),
           c_in_flight := c_in_flight c @ [entry]\<rparr>)"

definition pure_ack_header :: "tcp_connection \<Rightarrow> tcp" where
  "pure_ack_header c =
     (let header = build_header FLAG_ACK (c_send_next c) c;
          header = (if c_timestamps_negotiated c
                    then tcp_set_timestamp_option (ucast (c_now_ms c)) (c_ts_recent c) header else header)
      in if c_sack_permitted c then with_sack_blocks c header else header)"

definition send_pure_ack :: "tcp_connection \<Rightarrow> tcp_connection" where
  "send_pure_ack c =
     (emit (Segment (pure_ack_header c) []) c)\<lparr>c_ack_pending := False, c_ack_delay_ms_remaining := 0\<rparr>"

definition schedule_or_send_ack :: "tcp_connection \<Rightarrow> tcp_connection" where
  "schedule_or_send_ack c =
     (if c_ack_pending c then send_pure_ack c
      else c\<lparr>c_ack_pending := True, c_ack_delay_ms_remaining := DELAYED_ACK_MS\<rparr>)"

section \<open>Opening\<close>

definition accept_incoming_syn :: "u32 \<Rightarrow> u16 \<Rightarrow> bool \<Rightarrow> u8 \<Rightarrow> bool \<Rightarrow> u32 \<Rightarrow> bool \<Rightarrow> tcp_connection \<Rightarrow> tcp_connection" where
  "accept_incoming_syn peer_isn peer_mss peer_supports_window_scaling peer_window_scale
     peer_supports_timestamps peer_timestamp peer_permits_sack c =
     (let mss = (if peer_mss \<noteq> 0 then peer_mss else DEFAULT_PEER_MSS);
          c = c\<lparr>c_sack_permitted := peer_permits_sack, c_recv_next := peer_isn + 1, c_peer_mss := mss,
                c_effective_mss := min (c_local_mss c) mss,
                c_window_scaling_negotiated := peer_supports_window_scaling,
                c_peer_window_scale := peer_window_scale, c_timestamps_negotiated := peer_supports_timestamps\<rparr>;
          c = (if peer_supports_timestamps then c\<lparr>c_ts_recent := peer_timestamp, c_have_ts_recent := True\<rparr> else c)
      in send_flags FLAG_SYN [] True (transition SYN_RECEIVED c))"

definition initiate_connect :: "tcp_connection \<Rightarrow> tcp_connection" where
  "initiate_connect c = send_flags FLAG_SYN [] False (transition SYN_SENT c)"

definition fail :: "tcp_connection \<Rightarrow> tcp_connection" where
  "fail c = transition CLOSED c"

section \<open>The application's reading side\<close>

definition set_data_ready_callback :: "bool \<Rightarrow> tcp_connection \<Rightarrow> tcp_connection" where
  "set_data_ready_callback callback c =
     (let c = c\<lparr>c_has_data_ready := callback\<rparr>
      in if callback \<and> c_receive_queued_bytes c > 0 then emit Data_ready c else c)"

fun take_queued :: "nat \<Rightarrow> bytes list \<Rightarrow> bytes \<Rightarrow> bytes \<times> bytes list" where
  "take_queued max_bytes [] taken = (taken, [])"
| "take_queued max_bytes (front # rest) taken =
     (if length taken < max_bytes then
        let room = max_bytes - length taken in
        if length front \<le> room then take_queued max_bytes rest (taken @ front)
        else (taken @ take room front, drop room front # rest)
      else (taken, front # rest))"

definition conn_read :: "nat \<Rightarrow> tcp_connection \<Rightarrow> bytes \<times> tcp_connection" where
  "conn_read max_bytes c =
     (let window_before = advertised_window c;
          (taken, queue) = take_queued max_bytes (c_receive_queue c) [];
          c = c\<lparr>c_receive_queue := queue, c_receive_queued_bytes := c_receive_queued_bytes c - length taken\<rparr>
      in (taken,
          if window_before = 0 \<and> advertised_window c > 0
             \<and> (c_state c = ESTABLISHED \<or> c_state c = FIN_WAIT_1 \<or> c_state c = FIN_WAIT_2)
          then send_pure_ack c else c))"

definition deliver :: "bytes \<Rightarrow> tcp_connection \<Rightarrow> tcp_connection" where
  "deliver payload c =
     (let c = c\<lparr>c_recv_next := c_recv_next c + of_nat (length payload),
                c_receive_queue := c_receive_queue c @ [payload],
                c_receive_queued_bytes := c_receive_queued_bytes c + length payload\<rparr>
      in if c_has_data_ready c then emit Data_ready c else c)"

definition reduce_effective_mss :: "u16 \<Rightarrow> tcp_connection \<Rightarrow> tcp_connection" where
  "reduce_effective_mss path_mss c =
     (let candidate = (if path_mss < DEFAULT_PEER_MSS then DEFAULT_PEER_MSS else path_mss)
      in if candidate \<ge> c_effective_mss c then c else c\<lparr>c_effective_mss := candidate\<rparr>)"


section \<open>Sending\<close>

definition arm_or_disarm_persist :: "tcp_connection \<Rightarrow> tcp_connection" where
  "arm_or_disarm_persist c =
     (if c_peer_window c = 0 \<and> c_send_queue c \<noteq> [] \<and> c_in_flight c = [] then
        if c_persist_ms_remaining c = 0
        then c\<lparr>c_persist_backoff := 0, c_persist_ms_remaining := PERSIST_BASE_MS\<rparr> else c
      else c\<lparr>c_persist_ms_remaining := 0, c_persist_backoff := 0\<rparr>)"

definition effective_window :: "tcp_connection \<Rightarrow> u32" where
  "effective_window c = min (cc_cwnd (c_congestion c)) (c_peer_window c)"

definition front_may_go :: "bytes \<Rightarrow> tcp_connection \<Rightarrow> bool" where
  "front_may_go front c \<longleftrightarrow>
     \<not> unat (c_unsacked_in_flight_bytes c) + length front > unat (effective_window c)
     \<and> \<not> (length front < unat (c_effective_mss c) \<and> c_unsacked_in_flight_bytes c > 0)"

fun send_queued_loop :: "bytes list \<Rightarrow> tcp_connection \<Rightarrow> tcp_connection" where
  "send_queued_loop [] c = c"
| "send_queued_loop (front # rest) c =
     (if front_may_go front c
      then send_queued_loop rest
             (send_flags 0 front True
               (c\<lparr>c_send_queue := rest, c_send_queued_bytes := c_send_queued_bytes c - length front\<rparr>))
      else c)"

definition send_queued_while_window_allows :: "tcp_connection \<Rightarrow> tcp_connection" where
  "send_queued_while_window_allows c = arm_or_disarm_persist (send_queued_loop (c_send_queue c) c)"

definition send_zero_window_probe :: "tcp_connection \<Rightarrow> tcp_connection" where
  "send_zero_window_probe c =
     (case c_send_queue c of
        [] \<Rightarrow> c
      | front # rest \<Rightarrow> emit (Segment (build_header FLAG_ACK (c_send_next c) c) (take 1 front)) c)"

definition send_space_available :: "tcp_connection \<Rightarrow> nat" where
  "send_space_available c =
     (if c_send_queued_bytes c < SEND_BUFFER_CAPACITY then SEND_BUFFER_CAPACITY - c_send_queued_bytes c else 0)"

definition bytes_unacked :: "tcp_connection \<Rightarrow> nat" where
  "bytes_unacked c = c_send_queued_bytes c + unat (c_unsacked_in_flight_bytes c)"

definition send_chunk :: "bytes \<Rightarrow> tcp_connection \<Rightarrow> tcp_connection" where
  "send_chunk chunk c =
     (let nagle_holds = length chunk < unat (c_effective_mss c) \<and> c_unsacked_in_flight_bytes c > 0 in
      if c_send_queue c \<noteq> [] \<or> nagle_holds
         \<or> unat (c_unsacked_in_flight_bytes c) + length chunk > unat (effective_window c)
      then c\<lparr>c_send_queued_bytes := c_send_queued_bytes c + length chunk, c_send_queue := c_send_queue c @ [chunk]\<rparr>
      else send_flags 0 chunk True c)"

text \<open>The splitting loop advances by the effective MSS, and does not end when that is zero.\<close>

partial_function (option) send_loop :: "bytes \<Rightarrow> nat \<Rightarrow> nat \<Rightarrow> tcp_connection \<Rightarrow> tcp_connection option" where
  "send_loop data accepted offset c =
     (if offset < accepted then
        let chunk_size = min (unat (c_effective_mss c)) (accepted - offset)
        in send_loop data accepted (offset + chunk_size) (send_chunk (take chunk_size (drop offset data)) c)
      else Some c)"

definition conn_send :: "bytes \<Rightarrow> tcp_connection \<Rightarrow> (nat \<times> tcp_connection) option" where
  "conn_send data c =
     (if c_state c \<noteq> ESTABLISHED \<and> c_state c \<noteq> CLOSE_WAIT then Some (0, c)
      else
        let accepted = min (length data) (send_space_available c) in
        if accepted = 0 then Some (0, c)
        else map_option (\<lambda>c. (accepted, arm_or_disarm_persist c)) (send_loop data accepted 0 c))"

definition conn_close :: "tcp_connection \<Rightarrow> tcp_connection" where
  "conn_close c =
     (if c_state c \<noteq> ESTABLISHED \<and> c_state c \<noteq> CLOSE_WAIT then c
      else if c_in_flight c \<noteq> [] \<or> c_send_queue c \<noteq> [] then c\<lparr>c_fin_requested := True\<rparr>
      else send_flags FLAG_FIN [] True
             (transition (if c_state c = ESTABLISHED then FIN_WAIT_1 else LAST_ACK) c))"

section \<open>Keepalive\<close>

definition reset_keepalive :: "tcp_connection \<Rightarrow> tcp_connection" where
  "reset_keepalive c =
     c\<lparr>c_keepalive_idle_ms_remaining := KEEPALIVE_IDLE_MS, c_keepalive_probe_ms_remaining := 0,
       c_keepalive_probes_sent := 0\<rparr>"

definition set_keepalive :: "bool \<Rightarrow> tcp_connection \<Rightarrow> tcp_connection" where
  "set_keepalive enabled c = reset_keepalive (c\<lparr>c_keepalive_enabled := enabled\<rparr>)"

definition send_keepalive_probe :: "tcp_connection \<Rightarrow> tcp_connection" where
  "send_keepalive_probe c =
     (emit (Segment (build_header FLAG_ACK (c_send_next c - 1) c) []) c)
       \<lparr>c_keepalive_probes_sent := c_keepalive_probes_sent c + 1,
        c_keepalive_probe_ms_remaining := KEEPALIVE_PROBE_INTERVAL_MS\<rparr>"

definition run_keepalive :: "u32 \<Rightarrow> tcp_connection \<Rightarrow> tcp_connection" where
  "run_keepalive elapsed_ms c =
     (if \<not> c_keepalive_enabled c \<or> c_state c \<noteq> ESTABLISHED then c
      else if c_keepalive_probes_sent c > 0 then
        let c = c\<lparr>c_keepalive_probe_ms_remaining := c_keepalive_probe_ms_remaining c - sint elapsed_ms\<rparr> in
        if c_keepalive_probe_ms_remaining c > 0 then c
        else if c_keepalive_probes_sent c \<ge> KEEPALIVE_MAX_PROBES then transition CLOSED c
        else send_keepalive_probe c
      else
        let c = c\<lparr>c_keepalive_idle_ms_remaining := c_keepalive_idle_ms_remaining c - sint elapsed_ms\<rparr> in
        if c_keepalive_idle_ms_remaining c \<le> 0 then send_keepalive_probe c else c)"

section \<open>Round-trip estimation\<close>

definition smooth_rtt :: "u32 \<Rightarrow> tcp_connection \<Rightarrow> tcp_connection" where
  "smooth_rtt sample_scaled c =
     (if \<not> c_has_rtt_sample c
      then c\<lparr>c_srtt_scaled := sample_scaled, c_rttvar_scaled := sample_scaled div 2, c_has_rtt_sample := True\<rparr>
      else
        let error = (if sample_scaled > c_srtt_scaled c then sample_scaled - c_srtt_scaled c
                     else c_srtt_scaled c - sample_scaled)
        in c\<lparr>c_rttvar_scaled := c_rttvar_scaled c - drop_bit RTT_VARIANCE_SHIFT (c_rttvar_scaled c)
                                  + drop_bit RTT_VARIANCE_SHIFT error,
             c_srtt_scaled := c_srtt_scaled c - drop_bit RTT_SMOOTHING_SHIFT (c_srtt_scaled c)
                                + drop_bit RTT_SMOOTHING_SHIFT sample_scaled\<rparr>)"

definition estimated_rto :: "u32 \<Rightarrow> u32 \<Rightarrow> int" where
  "estimated_rto srtt_scaled rttvar_scaled =
     (let variance_term = max (RTO_CLOCK_GRANULARITY_MS * RTO_SCALE) (RTO_VARIANCE_MULTIPLIER * rttvar_scaled);
          rto_scaled = srtt_scaled + variance_term;
          rto = sint ((rto_scaled + RTO_SCALE - 1) div RTO_SCALE)
      in min (max rto MIN_RTO_MS) MAX_RTO_MS)"

definition update_rto_from_sample :: "u32 \<Rightarrow> tcp_connection \<Rightarrow> tcp_connection" where
  "update_rto_from_sample rtt_ms c =
     (let rtt_ms = (if rtt_ms < RTO_CLOCK_GRANULARITY_MS then RTO_CLOCK_GRANULARITY_MS else rtt_ms);
          c = smooth_rtt (rtt_ms * RTO_SCALE) c
      in c\<lparr>c_rto_ms := estimated_rto (c_srtt_scaled c) (c_rttvar_scaled c)\<rparr>)"

section \<open>Acknowledgements\<close>

definition mark_sacked :: "sack_block \<Rightarrow> in_flight_segment \<Rightarrow> in_flight_segment" where
  "mark_sacked block entry =
     (if \<not> if_sacked entry \<and> seq_at_or_before (sb_start block) (if_seq entry)
           \<and> seq_at_or_before (if_end_seq entry) (sb_end block)
      then entry\<lparr>if_sacked := True\<rparr> else entry)"

fun sack_entries :: "sack_block \<Rightarrow> in_flight_segment list \<Rightarrow> u32 \<Rightarrow> bool \<Rightarrow> in_flight_segment list \<times> u32 \<times> bool" where
  "sack_entries block [] unsacked marked = ([], unsacked, marked)"
| "sack_entries block (entry # rest) unsacked marked =
     (let entry' = mark_sacked block entry;
          newly = (if_sacked entry' \<noteq> if_sacked entry);
          (rest', unsacked', marked') =
            sack_entries block rest (if newly then unsacked - (if_end_seq entry - if_seq entry) else unsacked)
              (marked \<or> newly)
      in (entry' # rest', unsacked', marked'))"

fun sack_all :: "sack_block list \<Rightarrow> in_flight_segment list \<Rightarrow> u32 \<Rightarrow> bool \<Rightarrow> in_flight_segment list \<times> u32 \<times> bool" where
  "sack_all [] entries unsacked marked = (entries, unsacked, marked)"
| "sack_all (block # blocks) entries unsacked marked =
     (let (entries, unsacked, marked) = sack_entries block entries unsacked marked
      in sack_all blocks entries unsacked marked)"

definition apply_sack_blocks :: "tcp \<Rightarrow> tcp_connection \<Rightarrow> bool \<times> tcp_connection" where
  "apply_sack_blocks segment c =
     (if \<not> c_sack_permitted c \<or> tcp_sack_blocks segment = [] then (False, c)
      else
        let (entries, unsacked, marked) =
              sack_all (tcp_sack_blocks segment) (c_in_flight c) (c_unsacked_in_flight_bytes c) False
        in (marked, c\<lparr>c_in_flight := entries, c_unsacked_in_flight_bytes := unsacked\<rparr>))"

fun oldest_unsacked_segment :: "in_flight_segment list \<Rightarrow> in_flight_segment option" where
  "oldest_unsacked_segment [] = None"
| "oldest_unsacked_segment (e # es) = (if \<not> if_sacked e then Some e else oldest_unsacked_segment es)"

text \<open>A write through the pointer \<open>_oldest_unsacked_segment\<close> returns.\<close>

fun update_oldest :: "(in_flight_segment \<Rightarrow> in_flight_segment) \<Rightarrow> in_flight_segment list \<Rightarrow> in_flight_segment list" where
  "update_oldest f [] = []"
| "update_oldest f (e # es) = (if \<not> if_sacked e then f e # es else e # update_oldest f es)"

definition resend :: "in_flight_segment \<Rightarrow> tcp_connection \<Rightarrow> tcp_connection" where
  "resend oldest c =
     (let c = emit (Segment (build_header (if_flags oldest) (if_seq oldest) c) (if_payload oldest)) c
      in c\<lparr>c_in_flight := update_oldest (\<lambda>e. e\<lparr>if_retransmitted := True, if_retransmit_ms_remaining := c_rto_ms c\<rparr>)
             (c_in_flight c)\<rparr>)"

definition handle_duplicate_ack :: "bool \<Rightarrow> tcp_connection \<Rightarrow> tcp_connection" where
  "handle_duplicate_ack sack_advanced c =
     (let c = c\<lparr>c_dup_ack_count := c_dup_ack_count c + 1\<rparr> in
      if c_dup_ack_count c = DUP_ACK_FAST_RETRANSMIT_THRESHOLD then
        (case oldest_unsacked_segment (c_in_flight c) of
           None \<Rightarrow> c
         | Some oldest \<Rightarrow>
             let c = resend oldest c
             in c\<lparr>c_congestion := cc_on_fast_retransmit (c_unsacked_in_flight_bytes c)
                                   DUP_ACK_FAST_RETRANSMIT_THRESHOLD (c_congestion c),
                  c_in_fast_recovery := True\<rparr>)
      else if c_in_fast_recovery c \<or> sack_advanced
      then send_queued_while_window_allows (c\<lparr>c_congestion := cc_on_recovery_inflate (c_congestion c)\<rparr>)
      else c)"

record acked =
  ak_bytes :: u32
  ak_fin :: bool
  ak_anything :: bool
  ak_have_rtt :: bool
  ak_rtt_ms :: u32
  ak_unsacked :: u32

fun retire_acked :: "u32 \<Rightarrow> u64 \<Rightarrow> in_flight_segment list \<Rightarrow> acked \<Rightarrow> in_flight_segment list \<times> acked" where
  "retire_acked ack now_ms [] a = ([], a)"
| "retire_acked ack now_ms (front # rest) a =
     (if seq_at_or_before (if_end_seq front) ack
      then retire_acked ack now_ms rest
             (a\<lparr>ak_bytes := ak_bytes a + (if_end_seq front - if_seq front),
                ak_fin := ak_fin a \<or> if_flags front AND FLAG_FIN \<noteq> 0,
                ak_anything := True,
                ak_have_rtt := ak_have_rtt a \<or> \<not> if_retransmitted front,
                ak_rtt_ms := (if \<not> if_retransmitted front then ucast (now_ms - if_sent_at_ms front) else ak_rtt_ms a),
                ak_unsacked := (if \<not> if_sacked front then ak_unsacked a - (if_end_seq front - if_seq front)
                                else ak_unsacked a)\<rparr>)
      else (front # rest, a))"

definition take_rtt_sample :: "tcp \<Rightarrow> acked \<Rightarrow> tcp_connection \<Rightarrow> tcp_connection" where
  "take_rtt_sample segment a c =
     (if c_timestamps_negotiated c \<and> tcp_has_timestamp_option segment \<and> ak_anything a then
        let echo = tcp_timestamp_echo segment in
        if echo \<noteq> 0 \<and> seq_at_or_before echo (ucast (c_now_ms c))
        then update_rto_from_sample (ucast (c_now_ms c) - echo) c else c
      else if ak_have_rtt a then update_rto_from_sample (ak_rtt_ms a) c
      else c)"

definition grow_window :: "acked \<Rightarrow> tcp_connection \<Rightarrow> tcp_connection" where
  "grow_window a c =
     (if c_in_fast_recovery c
      then c\<lparr>c_congestion := cc_on_recovery_end (c_congestion c), c_in_fast_recovery := False\<rparr>
      else
        let srtt_ms = (if c_has_rtt_sample c then c_srtt_scaled c div RTO_SCALE else 0)
        in c\<lparr>c_congestion := cc_on_ack (ak_bytes a) srtt_ms (c_now_ms c) (c_congestion c)\<rparr>)"

definition resume_sending :: "tcp_connection \<Rightarrow> tcp_connection" where
  "resume_sending c =
     (let c = send_queued_while_window_allows c in
      if c_in_flight c = [] \<and> c_send_queue c = [] \<and> c_fin_requested c
      then conn_close (c\<lparr>c_fin_requested := False\<rparr>) else c)"

definition handle_new_ack :: "tcp \<Rightarrow> tcp_connection \<Rightarrow> tcp_connection" where
  "handle_new_ack segment c =
     (let c = c\<lparr>c_dup_ack_count := 0\<rparr>;
          (entries, a) = retire_acked (tcp_acknowledgement_number segment) (c_now_ms c) (c_in_flight c)
             \<lparr>ak_bytes = 0, ak_fin = False, ak_anything = False, ak_have_rtt = False, ak_rtt_ms = 0,
              ak_unsacked = c_unsacked_in_flight_bytes c\<rparr>;
          c = c\<lparr>c_in_flight := entries, c_unsacked_in_flight_bytes := ak_unsacked a\<rparr>;
          c = take_rtt_sample segment a c
      in if \<not> ak_anything a then
           if c_peer_window c > 0 \<and> c_in_flight c = [] \<and> c_send_queue c \<noteq> []
           then send_queued_while_window_allows c else arm_or_disarm_persist c
         else
           let c = grow_window a c in
           if ak_fin a \<and> c_state c = FIN_WAIT_1 then transition FIN_WAIT_2 c
           else if ak_fin a \<and> c_state c = CLOSING
           then (transition TIME_WAIT c)\<lparr>c_time_wait_ms_remaining := TIME_WAIT_MS\<rparr>
           else if ak_fin a \<and> c_state c = LAST_ACK then transition CLOSED c
           else resume_sending c)"

definition handle_ack :: "tcp \<Rightarrow> tcp_connection \<Rightarrow> tcp_connection" where
  "handle_ack segment c =
     (let (sack_advanced, c) = apply_sack_blocks segment c;
          peer_shift = (if c_window_scaling_negotiated c then unat (c_peer_window_scale c) else 0);
          c = c\<lparr>c_peer_window := push_bit peer_shift (ucast (tcp_window segment))\<rparr>
      in if c_in_flight c \<noteq> [] \<and> tcp_acknowledgement_number segment = if_seq (hd (c_in_flight c))
         then handle_duplicate_ack sack_advanced c
         else handle_new_ack segment c)"

section \<open>Incoming segments\<close>

definition handle_fin :: "u32 \<Rightarrow> tcp_connection \<Rightarrow> tcp_connection" where
  "handle_fin fin_seq c =
     (if c_state c = TIME_WAIT then (send_pure_ack c)\<lparr>c_time_wait_ms_remaining := TIME_WAIT_MS\<rparr>
      else if fin_seq \<noteq> c_recv_next c then send_pure_ack c
      else
        let c = c\<lparr>c_recv_next := c_recv_next c + 1\<rparr> in
        if c_state c = ESTABLISHED then send_pure_ack (transition CLOSE_WAIT c)
        else if c_state c = FIN_WAIT_2
        then (transition TIME_WAIT (send_pure_ack c))\<lparr>c_time_wait_ms_remaining := TIME_WAIT_MS\<rparr>
        else if c_state c = FIN_WAIT_1 then transition CLOSING (send_pure_ack c)
        else c)"

definition handle_rst :: "tcp \<Rightarrow> tcp_connection \<Rightarrow> tcp_connection" where
  "handle_rst segment c =
     (if c_state c \<in> {ESTABLISHED, FIN_WAIT_1, FIN_WAIT_2, CLOSE_WAIT, CLOSING, LAST_ACK}
         \<and> \<not> seq_in_receive_window (tcp_sequence_number segment) c
      then c else transition CLOSED c)"

definition handle_syn_sent :: "tcp \<Rightarrow> tcp_connection \<Rightarrow> tcp_connection" where
  "handle_syn_sent segment c =
     (if tcp_syn segment \<and> tcp_ack segment \<and> tcp_acknowledgement_number segment = c_send_next c then
        let peer_mss = (if tcp_has_mss_option segment then tcp_mss_option segment else DEFAULT_PEER_MSS);
            scaling = tcp_has_window_scale_option segment;
            shift = (if scaling then tcp_window_scale_option segment else 0);
            c = c\<lparr>c_recv_next := tcp_sequence_number segment + 1, c_in_flight := [],
                  c_unsacked_in_flight_bytes := 0, c_peer_mss := peer_mss,
                  c_effective_mss := min (c_local_mss c) peer_mss, c_window_scaling_negotiated := scaling,
                  c_peer_window_scale := shift, c_sack_permitted := tcp_has_sack_permitted_option segment,
                  c_timestamps_negotiated := tcp_has_timestamp_option segment\<rparr>;
            c = (if c_timestamps_negotiated c
                 then c\<lparr>c_ts_recent := tcp_timestamp_value segment, c_have_ts_recent := True\<rparr> else c);
            c = c\<lparr>c_peer_window := push_bit (unat shift) (ucast (tcp_window segment)),
                  c_congestion := cc_on_established (ucast (c_effective_mss c)) (c_congestion c)\<rparr>
        in send_pure_ack (transition ESTABLISHED c)
      else c)"

definition handle_syn_received :: "tcp \<Rightarrow> tcp_connection \<Rightarrow> tcp_connection" where
  "handle_syn_received segment c =
     (if tcp_ack segment \<and> tcp_acknowledgement_number segment = c_send_next c then
        let peer_shift = (if c_window_scaling_negotiated c then unat (c_peer_window_scale c) else 0)
        in transition ESTABLISHED
             (c\<lparr>c_in_flight := [], c_unsacked_in_flight_bytes := 0,
                c_peer_window := push_bit peer_shift (ucast (tcp_window segment)),
                c_congestion := cc_on_established (ucast (c_effective_mss c)) (c_congestion c)\<rparr>)
      else c)"

definition paws_rejects :: "tcp \<Rightarrow> tcp_connection \<Rightarrow> bool" where
  "paws_rejects segment c \<longleftrightarrow>
     c_timestamps_negotiated c \<and> tcp_has_timestamp_option segment \<and> c_have_ts_recent c
     \<and> seq_at_or_before (tcp_timestamp_value segment) (c_ts_recent c)
     \<and> tcp_timestamp_value segment \<noteq> c_ts_recent c"

definition record_timestamp :: "tcp \<Rightarrow> tcp_connection \<Rightarrow> tcp_connection" where
  "record_timestamp segment c =
     (if c_timestamps_negotiated c \<and> tcp_has_timestamp_option segment
         \<and> (\<not> c_have_ts_recent c \<or> tcp_sequence_number segment = c_recv_next c)
      then c\<lparr>c_ts_recent := tcp_timestamp_value segment, c_have_ts_recent := True\<rparr> else c)"

function drain_reorder_buffer :: "tcp_connection \<Rightarrow> tcp_connection" where
  "drain_reorder_buffer c =
     (case map_of (c_reorder_buffer c) (c_recv_next c) of
        None \<Rightarrow> c
      | Some buffered \<Rightarrow>
          drain_reorder_buffer
            (deliver buffered (c\<lparr>c_reorder_buffer := AList.delete (c_recv_next c) (c_reorder_buffer c)\<rparr>)))"
  by pat_completeness auto

text \<open>\<open>std::map\<close> keeps its entries in key order.\<close>

fun map_insert :: "u32 \<Rightarrow> bytes \<Rightarrow> (u32 \<times> bytes) list \<Rightarrow> (u32 \<times> bytes) list" where
  "map_insert k d [] = [(k, d)]"
| "map_insert k d ((k', d') # es) = (if k < k' then (k, d) # (k', d') # es else (k', d') # map_insert k d es)"

lemma deliver_reorder [simp]: "c_reorder_buffer (deliver d c) = c_reorder_buffer c"
  by (simp add: deliver_def emit_def Let_def)

lemma length_delete_found: "map_of es k = Some d \<Longrightarrow> length (AList.delete k es) < length es"
proof (induction es)
  case (Cons e es)
  have "length (AList.delete k es) \<le> length es" by (rule length_delete_le)
  then show ?case using Cons by (cases e) (simp split: if_splits)
qed simp

termination drain_reorder_buffer
  by (relation "measure (\<lambda>c. length (c_reorder_buffer c))") (simp_all add: length_delete_found)

definition receive_payload :: "u32 \<Rightarrow> bytes \<Rightarrow> tcp_connection \<Rightarrow> tcp_connection" where
  "receive_payload seq payload c =
     (if seq = c_recv_next c then schedule_or_send_ack (drain_reorder_buffer (deliver payload c))
      else if seq > c_recv_next c then
        send_pure_ack
          (if map_of (c_reorder_buffer c) seq = None \<and> seq_in_receive_window seq c
           then c\<lparr>c_reorder_buffer := map_insert seq payload (c_reorder_buffer c), c_last_out_of_order_seq := seq\<rparr>
           else c)
      else
        let already_seen = c_recv_next c - seq in
        send_pure_ack
          (if unat already_seen < length payload
           then drain_reorder_buffer (deliver (drop (unat already_seen) payload) c) else c))"

definition process_segment :: "tcp \<Rightarrow> tcp_connection \<Rightarrow> tcp_connection" where
  "process_segment segment c =
     (let c = (if tcp_ack segment then handle_ack segment c else c);
          payload = (case tcp_next_layer segment of Some data \<Rightarrow> data | None \<Rightarrow> []);
          seq = tcp_sequence_number segment;
          c = (if c_state c \<in> {ESTABLISHED, FIN_WAIT_1, FIN_WAIT_2} \<and> payload \<noteq> []
               then receive_payload seq payload c else c)
      in if tcp_fin segment then handle_fin (seq + of_nat (length payload)) c else c)"

definition on_segment :: "tcp \<Rightarrow> tcp_connection \<Rightarrow> tcp_connection" where
  "on_segment segment c =
     (let c = reset_keepalive c in
      if tcp_rst segment then handle_rst segment c
      else if c_state c = SYN_SENT then handle_syn_sent segment c
      else if c_state c = SYN_RECEIVED then handle_syn_received segment c
      else if c_state c = CLOSED then c
      else if paws_rejects segment c then send_pure_ack c
      else process_segment segment (record_timestamp segment c))"

section \<open>Time\<close>

definition run_delayed_ack :: "u32 \<Rightarrow> tcp_connection \<Rightarrow> tcp_connection" where
  "run_delayed_ack elapsed_ms c =
     (if c_ack_pending c then
        let c = c\<lparr>c_ack_delay_ms_remaining := c_ack_delay_ms_remaining c - sint elapsed_ms\<rparr>
        in if c_ack_delay_ms_remaining c \<le> 0 then send_pure_ack c else c
      else c)"

definition run_persist :: "u32 \<Rightarrow> tcp_connection \<Rightarrow> tcp_connection" where
  "run_persist elapsed_ms c =
     (let c = c\<lparr>c_persist_ms_remaining := c_persist_ms_remaining c - sint elapsed_ms\<rparr> in
      if c_persist_ms_remaining c \<le> 0 then
        let c = send_zero_window_probe c;
            c = c\<lparr>c_persist_backoff := min (c_persist_backoff c + 1) PERSIST_MAX_BACKOFF_SHIFT\<rparr>
        in c\<lparr>c_persist_ms_remaining := PERSIST_BASE_MS * 2 ^ c_persist_backoff c\<rparr>
      else c)"

definition run_retransmit :: "u32 \<Rightarrow> tcp_connection \<Rightarrow> tcp_connection" where
  "run_retransmit elapsed_ms c =
     (case oldest_unsacked_segment (c_in_flight c) of
        None \<Rightarrow> c
      | Some oldest \<Rightarrow>
          let remaining = if_retransmit_ms_remaining oldest - sint elapsed_ms;
              c = c\<lparr>c_in_flight := update_oldest (\<lambda>e. e\<lparr>if_retransmit_ms_remaining := remaining\<rparr>) (c_in_flight c)\<rparr>
          in if remaining > 0 then c
             else
               let attempts = if_retransmit_attempts oldest + 1;
                   c = c\<lparr>c_in_flight := update_oldest (\<lambda>e. e\<lparr>if_retransmit_attempts := attempts\<rparr>) (c_in_flight c)\<rparr>
               in if attempts > MAX_RETRANSMIT_ATTEMPTS then transition CLOSED c
                  else resend oldest
                         (c\<lparr>c_congestion := cc_on_retransmit_timeout (c_unsacked_in_flight_bytes c) (c_congestion c),
                            c_in_fast_recovery := False, c_dup_ack_count := 0,
                            c_rto_ms := min (c_rto_ms c * 2) MAX_RTO_MS\<rparr>))"

definition on_time_passed :: "u32 \<Rightarrow> tcp_connection \<Rightarrow> tcp_connection" where
  "on_time_passed elapsed_ms c =
     (if c_state c = CLOSED then c
      else
        let c = c\<lparr>c_now_ms := c_now_ms c + ucast elapsed_ms\<rparr> in
        if c_state c = TIME_WAIT then
          let c = c\<lparr>c_time_wait_ms_remaining := c_time_wait_ms_remaining c - sint elapsed_ms\<rparr>
          in if c_time_wait_ms_remaining c \<le> 0 then transition CLOSED c else c
        else
          let c = run_delayed_ack elapsed_ms c in
          if c_in_flight c = [] then
            if c_persist_ms_remaining c > 0 then run_persist elapsed_ms c else run_keepalive elapsed_ms c
          else run_retransmit elapsed_ms c)"

end
