(* ===== verification/Tcp_Sender.thy ===== *)
theory Tcp_Sender
  imports Tcp_Connection
begin

text \<open>
  The sending half of a connection, over every operation of \<open>Tcp_Connection\<close>: whatever leaves through
  \<open>_send_segment\<close> (first transmissions, retransmissions, window probes, keepalives, acknowledgements)
  is the stretch of the application's byte stream at its sequence number. The invariant \<open>sender_inv\<close>
  ties the log of emitted segments, the in-flight deque and the send queue to the bytes that
  \<open>send\<close> accepted. Each lemma takes one operation.
\<close>


section \<open>Headers\<close>

lemma flag_or_ack [simp]:
  "(f OR FLAG_ACK) AND FLAG_FIN = f AND FLAG_FIN" "(f OR FLAG_ACK) AND FLAG_SYN = f AND FLAG_SYN"
  by (simp_all add: bit.conj_disj_distrib2 FLAG_ACK_def FLAG_FIN_def FLAG_SYN_def)

lemma flag_values [simp]:
  "FLAG_SYN AND FLAG_FIN = 0" "FLAG_FIN AND FLAG_SYN = 0" "FLAG_ACK AND FLAG_FIN = 0" "FLAG_ACK AND FLAG_SYN = 0"
  "FLAG_FIN AND FLAG_FIN \<noteq> 0" "FLAG_SYN AND FLAG_SYN \<noteq> 0" "FLAG_FIN \<noteq> 0" "FLAG_SYN \<noteq> 0"
  by (simp_all add: FLAG_ACK_def FLAG_FIN_def FLAG_SYN_def)

lemma tcp_new_fields [simp]:
  "tcp_sequence_number (tcp_new sp dp s a o' f w ck u) = s"
  "tcp_acknowledgement_number (tcp_new sp dp s a o' f w ck u) = a"
  "tcp_fin (tcp_new sp dp s a o' f w ck u) \<longleftrightarrow> f AND FLAG_FIN \<noteq> 0"
  "tcp_syn (tcp_new sp dp s a o' f w ck u) \<longleftrightarrow> f AND FLAG_SYN \<noteq> 0"
  by (simp_all add: tcp_new_def FLAG_FIN_def FLAG_SYN_def)

lemma build_header_fields [simp]:
  "tcp_sequence_number (build_header f s c) = s"
  "tcp_acknowledgement_number (build_header f s c) = c_recv_next c"
  "tcp_fin (build_header f s c) \<longleftrightarrow> f AND FLAG_FIN \<noteq> 0"
  "tcp_syn (build_header f s c) \<longleftrightarrow> f AND FLAG_SYN \<noteq> 0"
  by (simp_all add: build_header_def Let_def)

lemma with_sack_blocks_fields [simp]:
  "tcp_sequence_number (with_sack_blocks c h) = tcp_sequence_number h"
  "tcp_acknowledgement_number (with_sack_blocks c h) = tcp_acknowledgement_number h"
  "tcp_fin (with_sack_blocks c h) = tcp_fin h" "tcp_syn (with_sack_blocks c h) = tcp_syn h"
  by (simp_all add: with_sack_blocks_def tcp_set_sack_blocks_def Let_def)

lemmas option_setters = tcp_set_sack_permitted_option_def tcp_set_timestamp_option_def
  tcp_set_window_scale_option_def tcp_set_mss_option_def

lemma flagged_header_fields [simp]:
  "tcp_sequence_number (flagged_header f i c) = c_send_next c"
  "tcp_acknowledgement_number (flagged_header f i c) = c_recv_next c"
  "tcp_fin (flagged_header f i c) \<longleftrightarrow> f AND FLAG_FIN \<noteq> 0"
  "tcp_syn (flagged_header f i c) \<longleftrightarrow> f AND FLAG_SYN \<noteq> 0"
  by (simp_all add: flagged_header_def Let_def option_setters)

lemma pure_ack_header_fields [simp]:
  "tcp_sequence_number (pure_ack_header c) = c_send_next c"
  "tcp_acknowledgement_number (pure_ack_header c) = c_recv_next c"
  "\<not> tcp_fin (pure_ack_header c)" "\<not> tcp_syn (pure_ack_header c)"
  by (simp_all add: pure_ack_header_def Let_def option_setters)

section \<open>What a sender may emit\<close>

text \<open>
  A segment belongs to the byte stream \<open>w\<close> written on a connection with initial sequence number \<open>iss\<close>:
  a SYN sits at \<open>iss\<close> and carries nothing, a FIN sits one past the complete stream, and data is the
  stretch of the stream at its sequence number.
\<close>

definition in_stream :: "u32 \<Rightarrow> bytes \<Rightarrow> bool \<Rightarrow> u32 \<Rightarrow> bool \<Rightarrow> bool \<Rightarrow> bytes \<Rightarrow> bool" where
  "in_stream iss w ended seq syn fin p \<longleftrightarrow>
     (syn \<longrightarrow> seq = iss \<and> \<not> fin \<and> p = [])
     \<and> (fin \<longrightarrow> ended \<and> p = [] \<and> seq = iss + 1 + of_nat (length w))
     \<and> (p \<noteq> [] \<longrightarrow> (\<exists>q. q + length p \<le> length w \<and> seq = iss + 1 + of_nat q \<and> p = take (length p) (drop q w)))"

definition segment_in_stream :: "u32 \<Rightarrow> bytes \<Rightarrow> bool \<Rightarrow> tcp \<Rightarrow> bytes \<Rightarrow> bool" where
  "segment_in_stream iss w ended h p = in_stream iss w ended (tcp_sequence_number h) (tcp_syn h) (tcp_fin h) p"

definition entry_in_stream :: "u32 \<Rightarrow> bytes \<Rightarrow> bool \<Rightarrow> in_flight_segment \<Rightarrow> bool" where
  "entry_in_stream iss w ended e =
     in_stream iss w ended (if_seq e) (if_flags e AND FLAG_SYN \<noteq> 0) (if_flags e AND FLAG_FIN \<noteq> 0) (if_payload e)"

definition header_fits :: "tcp \<Rightarrow> bool" where
  "header_fits h \<longleftrightarrow> (tcp_has_window_scale_option h \<longrightarrow> tcp_window_scale_option h \<le> MAX_WINDOW_SCALE)"

lemma header_fits_built [simp]:
  "header_fits (build_header f q c)" "header_fits (flagged_header f i c)" "header_fits (pure_ack_header c)"
  by (simp_all add: header_fits_def build_header_def tcp_new_def flagged_header_def pure_ack_header_def option_setters
      with_sack_blocks_def tcp_set_sack_blocks_def Let_def WINDOW_SCALE_SHIFT_def MAX_WINDOW_SCALE_def)

fun event_in_stream :: "u32 \<Rightarrow> bytes \<Rightarrow> bool \<Rightarrow> tcp_event \<Rightarrow> bool" where
  "event_in_stream iss w ended (Segment h p) = (segment_in_stream iss w ended h p \<and> header_fits h)"
| "event_in_stream iss w ended (State_changed s) = True"
| "event_in_stream iss w ended Data_ready = True"

fun event_is_fin :: "tcp_event \<Rightarrow> bool" where
  "event_is_fin (Segment h p) = tcp_fin h"
| "event_is_fin (State_changed s) = False"
| "event_is_fin Data_ready = False"

definition fin_emitted :: "tcp_connection \<Rightarrow> bool" where
  "fin_emitted c \<longleftrightarrow> list_ex event_is_fin (c_events c)"

lemma in_stream_extend:
  assumes "in_stream iss w False seq syn fin p"
  shows "in_stream iss (w @ x) b seq syn fin p"
proof -
  have "\<exists>q. q + length p \<le> length (w @ x) \<and> seq = iss + 1 + of_nat q \<and> p = take (length p) (drop q (w @ x))" if "p \<noteq> []"
  proof -
    from assms that obtain q where "q + length p \<le> length w" "seq = iss + 1 + of_nat q" "p = take (length p) (drop q w)"
      by (auto simp: in_stream_def)
    then show ?thesis by (intro exI [of _ q]) simp
  qed
  then show ?thesis using assms by (simp add: in_stream_def)
qed

lemma in_stream_end: "in_stream iss w False seq syn fin p \<Longrightarrow> in_stream iss w b seq syn fin p"
  using in_stream_extend [of iss w seq syn fin p "[]" b] by simp

lemma in_stream_next:
  "drop n w = p @ r \<Longrightarrow> n \<le> length w \<Longrightarrow> in_stream iss w ended (iss + 1 + of_nat n) False False p"
proof -
  assume d: "drop n w = p @ r" and n: "n \<le> length w"
  have "length p \<le> length w - n" using arg_cong [OF d, of length] by simp
  then show ?thesis unfolding in_stream_def using d n by (auto intro!: exI [of _ n])
qed

lemma in_stream_nil [simp]: "in_stream iss w ended seq False False []"
  by (simp add: in_stream_def)

definition before_fin :: "tcp_state set" where
  "before_fin = {LISTEN, SYN_SENT, SYN_RECEIVED, ESTABLISHED, CLOSE_WAIT}"

definition queue_at :: "u32 \<Rightarrow> bytes \<Rightarrow> tcp_connection \<Rightarrow> bool" where
  "queue_at iss w c \<longleftrightarrow>
     (\<exists>n \<le> length w. drop n w = concat (c_send_queue c) \<and> c_send_next c = iss + 1 + of_nat n)"

definition extends :: "tcp_event list \<Rightarrow> tcp_event list \<Rightarrow> bool" where
  "extends hist es \<longleftrightarrow> take (length hist) es = hist"

lemma extends_append [simp]: "extends hist es \<Longrightarrow> extends hist (es @ x)"
  unfolding extends_def by (metis append_Nil2 append_take_drop_id append_eq_append_conv2 append.assoc append_eq_conv_conj)

lemma extends_refl [simp]: "extends es es"
  by (simp add: extends_def)

definition sender_inv :: "u32 \<Rightarrow> tcp_event list \<Rightarrow> bytes \<Rightarrow> tcp_connection \<Rightarrow> bool" where
  "sender_inv iss hist w c \<longleftrightarrow>
     extends hist (c_events c)
     \<and> list_all (event_in_stream iss w (fin_emitted c)) (c_events c)
     \<and> list_all (entry_in_stream iss w (fin_emitted c)) (c_in_flight c)
     \<and> (fin_emitted c \<longrightarrow> c_state c \<notin> before_fin \<and> c_send_queue c = [])
     \<and> (\<not> fin_emitted c \<longrightarrow> c_state c \<in> before_fin \<union> {CLOSED})
     \<and> (c_state c \<in> {LISTEN, SYN_SENT, SYN_RECEIVED} \<longrightarrow> w = [] \<and> c_send_queue c = [])
     \<and> (c_state c = LISTEN \<longrightarrow> c_send_next c = iss)
     \<and> (\<not> fin_emitted c \<and> (c_send_queue c \<noteq> [] \<or> c_state c \<in> before_fin - {LISTEN}) \<longrightarrow> queue_at iss w c)"

lemma fin_emitted_frame [simp]:
  "fin_emitted (c\<lparr>c_id := v0\<rparr>) = fin_emitted c"
  "fin_emitted (c\<lparr>c_local_port := v1\<rparr>) = fin_emitted c"
  "fin_emitted (c\<lparr>c_remote_ip := v2\<rparr>) = fin_emitted c"
  "fin_emitted (c\<lparr>c_remote_port := v3\<rparr>) = fin_emitted c"
  "fin_emitted (c\<lparr>c_state := v4\<rparr>) = fin_emitted c"
  "fin_emitted (c\<lparr>c_send_next := v5\<rparr>) = fin_emitted c"
  "fin_emitted (c\<lparr>c_recv_next := v6\<rparr>) = fin_emitted c"
  "fin_emitted (c\<lparr>c_in_flight := v7\<rparr>) = fin_emitted c"
  "fin_emitted (c\<lparr>c_unsacked_in_flight_bytes := v8\<rparr>) = fin_emitted c"
  "fin_emitted (c\<lparr>c_send_queue := v9\<rparr>) = fin_emitted c"
  "fin_emitted (c\<lparr>c_send_queued_bytes := v10\<rparr>) = fin_emitted c"
  "fin_emitted (c\<lparr>c_fin_requested := v11\<rparr>) = fin_emitted c"
  "fin_emitted (c\<lparr>c_time_wait_ms_remaining := v12\<rparr>) = fin_emitted c"
  "fin_emitted (c\<lparr>c_now_ms := v13\<rparr>) = fin_emitted c"
  "fin_emitted (c\<lparr>c_srtt_scaled := v14\<rparr>) = fin_emitted c"
  "fin_emitted (c\<lparr>c_rttvar_scaled := v15\<rparr>) = fin_emitted c"
  "fin_emitted (c\<lparr>c_has_rtt_sample := v16\<rparr>) = fin_emitted c"
  "fin_emitted (c\<lparr>c_rto_ms := v17\<rparr>) = fin_emitted c"
  "fin_emitted (c\<lparr>c_persist_ms_remaining := v18\<rparr>) = fin_emitted c"
  "fin_emitted (c\<lparr>c_persist_backoff := v19\<rparr>) = fin_emitted c"
  "fin_emitted (c\<lparr>c_ack_pending := v20\<rparr>) = fin_emitted c"
  "fin_emitted (c\<lparr>c_ack_delay_ms_remaining := v21\<rparr>) = fin_emitted c"
  "fin_emitted (c\<lparr>c_keepalive_enabled := v22\<rparr>) = fin_emitted c"
  "fin_emitted (c\<lparr>c_keepalive_idle_ms_remaining := v23\<rparr>) = fin_emitted c"
  "fin_emitted (c\<lparr>c_keepalive_probe_ms_remaining := v24\<rparr>) = fin_emitted c"
  "fin_emitted (c\<lparr>c_keepalive_probes_sent := v25\<rparr>) = fin_emitted c"
  "fin_emitted (c\<lparr>c_sack_permitted := v26\<rparr>) = fin_emitted c"
  "fin_emitted (c\<lparr>c_last_out_of_order_seq := v27\<rparr>) = fin_emitted c"
  "fin_emitted (c\<lparr>c_timestamps_negotiated := v28\<rparr>) = fin_emitted c"
  "fin_emitted (c\<lparr>c_ts_recent := v29\<rparr>) = fin_emitted c"
  "fin_emitted (c\<lparr>c_have_ts_recent := v30\<rparr>) = fin_emitted c"
  "fin_emitted (c\<lparr>c_local_mss := v31\<rparr>) = fin_emitted c"
  "fin_emitted (c\<lparr>c_peer_mss := v32\<rparr>) = fin_emitted c"
  "fin_emitted (c\<lparr>c_effective_mss := v33\<rparr>) = fin_emitted c"
  "fin_emitted (c\<lparr>c_window_scaling_negotiated := v34\<rparr>) = fin_emitted c"
  "fin_emitted (c\<lparr>c_peer_window_scale := v35\<rparr>) = fin_emitted c"
  "fin_emitted (c\<lparr>c_peer_window := v36\<rparr>) = fin_emitted c"
  "fin_emitted (c\<lparr>c_reorder_buffer := v37\<rparr>) = fin_emitted c"
  "fin_emitted (c\<lparr>c_congestion := v38\<rparr>) = fin_emitted c"
  "fin_emitted (c\<lparr>c_dup_ack_count := v39\<rparr>) = fin_emitted c"
  "fin_emitted (c\<lparr>c_in_fast_recovery := v40\<rparr>) = fin_emitted c"
  "fin_emitted (c\<lparr>c_has_data_ready := v41\<rparr>) = fin_emitted c"
  "fin_emitted (c\<lparr>c_receive_queue := v42\<rparr>) = fin_emitted c"
  "fin_emitted (c\<lparr>c_receive_queued_bytes := v43\<rparr>) = fin_emitted c"
  by (simp_all add: fin_emitted_def)

lemma sender_frame [simp]:
  "sender_inv iss hist w (c\<lparr>c_id := v0\<rparr>) = sender_inv iss hist w c"
  "sender_inv iss hist w (c\<lparr>c_local_port := v1\<rparr>) = sender_inv iss hist w c"
  "sender_inv iss hist w (c\<lparr>c_remote_ip := v2\<rparr>) = sender_inv iss hist w c"
  "sender_inv iss hist w (c\<lparr>c_remote_port := v3\<rparr>) = sender_inv iss hist w c"
  "sender_inv iss hist w (c\<lparr>c_recv_next := v4\<rparr>) = sender_inv iss hist w c"
  "sender_inv iss hist w (c\<lparr>c_unsacked_in_flight_bytes := v5\<rparr>) = sender_inv iss hist w c"
  "sender_inv iss hist w (c\<lparr>c_send_queued_bytes := v6\<rparr>) = sender_inv iss hist w c"
  "sender_inv iss hist w (c\<lparr>c_fin_requested := v7\<rparr>) = sender_inv iss hist w c"
  "sender_inv iss hist w (c\<lparr>c_time_wait_ms_remaining := v8\<rparr>) = sender_inv iss hist w c"
  "sender_inv iss hist w (c\<lparr>c_now_ms := v9\<rparr>) = sender_inv iss hist w c"
  "sender_inv iss hist w (c\<lparr>c_srtt_scaled := v10\<rparr>) = sender_inv iss hist w c"
  "sender_inv iss hist w (c\<lparr>c_rttvar_scaled := v11\<rparr>) = sender_inv iss hist w c"
  "sender_inv iss hist w (c\<lparr>c_has_rtt_sample := v12\<rparr>) = sender_inv iss hist w c"
  "sender_inv iss hist w (c\<lparr>c_rto_ms := v13\<rparr>) = sender_inv iss hist w c"
  "sender_inv iss hist w (c\<lparr>c_persist_ms_remaining := v14\<rparr>) = sender_inv iss hist w c"
  "sender_inv iss hist w (c\<lparr>c_persist_backoff := v15\<rparr>) = sender_inv iss hist w c"
  "sender_inv iss hist w (c\<lparr>c_ack_pending := v16\<rparr>) = sender_inv iss hist w c"
  "sender_inv iss hist w (c\<lparr>c_ack_delay_ms_remaining := v17\<rparr>) = sender_inv iss hist w c"
  "sender_inv iss hist w (c\<lparr>c_keepalive_enabled := v18\<rparr>) = sender_inv iss hist w c"
  "sender_inv iss hist w (c\<lparr>c_keepalive_idle_ms_remaining := v19\<rparr>) = sender_inv iss hist w c"
  "sender_inv iss hist w (c\<lparr>c_keepalive_probe_ms_remaining := v20\<rparr>) = sender_inv iss hist w c"
  "sender_inv iss hist w (c\<lparr>c_keepalive_probes_sent := v21\<rparr>) = sender_inv iss hist w c"
  "sender_inv iss hist w (c\<lparr>c_sack_permitted := v22\<rparr>) = sender_inv iss hist w c"
  "sender_inv iss hist w (c\<lparr>c_last_out_of_order_seq := v23\<rparr>) = sender_inv iss hist w c"
  "sender_inv iss hist w (c\<lparr>c_timestamps_negotiated := v24\<rparr>) = sender_inv iss hist w c"
  "sender_inv iss hist w (c\<lparr>c_ts_recent := v25\<rparr>) = sender_inv iss hist w c"
  "sender_inv iss hist w (c\<lparr>c_have_ts_recent := v26\<rparr>) = sender_inv iss hist w c"
  "sender_inv iss hist w (c\<lparr>c_local_mss := v27\<rparr>) = sender_inv iss hist w c"
  "sender_inv iss hist w (c\<lparr>c_peer_mss := v28\<rparr>) = sender_inv iss hist w c"
  "sender_inv iss hist w (c\<lparr>c_effective_mss := v29\<rparr>) = sender_inv iss hist w c"
  "sender_inv iss hist w (c\<lparr>c_window_scaling_negotiated := v30\<rparr>) = sender_inv iss hist w c"
  "sender_inv iss hist w (c\<lparr>c_peer_window_scale := v31\<rparr>) = sender_inv iss hist w c"
  "sender_inv iss hist w (c\<lparr>c_peer_window := v32\<rparr>) = sender_inv iss hist w c"
  "sender_inv iss hist w (c\<lparr>c_reorder_buffer := v33\<rparr>) = sender_inv iss hist w c"
  "sender_inv iss hist w (c\<lparr>c_congestion := v34\<rparr>) = sender_inv iss hist w c"
  "sender_inv iss hist w (c\<lparr>c_dup_ack_count := v35\<rparr>) = sender_inv iss hist w c"
  "sender_inv iss hist w (c\<lparr>c_in_fast_recovery := v36\<rparr>) = sender_inv iss hist w c"
  "sender_inv iss hist w (c\<lparr>c_has_data_ready := v37\<rparr>) = sender_inv iss hist w c"
  "sender_inv iss hist w (c\<lparr>c_receive_queue := v38\<rparr>) = sender_inv iss hist w c"
  "sender_inv iss hist w (c\<lparr>c_receive_queued_bytes := v39\<rparr>) = sender_inv iss hist w c"
  by (simp_all add: sender_inv_def queue_at_def)

section \<open>The sender's steps\<close>

lemma fin_emitted_emit [simp]: "fin_emitted (emit e c) \<longleftrightarrow> fin_emitted c \<or> event_is_fin e"
  by (auto simp: fin_emitted_def emit_def)

lemma emit_fields [simp]:
  "c_state (emit e c) = c_state c" "c_in_flight (emit e c) = c_in_flight c" "c_send_queue (emit e c) = c_send_queue c"
  "c_send_next (emit e c) = c_send_next c" "c_events (emit e c) = c_events c @ [e]"
  "c_rto_ms (emit e c) = c_rto_ms c" "c_now_ms (emit e c) = c_now_ms c" "c_recv_next (emit e c) = c_recv_next c"
  "c_unsacked_in_flight_bytes (emit e c) = c_unsacked_in_flight_bytes c"
  by (simp_all add: emit_def)

lemma sender_emit:
  assumes "sender_inv iss hist w c" "segment_in_stream iss w (fin_emitted c) h p" "header_fits h"
  shows "sender_inv iss hist w (emit (Segment h p) c)"
proof -
  have "fin_emitted (emit (Segment h p) c) = fin_emitted c"
    using assms(2) by (auto simp: segment_in_stream_def in_stream_def)
  then show ?thesis using assms by (simp add: sender_inv_def queue_at_def)
qed

lemma sender_emit_notice [simp]:
  "sender_inv iss hist w c \<Longrightarrow> sender_inv iss hist w (emit Data_ready c)"
  "sender_inv iss hist w c \<Longrightarrow> sender_inv iss hist w (emit (State_changed s) c)"
  by (simp_all add: sender_inv_def queue_at_def)

lemma fin_emitted_transition [simp]: "fin_emitted (transition s c) = fin_emitted c"
  by (simp add: transition_def)

lemma sender_transition:
  assumes "sender_inv iss hist w c" "c_state c \<noteq> LISTEN"
    and "fin_emitted c \<Longrightarrow> s \<notin> before_fin" "\<not> fin_emitted c \<Longrightarrow> s \<in> {ESTABLISHED, CLOSE_WAIT, CLOSED}"
    and "s \<noteq> CLOSED \<Longrightarrow> c_state c \<noteq> CLOSED"
  shows "sender_inv iss hist w (transition s c)"
  using assms by (auto simp: transition_def sender_inv_def queue_at_def before_fin_def)

lemma sender_closed: "sender_inv iss hist w c \<Longrightarrow> sender_inv iss hist w (transition CLOSED c)"
  by (auto simp: transition_def sender_inv_def queue_at_def before_fin_def)

lemma sender_pure_ack: "sender_inv iss hist w c \<Longrightarrow> sender_inv iss hist w (send_pure_ack c)"
  by (simp add: send_pure_ack_def sender_emit segment_in_stream_def)

lemma sender_schedule_ack: "sender_inv iss hist w c \<Longrightarrow> sender_inv iss hist w (schedule_or_send_ack c)"
  by (simp add: schedule_or_send_ack_def sender_pure_ack)

lemma sender_keepalive_probe: "sender_inv iss hist w c \<Longrightarrow> sender_inv iss hist w (send_keepalive_probe c)"
  by (simp add: send_keepalive_probe_def sender_emit segment_in_stream_def)

lemma sender_queue_at:
  "sender_inv iss hist w c \<Longrightarrow> c_send_queue c \<noteq> [] \<Longrightarrow> queue_at iss w c \<and> \<not> fin_emitted c"
  by (auto simp: sender_inv_def)

lemma sender_zero_window_probe:
  assumes "sender_inv iss hist w c"
  shows "sender_inv iss hist w (send_zero_window_probe c)"
proof (cases "c_send_queue c")
  case (Cons front rest)
  with sender_queue_at [OF assms] obtain n where
    n: "n \<le> length w" "drop n w = front @ concat rest" "c_send_next c = iss + 1 + of_nat n"
    by (auto simp: queue_at_def)
  have "drop n w = take 1 front @ (drop 1 front @ concat rest)"
    using n(2) append_take_drop_id [of 1 front] by (metis append.assoc)
  from in_stream_next [OF this n(1)] show ?thesis
    using Cons n(3) assms by (simp add: send_zero_window_probe_def sender_emit segment_in_stream_def)
qed (simp add: send_zero_window_probe_def assms)

lemma send_flags_fields [simp]:
  "c_state (send_flags f p i c) = c_state c" "c_send_queue (send_flags f p i c) = c_send_queue c"
  "c_send_next (send_flags f p i c) = c_send_next c + of_nat (sequence_length f p)"
  "fin_emitted (send_flags f p i c) \<longleftrightarrow> fin_emitted c \<or> f AND FLAG_FIN \<noteq> 0"
  by (simp_all add: send_flags_def Let_def)

lemma send_flags_extends [simp]: "extends hist (c_events c) \<Longrightarrow> extends hist (c_events (send_flags f p i c))"
  by (simp add: send_flags_def Let_def)

lemma sequence_length_simps [simp]:
  "sequence_length 0 p = length p" "sequence_length FLAG_FIN [] = 1" "sequence_length FLAG_SYN [] = 1"
  by (simp_all add: sequence_length_def)

lemma sender_send_queued:
  assumes inv: "sender_inv iss hist w c" and q: "c_send_queue c = front # rest"
  shows "sender_inv iss hist w (send_flags 0 front True (c\<lparr>c_send_queue := rest, c_send_queued_bytes := x\<rparr>))"
proof -
  let ?c = "c\<lparr>c_send_queue := rest, c_send_queued_bytes := x\<rparr>"
  from sender_queue_at [OF inv] q obtain n where
    n: "n \<le> length w" "drop n w = front @ concat rest" "c_send_next c = iss + 1 + of_nat n" and nf: "\<not> fin_emitted c"
    by (auto simp: queue_at_def)
  have len: "n + length front \<le> length w" using arg_cong [OF n(2), of length] n(1) by simp
  have "drop (n + length front) w = concat rest" using n(2) by (metis add.commute append_eq_conv_conj drop_drop)
  then have at: "queue_at iss w (send_flags 0 front True ?c)"
    using len n(3) by (auto simp: queue_at_def intro!: exI [of _ "n + length front"])
  have s: "in_stream iss w (fin_emitted c) (c_send_next c) False False front"
    using in_stream_next [OF n(2,1)] n(3) by simp
  have "list_all (event_in_stream iss w (fin_emitted c)) (c_events (send_flags 0 front True ?c))"
    "list_all (entry_in_stream iss w (fin_emitted c)) (c_in_flight (send_flags 0 front True ?c))"
    using inv s unfolding sender_inv_def
    by (simp_all add: send_flags_def Let_def segment_in_stream_def entry_in_stream_def)
  then show ?thesis using at inv q nf by (simp add: sender_inv_def)
qed


lemma list_all_event_extend:
  "list_all (event_in_stream iss w False) es \<Longrightarrow> list_all (event_in_stream iss (w @ x) b) es"
proof (induction es)
  case (Cons e es)
  then show ?case by (cases e) (simp_all add: segment_in_stream_def in_stream_extend)
qed simp

lemma list_all_entry_extend:
  "list_all (entry_in_stream iss w False) es \<Longrightarrow> list_all (entry_in_stream iss (w @ x) b) es"
  by (induction es) (simp_all add: entry_in_stream_def in_stream_extend)

lemmas list_all_event_end = list_all_event_extend [where x = "[]", unfolded append_Nil2]
lemmas list_all_entry_end = list_all_entry_extend [where x = "[]", unfolded append_Nil2]

lemma sender_loop: "sender_inv iss hist w c \<Longrightarrow> c_send_queue c = q \<Longrightarrow> sender_inv iss hist w (send_queued_loop q c)"
  by (induction q arbitrary: c) (simp_all add: sender_send_queued)

lemma sender_persist: "sender_inv iss hist w c \<Longrightarrow> sender_inv iss hist w (arm_or_disarm_persist c)"
  by (simp add: arm_or_disarm_persist_def)

lemma sender_send_queue: "sender_inv iss hist w c \<Longrightarrow> sender_inv iss hist w (send_queued_while_window_allows c)"
  by (simp add: send_queued_while_window_allows_def sender_loop sender_persist)

lemma sender_chunk:
  assumes inv: "sender_inv iss hist w c" and st: "c_state c \<in> {ESTABLISHED, CLOSE_WAIT}"
  shows "sender_inv iss hist (w @ chunk) (send_chunk chunk c) \<and> c_state (send_chunk chunk c) = c_state c"
proof -
  have nf: "\<not> fin_emitted c" and "queue_at iss w c" using inv st by (auto simp: sender_inv_def before_fin_def)
  then obtain n where n: "n \<le> length w" "drop n w = concat (c_send_queue c)" "c_send_next c = iss + 1 + of_nat n"
    by (auto simp: queue_at_def)
  have ls: "extends hist (c_events c)" "list_all (event_in_stream iss (w @ chunk) False) (c_events c)"
    "list_all (entry_in_stream iss (w @ chunk) False) (c_in_flight c)"
    using inv nf by (simp_all add: sender_inv_def list_all_event_extend list_all_entry_extend)
  define queued where "queued = c\<lparr>c_send_queued_bytes := c_send_queued_bytes c + length chunk, c_send_queue := c_send_queue c @ [chunk]\<rparr>"
  have "queue_at iss (w @ chunk) queued"
    unfolding queue_at_def queued_def using n by (intro exI [of _ n]) simp
  then have q: "sender_inv iss hist (w @ chunk) queued"
    using ls st nf by (auto simp: sender_inv_def queued_def before_fin_def)
  have "sender_inv iss hist (w @ chunk) (send_flags 0 chunk True c)" if "c_send_queue c = []"
  proof -
    have "n = length w" using n(1,2) that by simp
    then have "queue_at iss (w @ chunk) (send_flags 0 chunk True c)"
      unfolding queue_at_def using n(3) that by (intro exI [of _ "n + length chunk"]) simp
    moreover have "in_stream iss (w @ chunk) False (c_send_next c) False False chunk"
      using in_stream_next [of n "w @ chunk" chunk "[]" iss] n(3) \<open>n = length w\<close> by simp
    ultimately show ?thesis
      using ls st nf that
      by (auto simp: sender_inv_def before_fin_def send_flags_def Let_def segment_in_stream_def entry_in_stream_def)
  qed
  then show ?thesis using q unfolding queued_def by (simp add: send_chunk_def Let_def)
qed

lemma sender_conn_close:
  assumes inv: "sender_inv iss hist w c"
  shows "sender_inv iss hist w (conn_close c)"
proof (cases "c_state c \<in> {ESTABLISHED, CLOSE_WAIT} \<and> c_in_flight c = [] \<and> c_send_queue c = []")
  case True
  let ?s = "if c_state c = ESTABLISHED then FIN_WAIT_1 else LAST_ACK"
  have nf: "\<not> fin_emitted c" and "queue_at iss w c" using inv True by (auto simp: sender_inv_def before_fin_def)
  then have at: "c_send_next c = iss + 1 + of_nat (length w)" using True by (auto simp: queue_at_def)
  have "extends hist (c_events c)" "list_all (event_in_stream iss w True) (c_events c)"
    using inv nf by (simp_all add: sender_inv_def list_all_event_end)
  then have "sender_inv iss hist w (send_flags FLAG_FIN [] True (transition ?s c))"
    using at True nf
    by (simp add: sender_inv_def before_fin_def send_flags_def Let_def transition_def segment_in_stream_def
        entry_in_stream_def in_stream_def)
  then show ?thesis using True unfolding conn_close_def by auto
next
  case False
  then show ?thesis using inv by (auto simp: conn_close_def)
qed

lemma sender_syn:
  assumes "sender_inv iss hist w c" "c_state c = LISTEN" "s \<in> {SYN_SENT, SYN_RECEIVED}"
  shows "sender_inv iss hist w (send_flags FLAG_SYN [] i (transition s c))"
proof -
  have nf: "\<not> fin_emitted c" using assms by (auto simp: sender_inv_def before_fin_def)
  then show ?thesis
    using assms
    by (auto simp: sender_inv_def before_fin_def send_flags_def Let_def transition_def segment_in_stream_def
        entry_in_stream_def in_stream_def queue_at_def)
qed

section \<open>In-flight bookkeeping\<close>

lemma list_all_update_oldest:
  "list_all P es \<Longrightarrow> (\<And>e. P e \<Longrightarrow> P (f e)) \<Longrightarrow> list_all P (update_oldest f es)"
  by (induction es) simp_all

lemma oldest_member: "oldest_unsacked_segment es = Some e \<Longrightarrow> e \<in> set es"
  by (induction es) (auto split: if_splits)

lemma sender_in_flight:
  "sender_inv iss hist w c \<Longrightarrow> list_all (entry_in_stream iss w (fin_emitted c)) es \<Longrightarrow> sender_inv iss hist w (c\<lparr>c_in_flight := es\<rparr>)"
  by (simp add: sender_inv_def queue_at_def)

lemma sender_entries: "sender_inv iss hist w c \<Longrightarrow> list_all (entry_in_stream iss w (fin_emitted c)) (c_in_flight c)"
  by (simp add: sender_inv_def)

lemma sender_update_oldest:
  assumes "sender_inv iss hist w c" "\<And>e. if_seq (f e) = if_seq e \<and> if_flags (f e) = if_flags e \<and> if_payload (f e) = if_payload e"
  shows "sender_inv iss hist w (c\<lparr>c_in_flight := update_oldest f (c_in_flight c)\<rparr>)"
  using sender_entries [OF assms(1)]
  by (intro sender_in_flight assms(1) list_all_update_oldest) (simp_all add: entry_in_stream_def assms(2))

lemma sender_resend:
  assumes "sender_inv iss hist w c" "entry_in_stream iss w (fin_emitted c) e"
  shows "sender_inv iss hist w (resend e c)"
  unfolding resend_def Let_def
  by (rule sender_update_oldest) (use assms in \<open>simp_all add: sender_emit segment_in_stream_def entry_in_stream_def\<close>)

lemma sack_entries_list_all:
  assumes "\<And>e. P e \<Longrightarrow> P (e\<lparr>if_sacked := True\<rparr>)"
  shows "list_all P es \<Longrightarrow> list_all P (fst (sack_entries b es u m))"
  using assms
  by (induction es arbitrary: u m) (simp_all add: Let_def mark_sacked_def split: prod.split, metis fst_conv)

lemma sack_all_list_all:
  assumes "\<And>e. P e \<Longrightarrow> P (e\<lparr>if_sacked := True\<rparr>)"
  shows "list_all P es \<Longrightarrow> list_all P (fst (sack_all bs es u m))"
proof (induction bs arbitrary: es u m)
  case (Cons b bs)
  from sack_entries_list_all [OF assms Cons.prems] Cons.IH show ?case
    by (simp add: Let_def split: prod.split) (metis fst_conv)
qed simp

lemma entry_in_stream_sacked [simp]: "entry_in_stream iss w b (e\<lparr>if_sacked := v\<rparr>) = entry_in_stream iss w b e"
  by (simp add: entry_in_stream_def)

lemma sender_sack:
  assumes "sender_inv iss hist w c"
  shows "sender_inv iss hist w (snd (apply_sack_blocks s c))"
proof -
  obtain es u m where r: "sack_all (tcp_sack_blocks s) (c_in_flight c) (c_unsacked_in_flight_bytes c) False = (es, u, m)"
    by (rule prod_cases3)
  have "list_all (entry_in_stream iss w (fin_emitted c)) es"
    using sack_all_list_all [OF _ sender_entries [OF assms], of "tcp_sack_blocks s"] r
    by (metis entry_in_stream_sacked fst_conv)
  then show ?thesis using assms by (simp add: apply_sack_blocks_def r sender_in_flight)
qed

lemma retire_list_all: "list_all P es \<Longrightarrow> list_all P (fst (retire_acked ack now es a))"
  by (induction es arbitrary: a) simp_all


lemma send_pure_ack_fields [simp]:
  "c_state (send_pure_ack c) = c_state c" "fin_emitted (send_pure_ack c) = fin_emitted c"
  by (simp_all add: send_pure_ack_def)

lemma sender_smooth [simp]: "sender_inv iss hist w (smooth_rtt v c) = sender_inv iss hist w c"
  by (simp add: smooth_rtt_def Let_def)

lemma sender_rtt: "sender_inv iss hist w c \<Longrightarrow> sender_inv iss hist w (take_rtt_sample s a c)"
  by (simp add: take_rtt_sample_def update_rto_from_sample_def Let_def)

lemma sender_grow: "sender_inv iss hist w c \<Longrightarrow> sender_inv iss hist w (grow_window a c)"
  by (simp add: grow_window_def Let_def)

lemma sender_duplicate_ack:
  assumes "sender_inv iss hist w c"
  shows "sender_inv iss hist w (handle_duplicate_ack b c)"
proof -
  define d where "d = c\<lparr>c_dup_ack_count := c_dup_ack_count c + 1\<rparr>"
  have d: "sender_inv iss hist w d" using assms by (simp add: d_def)
  have "sender_inv iss hist w (resend e d)" if "oldest_unsacked_segment (c_in_flight d) = Some e" for e
    by (rule sender_resend [OF d]) (use sender_entries [OF d] oldest_member [OF that] in \<open>simp add: list_all_iff\<close>)
  then show ?thesis
    unfolding handle_duplicate_ack_def Let_def d_def [symmetric]
    using d by (simp add: sender_send_queue split: option.split)
qed

lemma sender_resume: "sender_inv iss hist w c \<Longrightarrow> sender_inv iss hist w (resume_sending c)"
  by (simp add: resume_sending_def Let_def sender_conn_close sender_send_queue)

lemma sender_fin_states:
  "sender_inv iss hist w c \<Longrightarrow> c_state c \<in> {FIN_WAIT_1, FIN_WAIT_2, CLOSING, LAST_ACK, TIME_WAIT} \<Longrightarrow> fin_emitted c"
  by (auto simp: sender_inv_def before_fin_def)

lemma sender_open_states:
  "sender_inv iss hist w c \<Longrightarrow> c_state c \<in> {SYN_SENT, SYN_RECEIVED, ESTABLISHED, CLOSE_WAIT} \<Longrightarrow> \<not> fin_emitted c"
  by (auto simp: sender_inv_def before_fin_def)

lemma sender_after_ack:
  assumes c: "sender_inv iss hist w c"
  shows "sender_inv iss hist w
    (if f \<and> c_state c = FIN_WAIT_1 then transition FIN_WAIT_2 c
     else if f \<and> c_state c = CLOSING then (transition TIME_WAIT c)\<lparr>c_time_wait_ms_remaining := TIME_WAIT_MS\<rparr>
     else if f \<and> c_state c = LAST_ACK then transition CLOSED c
     else resume_sending c)"
proof -
  have "sender_inv iss hist w (transition FIN_WAIT_2 c)" if "c_state c = FIN_WAIT_1"
    using that c sender_fin_states [OF c] by (intro sender_transition) (simp_all add: before_fin_def)
  moreover have "sender_inv iss hist w (transition TIME_WAIT c)" if "c_state c = CLOSING"
    using that c sender_fin_states [OF c] by (intro sender_transition) (simp_all add: before_fin_def)
  ultimately show ?thesis using c by (simp add: sender_resume sender_closed)
qed

lemma sender_new_ack:
  assumes "sender_inv iss hist w c"
  shows "sender_inv iss hist w (handle_new_ack s c)"
proof -
  define d where "d = c\<lparr>c_dup_ack_count := 0\<rparr>"
  have d: "sender_inv iss hist w d" using assms by (simp add: d_def)
  obtain es a where r: "retire_acked (tcp_acknowledgement_number s) (c_now_ms d) (c_in_flight d)
      \<lparr>ak_bytes = 0, ak_fin = False, ak_anything = False, ak_have_rtt = False, ak_rtt_ms = 0,
       ak_unsacked = c_unsacked_in_flight_bytes d\<rparr> = (es, a)"
    by (rule prod.exhaust)
  have "list_all (entry_in_stream iss w (fin_emitted d)) es"
    using retire_list_all [OF sender_entries [OF d]] r by (metis fst_conv)
  then have e: "sender_inv iss hist w (d\<lparr>c_in_flight := es, c_unsacked_in_flight_bytes := ak_unsacked a\<rparr>)"
    using d by (simp add: sender_in_flight)
  define t where "t = take_rtt_sample s a (d\<lparr>c_in_flight := es, c_unsacked_in_flight_bytes := ak_unsacked a\<rparr>)"
  have t: "sender_inv iss hist w t" unfolding t_def by (rule sender_rtt [OF e])
  show ?thesis
    unfolding handle_new_ack_def Let_def d_def [symmetric] r prod.case t_def [symmetric]
    by (intro if_both [where P = "sender_inv iss hist w"] sender_after_ack sender_grow sender_send_queue sender_persist t)
qed

lemma sender_handle_ack:
  assumes "sender_inv iss hist w c"
  shows "sender_inv iss hist w (handle_ack s c)"
proof -
  obtain b d where r: "apply_sack_blocks s c = (b, d)" by (rule prod.exhaust)
  have d: "sender_inv iss hist w d" using sender_sack [OF assms, of s] r by simp
  then show ?thesis
    unfolding handle_ack_def r Let_def prod.case
    by (simp add: sender_duplicate_ack sender_new_ack)
qed

section \<open>The sender across whole handlers\<close>

lemma deliver_fields [simp]: "c_state (deliver p c) = c_state c"
  by (simp add: deliver_def Let_def)

lemma sender_deliver [simp]: "sender_inv iss hist w c \<Longrightarrow> sender_inv iss hist w (deliver p c)"
  by (simp add: deliver_def Let_def)

declare drain_reorder_buffer.simps [simp del]

lemma sender_drain: "sender_inv iss hist w c \<Longrightarrow> sender_inv iss hist w (drain_reorder_buffer c)"
proof (induction c rule: drain_reorder_buffer.induct)
  case (1 c)
  then show ?case
    by (subst drain_reorder_buffer.simps) (simp split: option.split)
qed

lemma sender_receive_payload: "sender_inv iss hist w c \<Longrightarrow> sender_inv iss hist w (receive_payload s p c)"
  unfolding receive_payload_def Let_def
  by (simp add: sender_schedule_ack sender_drain sender_pure_ack)

lemma sender_handle_fin:
  assumes c: "sender_inv iss hist w c"
  shows "sender_inv iss hist w (handle_fin s c)"
proof -
  define d where "d = c\<lparr>c_recv_next := c_recv_next c + 1\<rparr>"
  have d: "sender_inv iss hist w d" using c by (simp add: d_def)
  have "sender_inv iss hist w (send_pure_ack (transition CLOSE_WAIT d))" if "c_state d = ESTABLISHED"
    using that d sender_open_states [OF d] by (intro sender_pure_ack sender_transition) simp_all
  moreover have "sender_inv iss hist w (transition TIME_WAIT (send_pure_ack d))" if "c_state d = FIN_WAIT_2"
    using that d sender_fin_states [OF d] by (intro sender_pure_ack sender_transition) (simp_all add: before_fin_def)
  moreover have "sender_inv iss hist w (transition CLOSING (send_pure_ack d))" if "c_state d = FIN_WAIT_1"
    using that d sender_fin_states [OF d] by (intro sender_pure_ack sender_transition) (simp_all add: before_fin_def)
  ultimately show ?thesis
    unfolding handle_fin_def Let_def d_def [symmetric] using sender_pure_ack [OF c] d by simp
qed

lemma sender_process: "sender_inv iss hist w c \<Longrightarrow> sender_inv iss hist w (process_segment s c)"
  unfolding process_segment_def Let_def
  by (simp add: sender_handle_ack sender_receive_payload sender_handle_fin)

lemma sender_handle_rst: "sender_inv iss hist w c \<Longrightarrow> sender_inv iss hist w (handle_rst s c)"
  by (simp add: handle_rst_def sender_closed)

lemma sender_established:
  assumes "sender_inv iss hist w c" "c_state c \<in> {SYN_SENT, SYN_RECEIVED}"
  shows "sender_inv iss hist w (transition ESTABLISHED (c\<lparr>c_in_flight := []\<rparr>))"
  using assms sender_open_states [OF assms(1)]
  by (intro sender_transition sender_in_flight) auto

lemma transition_in_flight [simp]: "transition s (c\<lparr>c_in_flight := es\<rparr>) = (transition s c)\<lparr>c_in_flight := es\<rparr>"
  by (simp add: transition_def emit_def)

lemma sender_syn_sent:
  assumes "sender_inv iss hist w c" "c_state c = SYN_SENT"
  shows "sender_inv iss hist w (handle_syn_sent s c)"
  using assms sender_open_states [OF assms(1)]
  unfolding handle_syn_sent_def Let_def
  by (auto intro!: sender_pure_ack sender_transition sender_in_flight)

lemma sender_syn_received:
  assumes "sender_inv iss hist w c" "c_state c = SYN_RECEIVED"
  shows "sender_inv iss hist w (handle_syn_received s c)"
  using assms sender_open_states [OF assms(1)]
  unfolding handle_syn_received_def Let_def
  by (auto intro!: sender_pure_ack sender_transition sender_in_flight)


lemma sender_on_segment:
  assumes "sender_inv iss hist w c"
  shows "sender_inv iss hist w (on_segment s c)"
proof -
  define d where "d = reset_keepalive c"
  have d: "sender_inv iss hist w d" using assms by (simp add: d_def reset_keepalive_def)
  have "sender_inv iss hist w (record_timestamp s d)" using d by (simp add: record_timestamp_def)
  then show ?thesis
    unfolding on_segment_def Let_def d_def [symmetric]
    using d by (simp add: sender_handle_rst sender_syn_sent sender_syn_received sender_pure_ack sender_process)
qed

lemma sender_delayed_ack: "sender_inv iss hist w c \<Longrightarrow> sender_inv iss hist w (run_delayed_ack t c)"
  by (simp add: run_delayed_ack_def Let_def sender_pure_ack)

lemma sender_run_persist: "sender_inv iss hist w c \<Longrightarrow> sender_inv iss hist w (run_persist t c)"
  by (simp add: run_persist_def Let_def sender_zero_window_probe)

lemma sender_run_keepalive: "sender_inv iss hist w c \<Longrightarrow> sender_inv iss hist w (run_keepalive t c)"
  by (simp add: run_keepalive_def Let_def sender_keepalive_probe sender_closed)

lemma sender_run_retransmit:
  assumes c: "sender_inv iss hist w c"
  shows "sender_inv iss hist w (run_retransmit t c)"
proof (cases "oldest_unsacked_segment (c_in_flight c)")
  case (Some e)
  have e: "entry_in_stream iss w (fin_emitted c) e"
    using sender_entries [OF c] oldest_member [OF Some] by (simp add: list_all_iff)
  define d1 where "d1 = c\<lparr>c_in_flight := update_oldest
    (\<lambda>x. x\<lparr>if_retransmit_ms_remaining := if_retransmit_ms_remaining e - sint t\<rparr>) (c_in_flight c)\<rparr>"
  have d1: "sender_inv iss hist w d1" unfolding d1_def by (rule sender_update_oldest [OF c]) simp
  define d2 where "d2 = d1\<lparr>c_in_flight := update_oldest
    (\<lambda>x. x\<lparr>if_retransmit_attempts := if_retransmit_attempts e + 1\<rparr>) (c_in_flight d1)\<rparr>"
  have d2: "sender_inv iss hist w d2" unfolding d2_def by (rule sender_update_oldest [OF d1]) simp
  have fin: "fin_emitted d2 = fin_emitted c" by (simp add: d2_def d1_def)
  have "sender_inv iss hist w (resend e (d2\<lparr>c_congestion := x, c_in_fast_recovery := False, c_dup_ack_count := 0, c_rto_ms := y\<rparr>))" for x y
    using d2 e fin by (intro sender_resend) simp_all
  then show ?thesis
    unfolding run_retransmit_def Some option.case Let_def d1_def [symmetric] d2_def [symmetric]
    by (intro if_both [where P = "sender_inv iss hist w"] sender_closed d1 d2)
qed (simp add: run_retransmit_def c)

lemma sender_on_time:
  assumes "sender_inv iss hist w c"
  shows "sender_inv iss hist w (on_time_passed t c)"
proof -
  define d where "d = c\<lparr>c_now_ms := c_now_ms c + ucast t\<rparr>"
  define e where "e = run_delayed_ack t d"
  have d: "sender_inv iss hist w d" using assms by (simp add: d_def)
  then have e: "sender_inv iss hist w e" unfolding e_def by (rule sender_delayed_ack)
  show ?thesis
    unfolding on_time_passed_def Let_def d_def [symmetric] e_def [symmetric]
    using assms d by (simp add: e sender_closed sender_run_persist sender_run_keepalive sender_run_retransmit)
qed

section \<open>The application's calls\<close>

lemma send_loop_mss: "c_effective_mss (send_chunk p c) = c_effective_mss c"
  by (simp add: send_chunk_def send_flags_def Let_def emit_def)

lemma sender_send_loop:
  assumes "send_loop data accepted offset c = Some d" "sender_inv iss hist w c" "c_state c \<in> {ESTABLISHED, CLOSE_WAIT}"
    "accepted \<le> length data" "offset \<le> accepted"
  shows "sender_inv iss hist (w @ take (accepted - offset) (drop offset data)) d"
proof -
  have "\<forall>w. sender_inv iss hist w c \<longrightarrow> c_state c \<in> {ESTABLISHED, CLOSE_WAIT} \<longrightarrow> accepted \<le> length data \<longrightarrow> offset \<le> accepted
    \<longrightarrow> sender_inv iss hist (w @ take (accepted - offset) (drop offset data)) d"
    using assms(1)
  proof (rule send_loop.raw_induct [rotated], goal_cases)
    case (1 loop data accepted offset c d)
    show ?case
    proof (cases "offset < accepted")
      case True
      define k where "k = min (unat (c_effective_mss c)) (accepted - offset)"
      define chunk where "chunk = take k (drop offset data)"
      have r: "loop data accepted (offset + k) (send_chunk chunk c) = Some d"
        using 1(2) True by (simp add: Let_def k_def chunk_def)
      have k: "k \<le> accepted - offset" by (simp add: k_def)
      show ?thesis
      proof (intro allI impI)
        fix w
        assume a: "sender_inv iss hist w c" "c_state c \<in> {ESTABLISHED, CLOSE_WAIT}" "accepted \<le> length data" "offset \<le> accepted"
        note s = sender_chunk [OF a(1,2), of chunk]
        from 1(1) [OF r] s a k True have
          "sender_inv iss hist ((w @ chunk) @ take (accepted - (offset + k)) (drop (offset + k) data)) d"
          by auto
        moreover have "chunk @ take (accepted - (offset + k)) (drop (offset + k) data) = take (accepted - offset) (drop offset data)"
          using take_split [OF k, of "drop offset data"] by (simp add: chunk_def add.commute)
        ultimately show "sender_inv iss hist (w @ take (accepted - offset) (drop offset data)) d" by simp
      qed
    next
      case False
      then show ?thesis using 1(2) by simp
    qed
  qed
  then show ?thesis using assms(2-) by blast
qed

lemma sender_conn_send:
  assumes "conn_send data c = Some (n, d)" "sender_inv iss hist w c"
  shows "sender_inv iss hist (w @ take n data) d"
proof (cases "c_state c \<in> {ESTABLISHED, CLOSE_WAIT} \<and> min (length data) (send_space_available c) \<noteq> 0")
  case True
  define acc where "acc = min (length data) (send_space_available c)"
  have "conn_send data c = map_option (\<lambda>c. (acc, arm_or_disarm_persist c)) (send_loop data acc 0 c)"
    using True unfolding conn_send_def Let_def acc_def [symmetric] by auto
  with assms(1) obtain e where "send_loop data acc 0 c = Some e" "d = arm_or_disarm_persist e" "n = acc" by auto
  then have e: "send_loop data n 0 c = Some e" "d = arm_or_disarm_persist e" "n \<le> length data"
    by (simp_all add: acc_def)
  from sender_send_loop [OF e(1) assms(2)] True e(3) have "sender_inv iss hist (w @ take n data) e" by simp
  then show ?thesis unfolding e(2) by (rule sender_persist)
next
  case False
  then have "n = 0 \<and> d = c" using assms(1) by (auto simp: conn_send_def Let_def split: if_splits)
  then show ?thesis using assms(2) by simp
qed

lemma sender_conn_read: "sender_inv iss hist w c \<Longrightarrow> sender_inv iss hist w (snd (conn_read n c))"
  by (simp add: conn_read_def Let_def sender_pure_ack split: prod.split)

lemma sender_accept:
  assumes "sender_inv iss hist w c" "c_state c = LISTEN"
  shows "sender_inv iss hist w (accept_incoming_syn a1 a2 a3 a4 a5 a6 a7 c)"
  unfolding accept_incoming_syn_def Let_def by (rule sender_syn) (use assms in simp_all)

lemma sender_initiate:
  "sender_inv iss hist w c \<Longrightarrow> c_state c = LISTEN \<Longrightarrow> sender_inv iss hist w (initiate_connect c)"
  unfolding initiate_connect_def by (rule sender_syn) simp_all

lemma sender_new: "sender_inv iss [] [] (new_connection i lp ip rp iss mss alg)"
  by (simp add: new_connection_def sender_inv_def fin_emitted_def before_fin_def)

lemma sender_settings:
  assumes "sender_inv iss hist w c"
  shows "sender_inv iss hist w (set_keepalive b c)" "sender_inv iss hist w (reduce_effective_mss m c)"
    "sender_inv iss hist w (set_data_ready_callback b c)" "sender_inv iss hist w (fail c)"
  using assms
  by (simp_all add: set_keepalive_def reset_keepalive_def reduce_effective_mss_def set_data_ready_callback_def fail_def
      Let_def sender_closed)

end
