(* ===== verification/Tcp_Receiver.thy ===== *)
theory Tcp_Receiver
  imports Tcp_Sender "HOL-Library.Sublist"
begin

text \<open>
  The receiving half: whatever order, duplication or overlap the peer's segments arrive with, what the
  application reads is a prefix of the peer's stream, and a state that says the peer has finished is
  entered only with the whole stream in hand. The invariant \<open>receiver_inv\<close> is about RCV.NXT, the
  receive queue and the reorder buffer. Positions are natural numbers; the lemmas connect them to the
  32-bit sequence numbers of the code for streams below \<open>2 ^ 31\<close> bytes.
\<close>


section \<open>What a receiver holds\<close>

definition received :: "bytes \<Rightarrow> tcp_connection \<Rightarrow> bytes" where
  "received got c = got @ concat (c_receive_queue c)"

definition reading :: "tcp_state set" where "reading = {ESTABLISHED, FIN_WAIT_1, FIN_WAIT_2}"
definition peer_finished :: "tcp_state set" where "peer_finished = {CLOSE_WAIT, CLOSING, LAST_ACK, TIME_WAIT}"

text \<open>
  With \<open>got\<close> what the application has read so far and \<open>s\<close> the peer's stream: what was read and what
  waits to be read is a prefix of the stream, RCV.NXT is one past it, every buffered segment is a piece
  of the stream at its key, and a state that says the peer has finished means the whole stream is here.
\<close>

definition next_is :: "u32 \<Rightarrow> nat \<Rightarrow> u32 \<Rightarrow> bool" where
  "next_is irs n seq \<longleftrightarrow> seq = irs + 1 + of_nat n"

definition held :: "u32 \<Rightarrow> bytes \<Rightarrow> u32 \<times> bytes \<Rightarrow> bool" where
  "held irs s kd = in_stream irs s False (fst kd) False False (snd kd)"

definition receiver_inv :: "u32 \<Rightarrow> bytes \<Rightarrow> bool \<Rightarrow> bytes \<Rightarrow> tcp_connection \<Rightarrow> bool" where
  "receiver_inv irs s ended got c \<longleftrightarrow>
     prefix (received got c) s
     \<and> list_all (held irs s) (c_reorder_buffer c)
     \<and> (c_state c \<in> {LISTEN, SYN_SENT} \<longrightarrow> received got c = [])
     \<and> (c_state c \<in> insert SYN_RECEIVED reading \<longrightarrow> next_is irs (length (received got c)) (c_recv_next c))
     \<and> (c_state c \<in> peer_finished \<longrightarrow> ended \<and> received got c = s)"

lemma received_frame [simp]:
  "received got (c\<lparr>c_id := v0\<rparr>) = received got c"
  "received got (c\<lparr>c_local_port := v1\<rparr>) = received got c"
  "received got (c\<lparr>c_remote_ip := v2\<rparr>) = received got c"
  "received got (c\<lparr>c_remote_port := v3\<rparr>) = received got c"
  "received got (c\<lparr>c_state := v4\<rparr>) = received got c"
  "received got (c\<lparr>c_send_next := v5\<rparr>) = received got c"
  "received got (c\<lparr>c_recv_next := v6\<rparr>) = received got c"
  "received got (c\<lparr>c_in_flight := v7\<rparr>) = received got c"
  "received got (c\<lparr>c_unsacked_in_flight_bytes := v8\<rparr>) = received got c"
  "received got (c\<lparr>c_send_queue := v9\<rparr>) = received got c"
  "received got (c\<lparr>c_send_queued_bytes := v10\<rparr>) = received got c"
  "received got (c\<lparr>c_fin_requested := v11\<rparr>) = received got c"
  "received got (c\<lparr>c_time_wait_ms_remaining := v12\<rparr>) = received got c"
  "received got (c\<lparr>c_now_ms := v13\<rparr>) = received got c"
  "received got (c\<lparr>c_srtt_scaled := v14\<rparr>) = received got c"
  "received got (c\<lparr>c_rttvar_scaled := v15\<rparr>) = received got c"
  "received got (c\<lparr>c_has_rtt_sample := v16\<rparr>) = received got c"
  "received got (c\<lparr>c_rto_ms := v17\<rparr>) = received got c"
  "received got (c\<lparr>c_persist_ms_remaining := v18\<rparr>) = received got c"
  "received got (c\<lparr>c_persist_backoff := v19\<rparr>) = received got c"
  "received got (c\<lparr>c_ack_pending := v20\<rparr>) = received got c"
  "received got (c\<lparr>c_ack_delay_ms_remaining := v21\<rparr>) = received got c"
  "received got (c\<lparr>c_keepalive_enabled := v22\<rparr>) = received got c"
  "received got (c\<lparr>c_keepalive_idle_ms_remaining := v23\<rparr>) = received got c"
  "received got (c\<lparr>c_keepalive_probe_ms_remaining := v24\<rparr>) = received got c"
  "received got (c\<lparr>c_keepalive_probes_sent := v25\<rparr>) = received got c"
  "received got (c\<lparr>c_sack_permitted := v26\<rparr>) = received got c"
  "received got (c\<lparr>c_last_out_of_order_seq := v27\<rparr>) = received got c"
  "received got (c\<lparr>c_timestamps_negotiated := v28\<rparr>) = received got c"
  "received got (c\<lparr>c_ts_recent := v29\<rparr>) = received got c"
  "received got (c\<lparr>c_have_ts_recent := v30\<rparr>) = received got c"
  "received got (c\<lparr>c_local_mss := v31\<rparr>) = received got c"
  "received got (c\<lparr>c_peer_mss := v32\<rparr>) = received got c"
  "received got (c\<lparr>c_effective_mss := v33\<rparr>) = received got c"
  "received got (c\<lparr>c_window_scaling_negotiated := v34\<rparr>) = received got c"
  "received got (c\<lparr>c_peer_window_scale := v35\<rparr>) = received got c"
  "received got (c\<lparr>c_peer_window := v36\<rparr>) = received got c"
  "received got (c\<lparr>c_reorder_buffer := v37\<rparr>) = received got c"
  "received got (c\<lparr>c_congestion := v38\<rparr>) = received got c"
  "received got (c\<lparr>c_dup_ack_count := v39\<rparr>) = received got c"
  "received got (c\<lparr>c_in_fast_recovery := v40\<rparr>) = received got c"
  "received got (c\<lparr>c_has_data_ready := v41\<rparr>) = received got c"
  "received got (c\<lparr>c_receive_queued_bytes := v42\<rparr>) = received got c"
  "received got (c\<lparr>c_events := v43\<rparr>) = received got c"
  by (simp_all add: received_def)

lemma receiver_frame [simp]:
  "receiver_inv irs s ended got (c\<lparr>c_id := v0\<rparr>) = receiver_inv irs s ended got c"
  "receiver_inv irs s ended got (c\<lparr>c_local_port := v1\<rparr>) = receiver_inv irs s ended got c"
  "receiver_inv irs s ended got (c\<lparr>c_remote_ip := v2\<rparr>) = receiver_inv irs s ended got c"
  "receiver_inv irs s ended got (c\<lparr>c_remote_port := v3\<rparr>) = receiver_inv irs s ended got c"
  "receiver_inv irs s ended got (c\<lparr>c_send_next := v4\<rparr>) = receiver_inv irs s ended got c"
  "receiver_inv irs s ended got (c\<lparr>c_in_flight := v5\<rparr>) = receiver_inv irs s ended got c"
  "receiver_inv irs s ended got (c\<lparr>c_unsacked_in_flight_bytes := v6\<rparr>) = receiver_inv irs s ended got c"
  "receiver_inv irs s ended got (c\<lparr>c_send_queue := v7\<rparr>) = receiver_inv irs s ended got c"
  "receiver_inv irs s ended got (c\<lparr>c_send_queued_bytes := v8\<rparr>) = receiver_inv irs s ended got c"
  "receiver_inv irs s ended got (c\<lparr>c_fin_requested := v9\<rparr>) = receiver_inv irs s ended got c"
  "receiver_inv irs s ended got (c\<lparr>c_time_wait_ms_remaining := v10\<rparr>) = receiver_inv irs s ended got c"
  "receiver_inv irs s ended got (c\<lparr>c_now_ms := v11\<rparr>) = receiver_inv irs s ended got c"
  "receiver_inv irs s ended got (c\<lparr>c_srtt_scaled := v12\<rparr>) = receiver_inv irs s ended got c"
  "receiver_inv irs s ended got (c\<lparr>c_rttvar_scaled := v13\<rparr>) = receiver_inv irs s ended got c"
  "receiver_inv irs s ended got (c\<lparr>c_has_rtt_sample := v14\<rparr>) = receiver_inv irs s ended got c"
  "receiver_inv irs s ended got (c\<lparr>c_rto_ms := v15\<rparr>) = receiver_inv irs s ended got c"
  "receiver_inv irs s ended got (c\<lparr>c_persist_ms_remaining := v16\<rparr>) = receiver_inv irs s ended got c"
  "receiver_inv irs s ended got (c\<lparr>c_persist_backoff := v17\<rparr>) = receiver_inv irs s ended got c"
  "receiver_inv irs s ended got (c\<lparr>c_ack_pending := v18\<rparr>) = receiver_inv irs s ended got c"
  "receiver_inv irs s ended got (c\<lparr>c_ack_delay_ms_remaining := v19\<rparr>) = receiver_inv irs s ended got c"
  "receiver_inv irs s ended got (c\<lparr>c_keepalive_enabled := v20\<rparr>) = receiver_inv irs s ended got c"
  "receiver_inv irs s ended got (c\<lparr>c_keepalive_idle_ms_remaining := v21\<rparr>) = receiver_inv irs s ended got c"
  "receiver_inv irs s ended got (c\<lparr>c_keepalive_probe_ms_remaining := v22\<rparr>) = receiver_inv irs s ended got c"
  "receiver_inv irs s ended got (c\<lparr>c_keepalive_probes_sent := v23\<rparr>) = receiver_inv irs s ended got c"
  "receiver_inv irs s ended got (c\<lparr>c_sack_permitted := v24\<rparr>) = receiver_inv irs s ended got c"
  "receiver_inv irs s ended got (c\<lparr>c_last_out_of_order_seq := v25\<rparr>) = receiver_inv irs s ended got c"
  "receiver_inv irs s ended got (c\<lparr>c_timestamps_negotiated := v26\<rparr>) = receiver_inv irs s ended got c"
  "receiver_inv irs s ended got (c\<lparr>c_ts_recent := v27\<rparr>) = receiver_inv irs s ended got c"
  "receiver_inv irs s ended got (c\<lparr>c_have_ts_recent := v28\<rparr>) = receiver_inv irs s ended got c"
  "receiver_inv irs s ended got (c\<lparr>c_local_mss := v29\<rparr>) = receiver_inv irs s ended got c"
  "receiver_inv irs s ended got (c\<lparr>c_peer_mss := v30\<rparr>) = receiver_inv irs s ended got c"
  "receiver_inv irs s ended got (c\<lparr>c_effective_mss := v31\<rparr>) = receiver_inv irs s ended got c"
  "receiver_inv irs s ended got (c\<lparr>c_window_scaling_negotiated := v32\<rparr>) = receiver_inv irs s ended got c"
  "receiver_inv irs s ended got (c\<lparr>c_peer_window_scale := v33\<rparr>) = receiver_inv irs s ended got c"
  "receiver_inv irs s ended got (c\<lparr>c_peer_window := v34\<rparr>) = receiver_inv irs s ended got c"
  "receiver_inv irs s ended got (c\<lparr>c_congestion := v35\<rparr>) = receiver_inv irs s ended got c"
  "receiver_inv irs s ended got (c\<lparr>c_dup_ack_count := v36\<rparr>) = receiver_inv irs s ended got c"
  "receiver_inv irs s ended got (c\<lparr>c_in_fast_recovery := v37\<rparr>) = receiver_inv irs s ended got c"
  "receiver_inv irs s ended got (c\<lparr>c_has_data_ready := v38\<rparr>) = receiver_inv irs s ended got c"
  "receiver_inv irs s ended got (c\<lparr>c_receive_queued_bytes := v39\<rparr>) = receiver_inv irs s ended got c"
  "receiver_inv irs s ended got (c\<lparr>c_events := v40\<rparr>) = receiver_inv irs s ended got c"
  by (simp_all add: receiver_inv_def)

lemma transition_fields [simp]:
  "received got (transition t c) = received got c" "c_state (transition t c) = t"
  "c_recv_next (transition t c) = c_recv_next c" "c_reorder_buffer (transition t c) = c_reorder_buffer c"
  by (simp_all add: received_def transition_def emit_def)

lemma receiver_extend:
  assumes "receiver_inv irs s False got c"
  shows "receiver_inv irs (s @ x) b got c"
proof -
  have "list_all (held irs (s @ x)) (c_reorder_buffer c)"
    using assms in_stream_extend [of irs s] by (auto simp: receiver_inv_def list_all_iff held_def)
  then show ?thesis using assms unfolding receiver_inv_def by auto
qed

lemma receiver_ended: "receiver_inv irs s False got c \<Longrightarrow> receiver_inv irs s b got c"
  using receiver_extend [of irs s got c "[]" b] by simp

lemma receiver_emit [simp]: "receiver_inv irs s ended got (emit e c) = receiver_inv irs s ended got c"
  by (simp add: receiver_inv_def received_def emit_def)

lemma receiver_transition:
  assumes "receiver_inv irs s ended got c"
    and "t \<in> reading \<Longrightarrow> c_state c \<in> insert SYN_RECEIVED reading" "t \<in> peer_finished \<Longrightarrow> c_state c \<in> peer_finished"
    and "t \<in> {LISTEN, SYN_SENT} \<Longrightarrow> c_state c = LISTEN" "t \<noteq> SYN_RECEIVED"
  shows "receiver_inv irs s ended got (transition t c)"
proof -
  have "received got c = []" if "t \<in> {LISTEN, SYN_SENT}"
    using assms(1) assms(4) [OF that] by (simp add: receiver_inv_def)
  moreover have "next_is irs (length (received got c)) (c_recv_next c)" if "t \<in> reading"
    using assms(1) assms(2) [OF that] unfolding receiver_inv_def by blast
  moreover have "ended \<and> received got c = s" if "t \<in> peer_finished"
    using assms(1) assms(3) [OF that] by (simp add: receiver_inv_def)
  ultimately show ?thesis using assms(1,5) by (simp add: receiver_inv_def)
qed

lemma receiver_closed: "receiver_inv irs s ended got c \<Longrightarrow> receiver_inv irs s ended got (transition CLOSED c)"
  by (rule receiver_transition) (simp_all add: reading_def peer_finished_def)

lemma receiver_pure_ack [simp]: "receiver_inv irs s ended got (send_pure_ack c) = receiver_inv irs s ended got c"
  by (simp add: send_pure_ack_def)

lemma receiver_schedule_ack [simp]: "receiver_inv irs s ended got (schedule_or_send_ack c) = receiver_inv irs s ended got c"
  by (simp add: schedule_or_send_ack_def)

lemma receiver_send_flags [simp]: "receiver_inv irs s ended got (send_flags f p i c) = receiver_inv irs s ended got c"
  by (simp add: send_flags_def Let_def)

section \<open>Taking data in\<close>

lemma in_stream_data:
  assumes "in_stream irs s e k False False d" "d \<noteq> []"
  obtains q where "q + length d \<le> length s" "k = irs + 1 + of_nat q" "d = take (length d) (drop q s)"
  using assms by (auto simp: in_stream_def)

lemma next_is_add: "next_is irs n seq \<Longrightarrow> next_is irs (n + k) (seq + of_nat k)"
  by (simp add: next_is_def)

lemma deliver_receives [simp]:
  "received got (deliver p c) = received got c @ p" "c_recv_next (deliver p c) = c_recv_next c + of_nat (length p)"
  by (simp_all add: received_def deliver_def Let_def emit_def)

lemma reading_exclusive:
  "st \<in> reading \<Longrightarrow> st \<notin> peer_finished" "st \<in> reading \<Longrightarrow> st \<notin> {LISTEN, SYN_SENT}"
  by (auto simp: reading_def peer_finished_def)

lemma receiver_deliver:
  assumes inv: "receiver_inv irs s ended got c" and st: "c_state c \<in> reading"
    and p: "prefix (received got c @ p) s"
  shows "receiver_inv irs s ended got (deliver p c)"
proof -
  have "next_is irs (length (received got c)) (c_recv_next c)" using inv st unfolding receiver_inv_def by blast
  from next_is_add [OF this, of "length p"]
  have "next_is irs (length (received got (deliver p c))) (c_recv_next (deliver p c))" by simp
  moreover have "list_all (held irs s) (c_reorder_buffer (deliver p c))"
    using inv by (simp add: receiver_inv_def)
  moreover have "prefix (received got (deliver p c)) s" using p by simp
  ultimately show ?thesis
    unfolding receiver_inv_def deliver_fields using reading_exclusive [OF st] by blast
qed

lemma prefix_piece:
  assumes "prefix d s" "q \<le> length d" "length d \<le> q + length p" "q + length p \<le> length s" "p = take (length p) (drop q s)"
  shows "prefix (d @ drop (length d - q) p) s"
proof -
  have d: "d = take (length d) s" using assms(1) by (metis append_eq_conv_conj prefix_def)
  have "drop (length d - q) p = take (q + length p - length d) (drop (length d) s)"
    by (subst assms(5), subst drop_take) (use assms(2,3) in \<open>simp add: add.commute\<close>)
  then have "d @ drop (length d - q) p = take (q + length p) s"
    using take_split [of "length d" "q + length p" s] assms(3) d by metis
  then show ?thesis by (simp add: take_is_prefix)
qed

lemma receiver_reorder:
  "receiver_inv irs s ended got c \<Longrightarrow> list_all (held irs s) es \<Longrightarrow> receiver_inv irs s ended got (c\<lparr>c_reorder_buffer := es\<rparr>)"
  by (simp add: receiver_inv_def)

lemma receiver_prefix: "receiver_inv irs s ended got c \<Longrightarrow> prefix (received got c) s"
  by (simp add: receiver_inv_def)

lemma receiver_next:
  "receiver_inv irs s ended got c \<Longrightarrow> c_state c \<in> reading \<Longrightarrow> next_is irs (length (received got c)) (c_recv_next c)"
  by (simp add: receiver_inv_def)

lemma receiver_drain:
  assumes "receiver_inv irs s ended got c" "c_state c \<in> reading" "length s < 2 ^ 31"
  shows "receiver_inv irs s ended got (drain_reorder_buffer c) \<and> c_state (drain_reorder_buffer c) = c_state c"
  using assms
proof (induction c rule: drain_reorder_buffer.induct)
  case (1 c)
  show ?case
  proof (cases "map_of (c_reorder_buffer c) (c_recv_next c)")
    case None
    then show ?thesis using 1 by (simp add: drain_reorder_buffer.simps [of c])
  next
    case (Some d)
    define c' where "c' = c\<lparr>c_reorder_buffer := AList.delete (c_recv_next c) (c_reorder_buffer c)\<rparr>"
    have es: "list_all (held irs s) (c_reorder_buffer c)" using 1(2) by (simp add: receiver_inv_def)
    then have in': "receiver_inv irs s ended got c'"
      unfolding c'_def by (intro receiver_reorder 1(2)) (auto simp: list_all_iff dest: set_alist_delete)
    have mem: "in_stream irs s False (c_recv_next c) False False d"
      using map_of_SomeD [OF Some] es by (auto simp: list_all_iff held_def)
    have len: "length (received got c) < 2 ^ 31" 
      using 1(4) prefix_length_le [OF receiver_prefix [OF 1(2)]] by linarith
    have at: "c_recv_next c = irs + 1 + of_nat (length (received got c))" 
      using receiver_next [OF 1(2,3)] by (simp add: next_is_def)
    have "prefix (received got c @ d) s"
    proof (cases "d = []")
      case False
      from in_stream_data [OF mem False] obtain q where
        q: "q + length d \<le> length s" "c_recv_next c = irs + 1 + of_nat q" "d = take (length d) (drop q s)" by metis
      have "q = length (received got c)"
        using at q(1,2) 1(4) len of_nat_u32_eq [of q "length (received got c)"] by simp
      then show ?thesis using prefix_piece [of "received got c" s q d] q receiver_prefix [OF 1(2)] by simp
    qed (use receiver_prefix [OF 1(2)] in simp)
    then have "receiver_inv irs s ended got (deliver d c')"
      using in' 1(3) by (intro receiver_deliver) (simp_all add: c'_def received_def)
    from 1(1) [OF Some] this show ?thesis
      using 1(3,4) Some by (simp add: drain_reorder_buffer.simps [of c] c'_def)
  qed
qed


lemma seq_distance:
  assumes "m < 2 ^ 31" "n < 2 ^ 31"
  shows "unat ((of_nat m :: u32) - of_nat n) = (if n \<le> m then m - n else m + 2 ^ 32 - n)"
proof -
  have "unat (of_nat m :: u32) = m" "unat (of_nat n :: u32) = n" using assms by (simp_all add: unat_of_nat_u32)
  note e = this
  show ?thesis unfolding unat_sub_if_size e word_size by simp
qed

lemma set_map_insert: "set (map_insert k d es) = insert (k, d) (set es)"
  by (induction k d es rule: map_insert.induct) auto

lemma receiver_payload:
  assumes inv: "receiver_inv irs s ended got c" and st: "c_state c \<in> reading" and len: "length s < 2 ^ 31"
    and p: "in_stream irs s e seq False False p" "p \<noteq> []"
  shows "receiver_inv irs s ended got (receive_payload seq p c)"
proof -
  let ?n = "length (received got c)"
  obtain q where q: "q + length p \<le> length s" "seq = irs + 1 + of_nat q" "p = take (length p) (drop q s)"
    using in_stream_data [OF p] .
  have n: "?n \<le> length s" using prefix_length_le [OF receiver_prefix [OF inv]] .
  have at: "c_recv_next c = irs + 1 + of_nat ?n" using receiver_next [OF inv st] by (simp add: next_is_def)
  note piece = prefix_piece [OF receiver_prefix [OF inv] _ _ q(1,3)]
  have drained: "receiver_inv irs s ended got (drain_reorder_buffer (deliver x c))" if "prefix (received got c @ x) s" for x
    using receiver_drain [OF receiver_deliver [OF inv st that] _ len] st by simp
  have "receiver_inv irs s ended got (drain_reorder_buffer (deliver p c))" if "seq = c_recv_next c"
  proof (rule drained)
    have "q = ?n" using that at q(1,2) n len of_nat_u32_eq [of q ?n] by simp
    then show "prefix (received got c @ p) s" using piece by simp
  qed
  moreover have "receiver_inv irs s ended got
      (c\<lparr>c_reorder_buffer := map_insert seq p (c_reorder_buffer c), c_last_out_of_order_seq := x\<rparr>)" for x
    using receiver_reorder [OF inv, of "map_insert seq p (c_reorder_buffer c)"] inv p(1)
    by (simp add: list_all_iff set_map_insert held_def in_stream_def receiver_inv_def)
  moreover have "receiver_inv irs s ended got (drain_reorder_buffer (deliver (drop (unat (c_recv_next c - seq)) p) c))"
    if "unat (c_recv_next c - seq) < length p"
  proof (rule drained)
    have "unat (c_recv_next c - seq) = (if q \<le> ?n then ?n - q else ?n + 2 ^ 32 - q)"
      using seq_distance [of ?n q] n q(1) len unfolding at q(2) by simp
    moreover have "length p < 2 ^ 31" "q < 2 ^ 31" using q(1) len by simp_all
    ultimately have "q \<le> ?n" "unat (c_recv_next c - seq) = ?n - q" using that by (simp_all split: if_splits)
    then show "prefix (received got c @ drop (unat (c_recv_next c - seq)) p) s" using piece that by simp
  qed
  ultimately show ?thesis
    unfolding receive_payload_def Let_def using inv by simp
qed

lemma transition_ack:
  "receiver_inv irs s ended got (transition t (send_pure_ack c)) = receiver_inv irs s ended got (transition t c)"
  by (simp add: transition_def send_pure_ack_def emit_def receiver_inv_def)

lemma receiver_handle_fin:
  assumes inv: "receiver_inv irs s ended got c" and st: "c_state c \<noteq> SYN_RECEIVED" and len: "length s < 2 ^ 31"
    and fin: "ended" "fin_seq = irs + 1 + of_nat (length s)"
  shows "receiver_inv irs s ended got (handle_fin fin_seq c)"
proof (cases "c_state c \<in> reading \<and> fin_seq = c_recv_next c")
  case True
  define d where "d = c\<lparr>c_recv_next := c_recv_next c + 1\<rparr>"
  have "of_nat (length (received got c)) = (of_nat (length s) :: u32)"
    using True receiver_next [OF inv] fin(2) by (simp add: next_is_def)
  moreover have "length (received got c) \<le> length s" using prefix_length_le [OF receiver_prefix [OF inv]] .
  ultimately have "length (received got c) = length s" using len of_nat_u32_eq by simp
  then have all: "received got c = s" using receiver_prefix [OF inv] by (auto elim!: prefixE)
  have "receiver_inv irs s ended got (transition t d)" if "t \<in> peer_finished" for t
  proof -
    have "t \<notin> reading" "t \<notin> {LISTEN, SYN_SENT}" "t \<noteq> SYN_RECEIVED" using that by (auto simp: reading_def peer_finished_def)
    then show ?thesis using inv all fin(1) by (simp add: receiver_inv_def d_def)
  qed
  then have "receiver_inv irs s ended got (send_pure_ack (transition CLOSE_WAIT d))"
    "receiver_inv irs s ended got (transition TIME_WAIT (send_pure_ack d))"
    "receiver_inv irs s ended got (transition CLOSING (send_pure_ack d))"
    by (simp_all add: peer_finished_def transition_ack)
  moreover have "c_state c = ESTABLISHED \<or> c_state c = FIN_WAIT_1 \<or> c_state c = FIN_WAIT_2" "c_state d = c_state c"
    using True by (auto simp: reading_def d_def)
  ultimately show ?thesis using True unfolding handle_fin_def Let_def d_def [symmetric] by auto
next
  case False
  show ?thesis
  proof (cases "c_state c \<in> reading")
    case True
    then show ?thesis using False inv unfolding handle_fin_def Let_def by (simp add: reading_def)
  next
    case False
    then have "receiver_inv irs s ended got (c\<lparr>c_recv_next := x\<rparr>)" for x
      using inv st by (simp add: receiver_inv_def)
    moreover have "c_state c \<noteq> ESTABLISHED" "c_state c \<noteq> FIN_WAIT_1" "c_state c \<noteq> FIN_WAIT_2"
      using False by (auto simp: reading_def)
    ultimately show ?thesis using inv unfolding handle_fin_def Let_def by simp
  qed
qed

section \<open>The receiver across whole handlers\<close>

lemma receiver_persist [simp]: "receiver_inv irs s ended got (arm_or_disarm_persist c) = receiver_inv irs s ended got c"
  by (simp add: arm_or_disarm_persist_def)

lemma receiver_loop [simp]: "receiver_inv irs s ended got (send_queued_loop q c) = receiver_inv irs s ended got c"
  by (induction q arbitrary: c) simp_all

lemma receiver_send_queue [simp]:
  "receiver_inv irs s ended got (send_queued_while_window_allows c) = receiver_inv irs s ended got c"
  by (simp add: send_queued_while_window_allows_def)

lemma receiver_chunk [simp]: "receiver_inv irs s ended got (send_chunk p c) = receiver_inv irs s ended got c"
  by (simp add: send_chunk_def Let_def)

lemma receiver_conn_close:
  assumes "receiver_inv irs s ended got c"
  shows "receiver_inv irs s ended got (conn_close c)"
proof -
  have "receiver_inv irs s ended got (transition (if c_state c = ESTABLISHED then FIN_WAIT_1 else LAST_ACK) c)"
    if "c_state c = ESTABLISHED \<or> c_state c = CLOSE_WAIT"
    by (rule receiver_transition [OF assms]) (use that in \<open>auto simp: reading_def peer_finished_def split: if_splits\<close>)
  then show ?thesis using assms unfolding conn_close_def by auto
qed

lemma receiver_resend [simp]: "receiver_inv irs s ended got (resend e c) = receiver_inv irs s ended got c"
  by (simp add: resend_def Let_def)

lemma receiver_rtt [simp]: "receiver_inv irs s ended got (take_rtt_sample seg a c) = receiver_inv irs s ended got c"
  by (simp add: take_rtt_sample_def update_rto_from_sample_def smooth_rtt_def Let_def)

lemma receiver_grow [simp]: "receiver_inv irs s ended got (grow_window a c) = receiver_inv irs s ended got c"
  by (simp add: grow_window_def Let_def)

lemma receiver_duplicate_ack [simp]:
  "receiver_inv irs s ended got (handle_duplicate_ack b c) = receiver_inv irs s ended got c"
proof -
  define d where "d = c\<lparr>c_dup_ack_count := c_dup_ack_count c + 1\<rparr>"
  have "receiver_inv irs s ended got d = receiver_inv irs s ended got c" by (simp add: d_def)
  then show ?thesis
    unfolding handle_duplicate_ack_def Let_def d_def [symmetric] by (simp split: option.split)
qed

lemma receiver_resume: "receiver_inv irs s ended got c \<Longrightarrow> receiver_inv irs s ended got (resume_sending c)"
  by (simp add: resume_sending_def Let_def receiver_conn_close)

lemma receiver_after_ack:
  assumes c: "receiver_inv irs s ended got c"
  shows "receiver_inv irs s ended got
    (if f \<and> c_state c = FIN_WAIT_1 then transition FIN_WAIT_2 c
     else if f \<and> c_state c = CLOSING then (transition TIME_WAIT c)\<lparr>c_time_wait_ms_remaining := TIME_WAIT_MS\<rparr>
     else if f \<and> c_state c = LAST_ACK then transition CLOSED c
     else resume_sending c)"
proof -
  have "receiver_inv irs s ended got (transition FIN_WAIT_2 c)" if "c_state c = FIN_WAIT_1"
    by (rule receiver_transition [OF c]) (simp_all add: that reading_def peer_finished_def)
  moreover have "receiver_inv irs s ended got (transition TIME_WAIT c)" if "c_state c = CLOSING"
    by (rule receiver_transition [OF c]) (simp_all add: that reading_def peer_finished_def)
  ultimately show ?thesis using c by (simp add: receiver_resume receiver_closed)
qed

lemma receiver_new_ack:
  assumes "receiver_inv irs s ended got c"
  shows "receiver_inv irs s ended got (handle_new_ack seg c)"
proof -
  define d where "d = c\<lparr>c_dup_ack_count := 0\<rparr>"
  have d: "receiver_inv irs s ended got d" using assms by (simp add: d_def)
  obtain es a where r: "retire_acked (tcp_acknowledgement_number seg) (c_now_ms d) (c_in_flight d)
      \<lparr>ak_bytes = 0, ak_fin = False, ak_anything = False, ak_have_rtt = False, ak_rtt_ms = 0,
       ak_unsacked = c_unsacked_in_flight_bytes d\<rparr> = (es, a)"
    by (rule prod.exhaust)
  define t where "t = take_rtt_sample seg a (d\<lparr>c_in_flight := es, c_unsacked_in_flight_bytes := ak_unsacked a\<rparr>)"
  have t: "receiver_inv irs s ended got t" unfolding t_def using d by simp
  then have "receiver_inv irs s ended got (grow_window a t)" by simp
  then show ?thesis
    unfolding handle_new_ack_def Let_def d_def [symmetric] r prod.case t_def [symmetric]
    by (intro if_both [where P = "receiver_inv irs s ended got"] receiver_after_ack) (simp_all add: t)
qed

lemma receiver_handle_ack:
  assumes "receiver_inv irs s ended got c"
  shows "receiver_inv irs s ended got (handle_ack seg c)"
proof -
  obtain b d where r: "apply_sack_blocks seg c = (b, d)" by (rule prod.exhaust)
  have "receiver_inv irs s ended got d"
    using assms r by (auto simp: apply_sack_blocks_def split: if_splits prod.splits)
  then show ?thesis
    unfolding handle_ack_def r Let_def prod.case by (simp add: receiver_new_ack)
qed


lemma state_frame [simp]:
  "c_state (arm_or_disarm_persist c) = c_state c" "c_state (resend e c) = c_state c"
  "c_state (take_rtt_sample seg a c) = c_state c" "c_state (grow_window a c) = c_state c"
  "c_state (snd (apply_sack_blocks seg c)) = c_state c"
  by (simp_all add: arm_or_disarm_persist_def resend_def Let_def take_rtt_sample_def update_rto_from_sample_def
      smooth_rtt_def grow_window_def apply_sack_blocks_def split: prod.split)

lemma state_loop [simp]: "c_state (send_queued_loop q c) = c_state c"
  by (induction q arbitrary: c) simp_all

lemma state_send_queue [simp]: "c_state (send_queued_while_window_allows c) = c_state c"
  by (simp add: send_queued_while_window_allows_def)

lemma state_duplicate_ack [simp]: "c_state (handle_duplicate_ack b c) = c_state c"
proof -
  define d where "d = c\<lparr>c_dup_ack_count := c_dup_ack_count c + 1\<rparr>"
  have "c_state d = c_state c" by (simp add: d_def)
  then show ?thesis unfolding handle_duplicate_ack_def Let_def d_def [symmetric] by (simp split: option.split)
qed

lemma state_conn_close: "c_state (conn_close c) \<in> {c_state c, FIN_WAIT_1, LAST_ACK}"
  by (simp add: conn_close_def)

lemma state_resume: "c_state (resume_sending c) \<in> {c_state c, FIN_WAIT_1, LAST_ACK}"
  unfolding resume_sending_def Let_def using state_conn_close [of "send_queued_while_window_allows c\<lparr>c_fin_requested := False\<rparr>"]
  by simp

lemma state_new_ack:
  "c_state (handle_new_ack seg c) \<in> {c_state c, FIN_WAIT_1, LAST_ACK, FIN_WAIT_2, TIME_WAIT, CLOSED}"
proof -
  define d where "d = c\<lparr>c_dup_ack_count := 0\<rparr>"
  obtain es a where r: "retire_acked (tcp_acknowledgement_number seg) (c_now_ms d) (c_in_flight d)
      \<lparr>ak_bytes = 0, ak_fin = False, ak_anything = False, ak_have_rtt = False, ak_rtt_ms = 0,
       ak_unsacked = c_unsacked_in_flight_bytes d\<rparr> = (es, a)"
    by (rule prod.exhaust)
  define t where "t = take_rtt_sample seg a (d\<lparr>c_in_flight := es, c_unsacked_in_flight_bytes := ak_unsacked a\<rparr>)"
  have t: "c_state t = c_state c" by (simp add: t_def d_def)
  define g where "g = grow_window a t"
  have g: "c_state g = c_state c" by (simp add: g_def t)
  have "c_state (resume_sending g) \<in> {c_state c, FIN_WAIT_1, LAST_ACK}" using state_resume [of g] g by simp
  then show ?thesis
    unfolding handle_new_ack_def Let_def d_def [symmetric] r prod.case t_def [symmetric] g_def [symmetric] using t g by auto
qed

lemma state_handle_ack:
  "c_state (handle_ack seg c) \<in> {c_state c, FIN_WAIT_1, LAST_ACK, FIN_WAIT_2, TIME_WAIT, CLOSED}"
proof -
  obtain b d where r: "apply_sack_blocks seg c = (b, d)" by (rule prod.exhaust)
  have "c_state d = c_state c" using r state_frame(5) [of seg c] by simp
  then show ?thesis
    unfolding handle_ack_def r Let_def prod.case
    using state_new_ack [of seg "d\<lparr>c_peer_window := push_bit (if c_window_scaling_negotiated d then unat (c_peer_window_scale d) else 0) (ucast (tcp_window seg))\<rparr>"]
    by auto
qed

definition segment_payload :: "tcp \<Rightarrow> bytes" where
  "segment_payload seg = (case tcp_next_layer seg of Some data \<Rightarrow> data | None \<Rightarrow> [])"

lemma receiver_process:
  assumes inv: "receiver_inv irs s ended got c" and st: "c_state c \<noteq> SYN_RECEIVED" and len: "length s < 2 ^ 31"
    and seg: "segment_in_stream irs s ended seg (segment_payload seg)"
  shows "receiver_inv irs s ended got (process_segment seg c)"
proof -
  define d where "d = (if tcp_ack seg then handle_ack seg c else c)"
  have d: "receiver_inv irs s ended got d" "c_state d \<noteq> SYN_RECEIVED"
    using inv st state_handle_ack [of seg c] by (auto simp: d_def receiver_handle_ack)
  define e where "e = (if c_state d \<in> {ESTABLISHED, FIN_WAIT_1, FIN_WAIT_2} \<and> segment_payload seg \<noteq> []
    then receive_payload (tcp_sequence_number seg) (segment_payload seg) d else d)"
  have nf: "segment_payload seg \<noteq> [] \<Longrightarrow> in_stream irs s ended (tcp_sequence_number seg) False False (segment_payload seg)"
    using seg by (auto simp: segment_in_stream_def in_stream_def)
  have e: "receiver_inv irs s ended got e"
    using receiver_payload [OF d(1) _ len nf] d(1) by (simp add: e_def reading_def)
  have fin: "ended \<and> tcp_sequence_number seg = irs + 1 + of_nat (length s)
      \<and> segment_payload seg = []" if "tcp_fin seg"
    using seg that by (simp add: segment_in_stream_def in_stream_def)
  have "receiver_inv irs s ended got (handle_fin (tcp_sequence_number seg + of_nat (length (segment_payload seg))) e)"
    if "tcp_fin seg"
    using receiver_handle_fin [OF e _ len] fin [OF that] d(2) by (simp add: e_def)
  then show ?thesis
    unfolding process_segment_def Let_def segment_payload_def [symmetric] d_def [symmetric] e_def [symmetric]
    using e by simp
qed

lemma receiver_establish:
  assumes "receiver_inv irs s ended got c" "received got c = []"
    and "received got d = []" "c_reorder_buffer d = c_reorder_buffer c" "c_recv_next d = irs + 1"
    and "t = SYN_RECEIVED \<or> t = ESTABLISHED"
  shows "receiver_inv irs s ended got (transition t d)"
  using assms by (auto simp: receiver_inv_def next_is_def peer_finished_def)

lemma receiver_syn_sent:
  assumes inv: "receiver_inv irs s ended got c" and st: "c_state c = SYN_SENT"
    and seg: "segment_in_stream irs s ended seg (segment_payload seg)"
  shows "receiver_inv irs s ended got (handle_syn_sent seg c)"
proof (cases "tcp_syn seg \<and> tcp_ack seg \<and> tcp_acknowledgement_number seg = c_send_next c")
  case True
  have seq: "tcp_sequence_number seg = irs" using seg True by (simp add: segment_in_stream_def in_stream_def)
  have "received got c = []" using inv st by (simp add: receiver_inv_def)
  then show ?thesis
    unfolding handle_syn_sent_def Let_def seq if_P [OF True] receiver_pure_ack
    by (intro receiver_establish [OF inv]) simp_all
next
  case False
  then show ?thesis using inv unfolding handle_syn_sent_def by auto
qed

lemma receiver_syn_received:
  assumes inv: "receiver_inv irs s ended got c" and st: "c_state c = SYN_RECEIVED"
  shows "receiver_inv irs s ended got (handle_syn_received seg c)"
  unfolding handle_syn_received_def Let_def
  by (intro if_both [where P = "receiver_inv irs s ended got"] receiver_transition)
    (use inv st in \<open>simp_all add: peer_finished_def\<close>)

lemma receiver_on_segment:
  assumes inv: "receiver_inv irs s ended got c" and len: "length s < 2 ^ 31"
    and seg: "segment_in_stream irs s ended seg (segment_payload seg)"
  shows "receiver_inv irs s ended got (on_segment seg c)"
proof -
  define d where "d = reset_keepalive c"
  have d: "receiver_inv irs s ended got d" using inv by (simp add: d_def reset_keepalive_def)
  define r where "r = record_timestamp seg d"
  have r: "receiver_inv irs s ended got r" "c_state r = c_state d" using d by (simp_all add: r_def record_timestamp_def)
  have "receiver_inv irs s ended got (process_segment seg r)" if "c_state d \<noteq> SYN_RECEIVED"
    using receiver_process [OF r(1) _ len seg] r(2) that by simp
  moreover have "receiver_inv irs s ended got (handle_rst seg d)"
    using d by (simp add: handle_rst_def receiver_closed)
  ultimately show ?thesis
    unfolding on_segment_def Let_def d_def [symmetric] r_def [symmetric]
    using d receiver_syn_sent [OF d _ seg] receiver_syn_received [OF d] by simp
qed

lemma receiver_on_time:
  assumes "receiver_inv irs s ended got c"
  shows "receiver_inv irs s ended got (on_time_passed t c)"
proof -
  define d where "d = c\<lparr>c_now_ms := c_now_ms c + ucast t\<rparr>"
  define e where "e = run_delayed_ack t d"
  have d: "receiver_inv irs s ended got d" using assms by (simp add: d_def)
  then have e: "receiver_inv irs s ended got e" by (simp add: e_def run_delayed_ack_def Let_def)
  have p: "receiver_inv irs s ended got (run_persist t e)"
    using e by (simp add: run_persist_def Let_def send_zero_window_probe_def split: list.split)
  have k: "receiver_inv irs s ended got (run_keepalive t e)"
    using e by (simp add: run_keepalive_def Let_def send_keepalive_probe_def receiver_closed)
  have r: "receiver_inv irs s ended got (run_retransmit t e)"
    unfolding run_retransmit_def Let_def using e by (simp add: receiver_closed split: option.split)
  show ?thesis
    unfolding on_time_passed_def Let_def d_def [symmetric] e_def [symmetric]
    using assms d p k r by (simp add: receiver_closed)
qed

lemma receiver_send_loop:
  assumes "send_loop data accepted offset c = Some d" "receiver_inv irs s ended got c"
  shows "receiver_inv irs s ended got d"
proof -
  have "receiver_inv irs s ended got c \<longrightarrow> receiver_inv irs s ended got d"
    using assms(1)
  proof (rule send_loop.raw_induct [rotated], goal_cases)
    case (1 loop data accepted offset c d)
    then show ?case by (auto simp: Let_def split: if_splits)
  qed
  then show ?thesis using assms(2) by blast
qed

lemma receiver_conn_send:
  assumes "conn_send data c = Some (n, d)" "receiver_inv irs s ended got c"
  shows "receiver_inv irs s ended got d"
  using assms receiver_send_loop [of data n 0 c _ irs s ended got]
  by (auto simp: conn_send_def Let_def split: if_splits)

lemma take_queued_concat:
  "take_queued m q taken = (t, q') \<Longrightarrow> t @ concat q' = taken @ concat q"
  by (induction m q taken rule: take_queued.induct) (auto simp: Let_def split: if_splits)

lemma receiver_conn_read:
  assumes "conn_read m c = (t, d)" "receiver_inv irs s ended got c"
  shows "receiver_inv irs s ended (got @ t) d"
proof -
  obtain q where q: "take_queued m (c_receive_queue c) [] = (t, q)"
    using assms(1) by (auto simp: conn_read_def Let_def split: prod.splits)
  define e where "e = c\<lparr>c_receive_queue := q, c_receive_queued_bytes := c_receive_queued_bytes c - length t\<rparr>"
  have "received (got @ t) e = received got c"
    using take_queued_concat [OF q] by (simp add: received_def e_def)
  then have "receiver_inv irs s ended (got @ t) e"
    using assms(2) by (simp add: receiver_inv_def e_def)
  moreover have "d = e \<or> d = send_pure_ack e"
    using assms(1) q by (auto simp: conn_read_def Let_def e_def split: if_splits)
  ultimately show ?thesis by auto
qed

lemma receiver_accept:
  assumes "receiver_inv irs s ended got c" "c_state c = LISTEN"
  shows "receiver_inv irs s ended got (accept_incoming_syn irs a2 a3 a4 a5 a6 a7 c)"
proof -
  have "received got c = []" using assms by (simp add: receiver_inv_def)
  then show ?thesis
    unfolding accept_incoming_syn_def Let_def receiver_send_flags
    by (intro receiver_establish [OF assms(1)]) simp_all
qed

lemma receiver_initiate:
  assumes "receiver_inv irs s ended got c" "c_state c = LISTEN"
  shows "receiver_inv irs s ended got (initiate_connect c)"
  unfolding initiate_connect_def receiver_send_flags
  by (rule receiver_transition [OF assms(1)]) (simp_all add: assms(2) reading_def peer_finished_def)

lemma receiver_new: "receiver_inv irs [] False [] (new_connection i lp ip rp iss mss alg)"
  by (simp add: new_connection_def receiver_inv_def received_def reading_def peer_finished_def)

lemma receiver_settings:
  assumes "receiver_inv irs s ended got c"
  shows "receiver_inv irs s ended got (set_keepalive b c)" "receiver_inv irs s ended got (reduce_effective_mss m c)"
    "receiver_inv irs s ended got (set_data_ready_callback b c)" "receiver_inv irs s ended got (fail c)"
  using assms
  by (simp_all add: set_keepalive_def reset_keepalive_def reduce_effective_mss_def set_data_ready_callback_def fail_def
      Let_def receiver_closed)

end
