(* ===== verification/Tcp_Path.thy ===== *)
theory Tcp_Path
  imports Tcp_Receiver
begin

text \<open>
  The trip of a TCP segment between two connections. \<open>NetworkStack::_send_tcp_segment\<close> rebuilds the
  header it is handed, computes the transport checksum and writes the bytes; \<open>NetworkStack::_handle_tcp\<close>
  verifies the checksum over the received bytes and hands the parsed segment to the connection, or
  opens one for a SYN to a listening port. Two endpoints and a network that may lose, duplicate,
  delay and reorder whatever either side emitted make up a world; the end-to-end theorems are about
  every run of it.
\<close>

section \<open>Sending\<close>

definition IP_PROTOCOL_TCP :: u8 where "IP_PROTOCOL_TCP = 6"

definition rebuilt_flags :: "tcp \<Rightarrow> u8" where
  "rebuilt_flags header =
     (if tcp_cwr header then 0x80 else 0) OR (if tcp_ece header then 0x40 else 0) OR
     (if tcp_urg header then 0x20 else 0) OR (if tcp_ack header then 0x10 else 0) OR
     (if tcp_psh header then 0x08 else 0) OR (if tcp_rst header then 0x04 else 0) OR
     (if tcp_syn header then 0x02 else 0) OR (if tcp_fin header then 0x01 else 0)"

definition rebuild_segment :: "tcp \<Rightarrow> bytes \<Rightarrow> tcp" where
  "rebuild_segment header payload =
     (let segment = tcp_new (tcp_src_port header) (tcp_dest_port header) (tcp_sequence_number header)
            (tcp_acknowledgement_number header) (tcp_data_offset header) (rebuilt_flags header)
            (tcp_window header) 0 (tcp_urgent_ptr header);
          segment = (if tcp_has_mss_option header then tcp_set_mss_option (tcp_mss_option header) segment else segment);
          segment = (if tcp_has_window_scale_option header
                     then tcp_set_window_scale_option (tcp_window_scale_option header) segment else segment)
      in if payload \<noteq> [] then segment\<lparr>tcp_next_layer := Some payload\<rparr> else segment)"

definition tcp_segment_bytes :: "ipv4 \<Rightarrow> ipv4 \<Rightarrow> tcp \<Rightarrow> bytes \<Rightarrow> bytes" where
  "tcp_segment_bytes source dest header payload =
     (let segment = rebuild_segment header payload;
          csum = transport_checksum source dest IP_PROTOCOL_TCP (tcp_to_bytes segment)
      in tcp_to_bytes (segment\<lparr>tcp_checksum := csum\<rparr>))"

section \<open>Receiving\<close>

definition open_connection :: "tcp \<Rightarrow> tcp_connection \<Rightarrow> tcp_connection" where
  "open_connection segment =
     accept_incoming_syn (tcp_sequence_number segment)
       (if tcp_has_mss_option segment then tcp_mss_option segment else 0)
       (tcp_has_window_scale_option segment)
       (if tcp_has_window_scale_option segment then tcp_window_scale_option segment else 0)
       False 0 False"

definition segment_arrives :: "ipv4 \<Rightarrow> ipv4 \<Rightarrow> bytes \<Rightarrow> tcp_connection \<Rightarrow> tcp_connection" where
  "segment_arrives source dest data c =
     (case tcp_of_bytes data of
        Inl e \<Rightarrow> c
      | Inr segment \<Rightarrow>
          if transport_checksum source dest IP_PROTOCOL_TCP (tcp_received_bytes segment) \<noteq> 0 then c
          else if c_state c = LISTEN then (if tcp_syn segment then open_connection segment c else c)
          else on_segment segment c)"

section \<open>Worlds\<close>

record endpoint =
  ep_ip :: ipv4
  ep_conn :: tcp_connection
  ep_written :: bytes
  ep_read :: bytes

datatype endpoint_action =
  Connect | Write bytes | Read nat | Shutdown | Tick u32 | Keepalive bool | Path_mss u16 | Abort | Arrive nat

fun endpoint_step :: "endpoint \<Rightarrow> endpoint_action \<Rightarrow> endpoint \<Rightarrow> endpoint option" where
  "endpoint_step peer Connect e =
     (if c_state (ep_conn e) = LISTEN then Some (e\<lparr>ep_conn := initiate_connect (ep_conn e)\<rparr>) else Some e)"
| "endpoint_step peer (Write data) e =
     (case conn_send data (ep_conn e) of
        None \<Rightarrow> None
      | Some (n, c) \<Rightarrow> Some (e\<lparr>ep_conn := c, ep_written := ep_written e @ take n data\<rparr>))"
| "endpoint_step peer (Read n) e =
     (let (data, c) = conn_read n (ep_conn e) in Some (e\<lparr>ep_conn := c, ep_read := ep_read e @ data\<rparr>))"
| "endpoint_step peer Shutdown e = Some (e\<lparr>ep_conn := conn_close (ep_conn e)\<rparr>)"
| "endpoint_step peer (Tick ms) e = Some (e\<lparr>ep_conn := on_time_passed ms (ep_conn e)\<rparr>)"
| "endpoint_step peer (Keepalive b) e = Some (e\<lparr>ep_conn := set_keepalive b (ep_conn e)\<rparr>)"
| "endpoint_step peer (Path_mss m) e = Some (e\<lparr>ep_conn := reduce_effective_mss m (ep_conn e)\<rparr>)"
| "endpoint_step peer Abort e = Some (e\<lparr>ep_conn := fail (ep_conn e)\<rparr>)"
| "endpoint_step peer (Arrive i) e =
     (if i < length (c_events (ep_conn peer)) then
        (case c_events (ep_conn peer) ! i of
           Segment h p \<Rightarrow>
             Some (e\<lparr>ep_conn := segment_arrives (ep_ip peer) (ep_ip e)
                       (tcp_segment_bytes (ep_ip peer) (ep_ip e) h p) (ep_conn e)\<rparr>)
         | State_changed s \<Rightarrow> Some e
         | Data_ready \<Rightarrow> Some e)
      else Some e)"

datatype world_action = First endpoint_action | Second endpoint_action

fun world_step :: "world_action \<Rightarrow> endpoint \<times> endpoint \<Rightarrow> (endpoint \<times> endpoint) option" where
  "world_step (First s) (a, b) = map_option (\<lambda>a'. (a', b)) (endpoint_step b s a)"
| "world_step (Second s) (a, b) = map_option (\<lambda>b'. (a, b')) (endpoint_step a s b)"

fun world_run :: "world_action list \<Rightarrow> endpoint \<times> endpoint \<Rightarrow> (endpoint \<times> endpoint) option" where
  "world_run [] w = Some w"
| "world_run (s # ss) w = (case world_step s w of None \<Rightarrow> None | Some w' \<Rightarrow> world_run ss w')"

definition fresh_endpoint :: "ipv4 \<Rightarrow> tcp_connection \<Rightarrow> endpoint" where
  "fresh_endpoint ip c = \<lparr>ep_ip = ip, ep_conn = c, ep_written = [], ep_read = []\<rparr>"

section \<open>The bytes on the wire\<close>

lemma rebuilt_flags_eq: "rebuilt_flags h = tcp_flags_byte h"
  by (simp add: rebuilt_flags_def tcp_flags_byte_def of_bool_def or.assoc)

lemma rebuild_fields [simp]:
  "tcp_sequence_number (rebuild_segment h p) = tcp_sequence_number h"
  "tcp_syn (rebuild_segment h p) = tcp_syn h" "tcp_fin (rebuild_segment h p) = tcp_fin h"
  "tcp_next_layer (rebuild_segment h p) = (if p = [] then None else Some p)"
  "tcp_has_window_scale_option (rebuild_segment h p) = tcp_has_window_scale_option h"
  "tcp_window_scale_option (rebuild_segment h p)
     = (if tcp_has_window_scale_option h then tcp_window_scale_option h else 0)"
  "tcp_has_timestamp_option (rebuild_segment h p) = False" "tcp_has_sack_permitted_option (rebuild_segment h p) = False"
  "tcp_sack_blocks (rebuild_segment h p) = []"
  unfolding rebuild_segment_def Let_def rebuilt_flags_eq
  by (simp_all add: tcp_new_def tcp_flags_byte_bits tcp_set_mss_option_def tcp_set_window_scale_option_def)

lemma tcp_options_checksum [simp]: "tcp_options_to_bytes (t\<lparr>tcp_checksum := x\<rparr>) = tcp_options_to_bytes t"
  by (simp add: tcp_options_to_bytes_def)

lemma nop_padding_length: "length (nop_padding xs) = 4 * ((length xs + 3) div 4)"
proof (induction xs rule: nop_padding.induct)
  case (1 xs)
  show ?case
  proof (cases "length xs mod 4 = 0")
    case True
    then have "length (nop_padding xs) = length xs" by (subst nop_padding.simps) simp
    then show ?thesis using True by presburger
  next
    case False
    then have "length (nop_padding xs) = 4 * ((length (append_int xs (1 :: u8)) + 3) div 4)"
      using 1 by (subst nop_padding.simps) simp
    moreover have "length (append_int xs (1 :: u8)) = Suc (length xs)" by (simp add: append_int_eq)
    ultimately show ?thesis using False by presburger
  qed
qed

lemma rebuilt_options_short: "length (tcp_options_to_bytes (rebuild_segment h p)) \<le> 8"
proof -
  define xs where "xs = tcp_option_parts (rebuild_segment h p)"
  have "length xs \<le> 7" by (simp add: xs_def tcp_option_parts_def)
  then show ?thesis unfolding tcp_options_image xs_def [symmetric] nop_padding_length by presburger
qed

definition sent_segment :: "ipv4 \<Rightarrow> ipv4 \<Rightarrow> tcp \<Rightarrow> bytes \<Rightarrow> tcp" where
  "sent_segment source dest h p = (rebuild_segment h p)\<lparr>tcp_checksum :=
     transport_checksum source dest IP_PROTOCOL_TCP (tcp_to_bytes (rebuild_segment h p))\<rparr>"

lemma sent_segment_fields [simp]:
  "tcp_sequence_number (sent_segment source dest h p) = tcp_sequence_number h"
  "tcp_acknowledgement_number (sent_segment source dest h p) = tcp_acknowledgement_number h"
  "tcp_syn (sent_segment source dest h p) = tcp_syn h" "tcp_fin (sent_segment source dest h p) = tcp_fin h"
  "tcp_ack (sent_segment source dest h p) = tcp_ack h" "tcp_rst (sent_segment source dest h p) = tcp_rst h"
  "tcp_cwr (sent_segment source dest h p) = tcp_cwr h" "tcp_ece (sent_segment source dest h p) = tcp_ece h"
  "tcp_urg (sent_segment source dest h p) = tcp_urg h" "tcp_psh (sent_segment source dest h p) = tcp_psh h"
  "tcp_src_port (sent_segment source dest h p) = tcp_src_port h" "tcp_dest_port (sent_segment source dest h p) = tcp_dest_port h"
  "tcp_urgent_ptr (sent_segment source dest h p) = tcp_urgent_ptr h"
  "tcp_window (sent_segment source dest h p) = tcp_window h"
  "tcp_next_layer (sent_segment source dest h p) = (if p = [] then None else Some p)"
  "tcp_has_mss_option (sent_segment source dest h p) = tcp_has_mss_option h"
  "tcp_mss_option (sent_segment source dest h p) = (if tcp_has_mss_option h then tcp_mss_option h else 0)"
  "tcp_has_window_scale_option (sent_segment source dest h p) = tcp_has_window_scale_option h"
  "tcp_window_scale_option (sent_segment source dest h p)
     = (if tcp_has_window_scale_option h then tcp_window_scale_option h else 0)"
  "tcp_has_timestamp_option (sent_segment source dest h p) = False"
  "tcp_has_sack_permitted_option (sent_segment source dest h p) = False"
  "tcp_sack_blocks (sent_segment source dest h p) = []"
  unfolding sent_segment_def rebuild_segment_def Let_def rebuilt_flags_eq
  by (simp_all add: tcp_new_def tcp_flags_byte_bits tcp_set_mss_option_def tcp_set_window_scale_option_def)

lemma sent_options_short: "length (tcp_options_to_bytes (sent_segment source dest h p)) \<le> 8"
  unfolding sent_segment_def using rebuilt_options_short by simp

lemma sent_segment_parses:
  assumes "header_fits h" "length p < 2 ^ 31"
  shows "tcp_of_bytes (tcp_segment_bytes source dest h p) = Inr (tcp_on_wire (sent_segment source dest h p))"
proof -
  let ?s = "sent_segment source dest h p"
  have o: "length (tcp_options_to_bytes ?s) \<le> 8" by (rule sent_options_short)
  have "length (tcp_to_bytes ?s) = 20 + length (tcp_options_to_bytes ?s) + length p"
    unfolding tcp_to_bytes_length by simp
  then have "length (tcp_to_bytes ?s) < 2 ^ 64" using o assms(2) by simp
  moreover have "tcp_has_window_scale_option ?s \<longrightarrow> tcp_window_scale_option ?s \<le> MAX_WINDOW_SCALE"
    using assms(1) by (simp add: header_fits_def)
  ultimately have "tcp_writable ?s" using o unfolding tcp_writable_def by simp
  from tcp_roundtrip [OF this] show ?thesis by (simp add: tcp_segment_bytes_def Let_def sent_segment_def)
qed

lemma on_wire_fields [simp]:
  "tcp_sequence_number (tcp_on_wire t) = tcp_sequence_number t"
  "tcp_acknowledgement_number (tcp_on_wire t) = tcp_acknowledgement_number t"
  "tcp_syn (tcp_on_wire t) = tcp_syn t" "tcp_fin (tcp_on_wire t) = tcp_fin t"
  "tcp_ack (tcp_on_wire t) = tcp_ack t" "tcp_rst (tcp_on_wire t) = tcp_rst t" "tcp_window (tcp_on_wire t) = tcp_window t"
  "tcp_cwr (tcp_on_wire t) = tcp_cwr t" "tcp_ece (tcp_on_wire t) = tcp_ece t"
  "tcp_urg (tcp_on_wire t) = tcp_urg t" "tcp_psh (tcp_on_wire t) = tcp_psh t"
  "tcp_src_port (tcp_on_wire t) = tcp_src_port t" "tcp_dest_port (tcp_on_wire t) = tcp_dest_port t"
  "tcp_urgent_ptr (tcp_on_wire t) = tcp_urgent_ptr t"
  "tcp_has_mss_option (tcp_on_wire t) = tcp_has_mss_option t"
  "tcp_mss_option (tcp_on_wire t) = (if tcp_has_mss_option t then tcp_mss_option t else 0)"
  "tcp_window_scale_option (tcp_on_wire t) = (if tcp_has_window_scale_option t then tcp_window_scale_option t else 0)"
  "tcp_has_window_scale_option (tcp_on_wire t) = tcp_has_window_scale_option t"
  "tcp_has_timestamp_option (tcp_on_wire t) = tcp_has_timestamp_option t"
  "tcp_has_sack_permitted_option (tcp_on_wire t) = tcp_has_sack_permitted_option t"
  "tcp_sack_blocks (tcp_on_wire t) = tcp_sack_blocks t" "tcp_received_bytes (tcp_on_wire t) = tcp_to_bytes t"
  "tcp_next_layer (tcp_on_wire t) = (if tcp_next_layer t = Some [] then None else tcp_next_layer t)"
  by (simp_all add: tcp_on_wire_def tcp_recompute_data_offset_def)

lemma sent_payload [simp]: "segment_payload (tcp_on_wire (sent_segment source dest h p)) = p"
  by (simp add: segment_payload_def)

lemma tcp_segment_verifies:
  assumes "length p \<le> 65000"
  shows "transport_checksum source dest IP_PROTOCOL_TCP (tcp_to_bytes (sent_segment source dest h p)) = 0"
proof -
  let ?r = "rebuild_segment h p"
  define pre where "pre = int_to_bytes (tcp_src_port ?r) @ int_to_bytes (tcp_dest_port ?r)
     @ int_to_bytes (tcp_sequence_number ?r) @ int_to_bytes (tcp_acknowledgement_number ?r)
     @ [push_bit 4 (of_nat (5 + length (tcp_options_to_bytes ?r) div 4)), tcp_flags_byte ?r] @ int_to_bytes (tcp_window ?r)"
  define post where "post = int_to_bytes (tcp_urgent_ptr ?r) @ tcp_options_to_bytes ?r
     @ (case tcp_next_layer ?r of None \<Rightarrow> [] | Some raw \<Rightarrow> raw)"
  have image: "tcp_to_bytes (?r\<lparr>tcp_checksum := x\<rparr>) = pre @ int_to_bytes x @ post" for x
    by (subst tcp_image) (simp add: pre_def post_def tcp_flags_byte_def)
  have "tcp_checksum ?r = 0"
    unfolding rebuild_segment_def Let_def by (simp add: tcp_new_def tcp_set_mss_option_def tcp_set_window_scale_option_def)
  note zero = this
  have "?r\<lparr>tcp_checksum := 0\<rparr> = ?r" unfolding zero [symmetric] by simp
  from image [of 0, unfolded this] have plain: "tcp_to_bytes ?r = pre @ [0, 0] @ post" by simp
  have "length pre = 16" by (simp add: pre_def)
  moreover have "length post \<le> 2 + 8 + length p" using rebuilt_options_short [of h] by (simp add: post_def)
  ultimately show ?thesis
    unfolding sent_segment_def image plain using assms by (intro transport_checksum_self_verifies) simp_all
qed

lemma segment_arrives_sent:
  assumes "header_fits h" "length p \<le> 65000"
  shows "segment_arrives source dest (tcp_segment_bytes source dest h p) c =
    (let seg = tcp_on_wire (sent_segment source dest h p)
     in if c_state c = LISTEN then (if tcp_syn h then open_connection seg c else c) else on_segment seg c)"
  using sent_segment_parses [OF assms(1), of p source dest] assms(2) tcp_segment_verifies [OF assms(2), of source dest h]
  by (simp add: segment_arrives_def Let_def)

section \<open>End to end\<close>

lemma extends_nil: "extends [] es"
  by (simp add: extends_def)

lemma sender_history: "sender_inv iss h w c \<Longrightarrow> sender_inv iss (c_events c) w c"
  unfolding sender_inv_def by (elim conjE) (intro conjI extends_refl; assumption)

lemma sender_forget: "sender_inv iss h w c \<Longrightarrow> sender_inv iss [] w c"
  unfolding sender_inv_def by (elim conjE) (intro conjI extends_nil; assumption)

lemma sender_events: "sender_inv iss h w c \<Longrightarrow> list_all (event_in_stream iss w (fin_emitted c)) (c_events c)"
  unfolding sender_inv_def by blast

lemma sender_fin_grows:
  assumes "sender_inv iss (c_events c) w d" "fin_emitted c"
  shows "fin_emitted d"
proof -
  have "extends (c_events c) (c_events d)" using assms(1) by (simp add: sender_inv_def)
  then have "c_events d = c_events c @ drop (length (c_events c)) (c_events d)"
    unfolding extends_def by (metis append_take_drop_id)
  then show ?thesis using assms(2) unfolding fin_emitted_def by (metis list_ex_append)
qed

lemma conn_send_finished:
  "fin_emitted c \<Longrightarrow> sender_inv iss h w c \<Longrightarrow> conn_send data c = Some (n, d) \<Longrightarrow> n = 0"
  by (auto simp: sender_inv_def conn_send_def before_fin_def)

text \<open>One endpoint takes a step, its peer stands still.\<close>

definition steps_to :: "u32 \<Rightarrow> u32 \<Rightarrow> bytes \<Rightarrow> bool \<Rightarrow> endpoint \<Rightarrow> endpoint \<Rightarrow> bool" where
  "steps_to iss irs s ended e e' \<longleftrightarrow>
     sender_inv iss (c_events (ep_conn e)) (ep_written e') (ep_conn e')
     \<and> receiver_inv irs s ended (ep_read e') (ep_conn e') \<and> ep_ip e' = ep_ip e
     \<and> (\<exists>x. ep_written e' = ep_written e @ x \<and> (fin_emitted (ep_conn e) \<longrightarrow> x = []))"

lemma steps_to_conn:
  assumes "sender_inv iss (c_events (ep_conn e)) (ep_written e) c" "receiver_inv irs s ended (ep_read e) c"
  shows "steps_to iss irs s ended e (e\<lparr>ep_conn := c\<rparr>)"
  using assms by (simp add: steps_to_def)

lemma segment_arrives_inv:
  assumes c: "sender_inv iss h w c" "receiver_inv irs s ended got c"
    and p: "segment_in_stream irs s ended hdr p" "header_fits hdr" and len: "length s < 2 ^ 31"
  shows "sender_inv iss h w (segment_arrives src dst (tcp_segment_bytes src dst hdr p) c)
    \<and> receiver_inv irs s ended got (segment_arrives src dst (tcp_segment_bytes src dst hdr p) c)"
proof -
  have "length p \<le> length s" using p(1) by (auto simp: segment_in_stream_def in_stream_def)
  then have "length p < 2 ^ 31" using len by linarith
  note parses = sent_segment_parses [OF p(2) this, of src dst]
  define seg where "seg = tcp_on_wire (sent_segment src dst hdr p)"
  have in_s: "segment_in_stream irs s ended seg (segment_payload seg)"
    using p(1) by (simp add: segment_in_stream_def seg_def)
  have "sender_inv iss h w (open_connection seg c) \<and> receiver_inv irs s ended got (open_connection seg c)"
    if "c_state c = LISTEN" "tcp_syn seg"
  proof -
    have "tcp_sequence_number seg = irs" using in_s that(2) by (simp add: segment_in_stream_def in_stream_def)
    then show ?thesis unfolding open_connection_def using c that(1) by (simp add: sender_accept receiver_accept)
  qed
  moreover have "sender_inv iss h w (on_segment seg c) \<and> receiver_inv irs s ended got (on_segment seg c)"
    using c sender_on_segment receiver_on_segment [OF c(2) len in_s] by blast
  ultimately show ?thesis using c unfolding segment_arrives_def parses sum.case seg_def by auto
qed

lemma endpoint_step_to:
  assumes snd: "sender_inv iss [] (ep_written e) (ep_conn e)" and rcv: "receiver_inv irs s ended (ep_read e) (ep_conn e)"
    and peer: "sender_inv irs [] s (ep_conn peer)" "ended = fin_emitted (ep_conn peer)" and len: "length s < 2 ^ 31"
    and step: "endpoint_step peer act e = Some e'"
  shows "steps_to iss irs s ended e e'"
proof -
  let ?c = "ep_conn e"
  have c: "sender_inv iss (c_events ?c) (ep_written e) ?c" by (rule sender_history [OF snd])
  have same: "steps_to iss irs s ended e e" using steps_to_conn [OF c rcv] by simp
  show ?thesis
  proof (cases act)
    case Connect
    then show ?thesis
      using step same c rcv by (auto intro!: steps_to_conn sender_initiate receiver_initiate split: if_splits)
  next
    case (Write data)
    with step obtain n d where s: "conn_send data ?c = Some (n, d)"
      "e' = e\<lparr>ep_conn := d, ep_written := ep_written e @ take n data\<rparr>"
      by (auto split: option.splits)
    then show ?thesis
      using sender_conn_send [OF s(1) c] receiver_conn_send [OF s(1) rcv] conn_send_finished [OF _ c s(1)]
      by (auto simp: steps_to_def)
  next
    case (Read n)
    obtain t d where r: "conn_read n ?c = (t, d)" by (rule prod.exhaust)
    then have "e' = e\<lparr>ep_conn := d, ep_read := ep_read e @ t\<rparr>" using step Read by simp
    then show ?thesis
      using sender_conn_read [OF c, of n] receiver_conn_read [OF r rcv] r by (simp add: steps_to_def)
  next
    case (Arrive i)
    show ?thesis
    proof (cases "i < length (c_events (ep_conn peer)) \<and> (\<exists>h p. c_events (ep_conn peer) ! i = Segment h p)")
      case True
      then obtain h p where ev: "i < length (c_events (ep_conn peer))" "c_events (ep_conn peer) ! i = Segment h p" by blast
      have "event_in_stream irs s ended (c_events (ep_conn peer) ! i)"
        using sender_events [OF peer(1)] ev(1) unfolding peer(2) list_all_length by blast
      then have "segment_in_stream irs s ended h p" "header_fits h" unfolding ev(2) by simp_all
      from segment_arrives_inv [OF c rcv this len, of "ep_ip peer" "ep_ip e"] steps_to_conn show ?thesis
        using step Arrive ev by auto
    next
      case False
      then show ?thesis using step Arrive same by (auto split: if_splits tcp_event.splits)
    qed
  qed (use step c rcv in \<open>auto intro!: steps_to_conn sender_conn_close receiver_conn_close sender_on_time receiver_on_time
      sender_settings receiver_settings\<close>)
qed

definition world_inv :: "u32 \<Rightarrow> u32 \<Rightarrow> endpoint \<Rightarrow> endpoint \<Rightarrow> bool" where
  "world_inv isa isb a b \<longleftrightarrow>
     sender_inv isa [] (ep_written a) (ep_conn a) \<and> sender_inv isb [] (ep_written b) (ep_conn b)
     \<and> receiver_inv isb (ep_written b) (fin_emitted (ep_conn b)) (ep_read a) (ep_conn a)
     \<and> receiver_inv isa (ep_written a) (fin_emitted (ep_conn a)) (ep_read b) (ep_conn b)"

lemma world_inv_sym: "world_inv isa isb a b = world_inv isb isa b a"
  by (auto simp: world_inv_def)

lemma world_inv_first:
  assumes inv: "world_inv isa isb a b" and step: "endpoint_step b act a = Some a'" and len: "length (ep_written b) < 2 ^ 31"
  shows "world_inv isa isb a' b"
proof -
  have a: "sender_inv isa [] (ep_written a) (ep_conn a)" and b: "sender_inv isb [] (ep_written b) (ep_conn b)"
    and ra: "receiver_inv isb (ep_written b) (fin_emitted (ep_conn b)) (ep_read a) (ep_conn a)"
    and rb: "receiver_inv isa (ep_written a) (fin_emitted (ep_conn a)) (ep_read b) (ep_conn b)"
    using inv unfolding world_inv_def by blast+
  from endpoint_step_to [OF a ra b refl len step] obtain x where
    a': "sender_inv isa (c_events (ep_conn a)) (ep_written a') (ep_conn a')"
    and ra': "receiver_inv isb (ep_written b) (fin_emitted (ep_conn b)) (ep_read a') (ep_conn a')"
    and x: "ep_written a' = ep_written a @ x" "fin_emitted (ep_conn a) \<Longrightarrow> x = []"
    unfolding steps_to_def by blast
  have "receiver_inv isa (ep_written a') (fin_emitted (ep_conn a')) (ep_read b) (ep_conn b)"
  proof (cases "fin_emitted (ep_conn a)")
    case True
    then have "fin_emitted (ep_conn a')" "ep_written a' = ep_written a"
      using sender_fin_grows [OF a'] x by simp_all
    then show ?thesis using rb True by simp
  next
    case False
    then have "receiver_inv isa (ep_written a) False (ep_read b) (ep_conn b)" using rb by simp
    then show ?thesis unfolding x(1) by (rule receiver_extend)
  qed
  then show ?thesis
    unfolding world_inv_def using sender_forget [OF a'] b ra' x(1) by simp
qed

lemma endpoint_step_writes:
  "endpoint_step peer act e = Some e' \<Longrightarrow> length (ep_written e) \<le> length (ep_written e')"
  by (cases act) (auto split: if_splits option.splits prod.splits tcp_event.splits)

lemma world_step_writes:
  "world_step s (a, b) = Some (a', b') \<Longrightarrow>
     length (ep_written a) \<le> length (ep_written a') \<and> length (ep_written b) \<le> length (ep_written b')"
  by (cases s) (auto dest: endpoint_step_writes)

lemma world_step_inv:
  assumes "world_inv isa isb a b" "world_step s (a, b) = Some (a', b')"
    "length (ep_written a) < 2 ^ 31" "length (ep_written b) < 2 ^ 31"
  shows "world_inv isa isb a' b'"
proof (cases s)
  case (First act)
  then show ?thesis using assms(2) world_inv_first [OF assms(1) _ assms(4)] by auto
next
  case (Second act)
  have "world_inv isb isa b a" using assms(1) world_inv_sym by simp
  from world_inv_first [OF this _ assms(3)] show ?thesis
    using assms(2) Second world_inv_sym [of isa isb] by auto
qed

lemma world_run_writes:
  "world_run ss (a, b) = Some (a', b') \<Longrightarrow>
     length (ep_written a) \<le> length (ep_written a') \<and> length (ep_written b) \<le> length (ep_written b')"
proof (induction ss arbitrary: a b)
  case (Cons s ss)
  then obtain a1 b1 where "world_step s (a, b) = Some (a1, b1)" "world_run ss (a1, b1) = Some (a', b')"
    by (auto split: option.splits)
  then show ?case using Cons.IH [of a1 b1] world_step_writes by fastforce
qed simp

lemma world_run_inv:
  assumes "world_run ss (a, b) = Some (a', b')" "world_inv isa isb a b"
    "length (ep_written a') < 2 ^ 31" "length (ep_written b') < 2 ^ 31"
  shows "world_inv isa isb a' b'"
  using assms
proof (induction ss arbitrary: a b)
  case (Cons s ss)
  from Cons.prems(1) obtain a1 b1 where
    s: "world_step s (a, b) = Some (a1, b1)" and r: "world_run ss (a1, b1) = Some (a', b')"
    by (auto split: option.splits)
  have "length (ep_written a) < 2 ^ 31" "length (ep_written b) < 2 ^ 31"
    using world_run_writes [OF Cons.prems(1)] Cons.prems(3,4) by linarith+
  from Cons.IH [OF r world_step_inv [OF Cons.prems(2) s this] Cons.prems(3,4)] show ?case .
qed simp

lemma world_inv_fresh:
  "world_inv isa isb (fresh_endpoint ipa (new_connection i1 p1 r1 q1 isa m1 alg1))
     (fresh_endpoint ipb (new_connection i2 p2 r2 q2 isb m2 alg2))"
proof -
  have "\<not> fin_emitted (new_connection i p r q iss m alg)" for i p r q iss m alg
    by (simp add: fin_emitted_def new_connection_def)
  then show ?thesis
    using sender_new receiver_new by (simp add: world_inv_def fresh_endpoint_def)
qed

section \<open>Properties\<close>

lemma sent_run:
  assumes "world_run steps (fresh_endpoint ipa (new_connection i1 p1 r1 q1 isa m1 alg1),
                            fresh_endpoint ipb (new_connection i2 p2 r2 q2 isb m2 alg2)) = Some (a, b)"
    and "length (ep_written a) < 2 ^ 31" "length (ep_written b) < 2 ^ 31"
  shows "world_inv isa isb a b"
  by (rule world_run_inv [OF assms(1) world_inv_fresh assms(2,3)])

lemma read_prefix: "receiver_inv irs s ended got c \<Longrightarrow> prefix got s"
  unfolding receiver_inv_def received_def by (metis append_prefixD)

text \<open>
  C1. End-to-end delivery. Two connections exchange segments as bytes over a network that may lose,
  duplicate, delay and reorder them: any segment either side ever emitted, retransmissions and probes
  included, may arrive any number of times at any moment, between calls of \<open>send\<close>, \<open>read\<close>, \<open>close\<close>,
  \<open>fail\<close>, timer ticks and path-MTU changes on both sides. Whatever the interleaving, what each
  application has read is a prefix of what the other one wrote, as long as less than 2 GiB were
  written each way (sequence-number comparison is not unambiguous beyond that).
\<close>

theorem tcp_end_to_end:
  assumes "world_run steps (fresh_endpoint ipa (new_connection i1 p1 r1 q1 isa m1 alg1),
                            fresh_endpoint ipb (new_connection i2 p2 r2 q2 isb m2 alg2)) = Some (a, b)"
    and "length (ep_written a) < 2 ^ 31" "length (ep_written b) < 2 ^ 31"
  shows "prefix (ep_read b) (ep_written a) \<and> prefix (ep_read a) (ep_written b)"
  using sent_run [OF assms] read_prefix unfolding world_inv_def by blast

text \<open>
  C2. A close is not taken for granted. In the same setting, once a connection is in a state that says
  its peer has closed (CLOSE_WAIT, CLOSING, LAST_ACK, TIME_WAIT), the peer really has sent its FIN and
  what the application has read together with what waits in the receive queue is everything the peer
  ever wrote: no FIN overtakes data.
\<close>

theorem tcp_close_complete:
  assumes "world_run steps (fresh_endpoint ipa (new_connection i1 p1 r1 q1 isa m1 alg1),
                            fresh_endpoint ipb (new_connection i2 p2 r2 q2 isb m2 alg2)) = Some (a, b)"
    and "length (ep_written a) < 2 ^ 31" "length (ep_written b) < 2 ^ 31"
    and "c_state (ep_conn b) \<in> {CLOSE_WAIT, CLOSING, LAST_ACK, TIME_WAIT}"
  shows "fin_emitted (ep_conn a) \<and> ep_read b @ concat (c_receive_queue (ep_conn b)) = ep_written a"
  using sent_run [OF assms(1-3)] assms(4)
  unfolding world_inv_def receiver_inv_def peer_finished_def received_def by blast

text \<open>
  C3. Every segment a connection emits belongs to its stream. In the same setting a SYN carries the
  initial sequence number and no data; a FIN carries the sequence number after the last byte ever
  written; a payload, first transmission, retransmission or zero-window probe alike, is the piece of the
  written bytes that starts at its sequence number.
\<close>

theorem tcp_emits_stream:
  assumes "world_run steps (fresh_endpoint ipa (new_connection i1 p1 r1 q1 isa m1 alg1),
                            fresh_endpoint ipb (new_connection i2 p2 r2 q2 isb m2 alg2)) = Some (a, b)"
    and "length (ep_written a) < 2 ^ 31" "length (ep_written b) < 2 ^ 31"
    and "Segment h p \<in> set (c_events (ep_conn a))"
  shows "(tcp_syn h \<longrightarrow> tcp_sequence_number h = isa \<and> p = [])
    \<and> (tcp_fin h \<longrightarrow> tcp_sequence_number h = isa + 1 + of_nat (length (ep_written a)))
    \<and> (p \<noteq> [] \<longrightarrow> (\<exists>q. q + length p \<le> length (ep_written a) \<and> tcp_sequence_number h = isa + 1 + of_nat q
                        \<and> p = take (length p) (drop q (ep_written a))))"
proof -
  have "list_all (event_in_stream isa (ep_written a) (fin_emitted (ep_conn a))) (c_events (ep_conn a))"
    using sent_run [OF assms(1-3)] sender_events unfolding world_inv_def by blast
  then have "event_in_stream isa (ep_written a) (fin_emitted (ep_conn a)) (Segment h p)"
    using assms(4) unfolding list_all_iff by blast
  then show ?thesis by (simp add: segment_in_stream_def in_stream_def)
qed

text \<open>
  C10. What the network carries of a segment. The bytes \<open>_send_tcp_segment\<close> writes for a header and up to
  65,000 bytes of payload pass the checksum test of the receiver and parse to a segment with the same
  ports, sequence and acknowledgement numbers, window, urgent pointer and payload, the same eight flags, and the
  MSS and window-scale options of the header: each is there exactly when the header has it, with its value.
\<close>

theorem tcp_segment_travels:
  assumes "tcp_has_window_scale_option h \<longrightarrow> tcp_window_scale_option h \<le> MAX_WINDOW_SCALE" "length p \<le> 65000"
  shows "\<exists>s. tcp_of_bytes (tcp_segment_bytes source dest h p) = Inr s
    \<and> transport_checksum source dest IP_PROTOCOL_TCP (tcp_received_bytes s) = 0
    \<and> (tcp_src_port s, tcp_dest_port s) = (tcp_src_port h, tcp_dest_port h)
    \<and> tcp_sequence_number s = tcp_sequence_number h \<and> tcp_acknowledgement_number s = tcp_acknowledgement_number h
    \<and> tcp_window s = tcp_window h \<and> tcp_urgent_ptr s = tcp_urgent_ptr h
    \<and> (tcp_cwr s, tcp_ece s, tcp_urg s, tcp_ack s, tcp_psh s, tcp_rst s, tcp_syn s, tcp_fin s)
      = (tcp_cwr h, tcp_ece h, tcp_urg h, tcp_ack h, tcp_psh h, tcp_rst h, tcp_syn h, tcp_fin h)
    \<and> (tcp_has_mss_option s, if tcp_has_mss_option s then tcp_mss_option s else 0)
      = (tcp_has_mss_option h, if tcp_has_mss_option h then tcp_mss_option h else 0)
    \<and> (tcp_has_window_scale_option s, if tcp_has_window_scale_option s then tcp_window_scale_option s else 0)
      = (tcp_has_window_scale_option h, if tcp_has_window_scale_option h then tcp_window_scale_option h else 0)
    \<and> segment_payload s = p"
proof -
  have "length p < 2 ^ 31" using assms(2) by simp
  then show ?thesis
    using sent_segment_parses [of h p source dest] assms(1) tcp_segment_verifies [OF assms(2)] by (simp add: header_fits_def)
qed

text \<open>
  C37. Timestamps and selective acknowledgements never reach the wire. \<open>TcpConnection\<close> builds them into its
  headers, but \<open>_send_tcp_segment\<close> copies only the MSS and window-scale options, so whatever the
  header says the receiver sees no timestamp, no SACK-permitted option and no SACK block.
\<close>

theorem wire_drops_timestamps_and_sack:
  assumes "tcp_has_window_scale_option h \<longrightarrow> tcp_window_scale_option h \<le> MAX_WINDOW_SCALE" "length p \<le> 65000"
  shows "\<exists>s. tcp_of_bytes (tcp_segment_bytes source dest h p) = Inr s \<and> \<not> tcp_has_timestamp_option s
    \<and> \<not> tcp_has_sack_permitted_option s \<and> tcp_sack_blocks s = []"
proof -
  have "length p < 2 ^ 31" using assms(2) by simp
  then show ?thesis using sent_segment_parses [of h p source dest] assms(1) by (simp add: header_fits_def)
qed

section \<open>Witnesses\<close>

definition demo_a :: endpoint where
  "demo_a = fresh_endpoint (IPv4Address 10 0 0 1) (new_connection 1 49152 (IPv4Address 10 0 0 2) 80 4294967290 1460 RENO)"
definition demo_b :: endpoint where
  "demo_b = fresh_endpoint (IPv4Address 10 0 0 2) (new_connection 2 80 (IPv4Address 10 0 0 1) 49152 77 1460 RENO)"

lemmas evaluate_opening = demo_a_def demo_b_def fresh_endpoint_def new_connection_def initiate_connect_def
  transition_def send_flags_def emit_def Let_def flagged_header_def build_header_def advertised_window_def
  receive_buffer_occupied_def RECEIVE_BUFFER_CAPACITY_def FLAG_SYN_def FLAG_ACK_def FLAG_FIN_def sequence_length_def
  tcp_new_def option_setters WINDOW_SCALE_SHIFT_def DEFAULT_PEER_MSS_def INITIAL_RTO_MS_def KEEPALIVE_IDLE_MS_def
  segment_arrives_sent header_fits_def MAX_WINDOW_SCALE_def open_connection_def accept_incoming_syn_def
  on_segment_def reset_keepalive_def handle_syn_sent_def handle_syn_received_def send_pure_ack_def pure_ack_header_def
  cc_on_established_def cc_on_reset_def make_congestion_control_def INITIAL_SSTHRESH_def with_sack_blocks_def
  sack_blocks_to_report_def

lemma send_loop_one:
  "0 < accepted \<Longrightarrow> accepted \<le> unat (c_effective_mss c) \<Longrightarrow>
     send_loop data accepted 0 c = Some (send_chunk (take accepted data) c)"
  by (subst send_loop.simps) (simp add: send_loop.simps [of data accepted accepted] min_absorb2)

lemma conn_send_idle:
  assumes "c_state c = ESTABLISHED" "c_send_queue c = []" "c_send_queued_bytes c = 0"
    and "c_unsacked_in_flight_bytes c = 0"
    and "data \<noteq> []" "length data \<le> unat (c_effective_mss c)" "length data \<le> unat (effective_window c)"
  shows "conn_send data c = Some (length data, arm_or_disarm_persist (send_flags 0 data True c))"
proof -
  have "length data < 65536" using assms(6) unsigned_less [where ?'a = nat, of "c_effective_mss c"] by simp
  then have "min (length data) (send_space_available c) = length data"
    using assms(3) by (simp add: send_space_available_def SEND_BUFFER_CAPACITY_def)
  moreover have "send_loop data (length data) 0 c = Some (send_chunk data c)"
    using assms(5,6) send_loop_one [of "length data" c data] by simp
  moreover have "send_chunk data c = send_flags 0 data True c"
    using assms by (simp add: send_chunk_def)
  ultimately show ?thesis using assms(1,5) by (simp add: conn_send_def)
qed

lemma drain_nothing: "map_of (c_reorder_buffer c) (c_recv_next c) = None \<Longrightarrow> drain_reorder_buffer c = c"
  by (subst drain_reorder_buffer.simps) simp

lemmas evaluate_data = conn_send_idle effective_window_def conn_close_def send_pure_ack_def
  arm_or_disarm_persist_def process_segment_def record_timestamp_def paws_rejects_def
  handle_ack_def apply_sack_blocks_def handle_new_ack_def take_rtt_sample_def receive_payload_def deliver_def
  drain_nothing schedule_or_send_ack_def DELAYED_ACK_MS_def conn_read_def seq_at_or_before_def
  update_rto_from_sample_def smooth_rtt_def grow_window_def cc_on_ack_def base_on_ack_def resume_sending_def
  send_queued_while_window_allows_def handle_fin_def RTO_CLOCK_GRANULARITY_MS_def RTO_SCALE_def

definition demo_steps :: "world_action list" where
  "demo_steps = [First Connect, Second (Arrive 1), First (Arrive 1), Second (Arrive 3), First (Write [1, 2, 3]),
     First Shutdown, Second (Arrive 4), Second (Arrive 4), Second (Read 2), First (Arrive 3), Second (Arrive 6)]"

lemma demo_run:
  "\<exists>a b. world_run demo_steps (demo_a, demo_b) = Some (a, b)
    \<and> ep_written a = [1, 2, 3] \<and> ep_written b = [] \<and> ep_read b = [1, 2] \<and> c_state (ep_conn b) = CLOSE_WAIT
    \<and> (\<exists>h. Segment h [1, 2, 3] \<in> set (c_events (ep_conn a)))"
  by (simp add: demo_steps_def evaluate_opening evaluate_data cong: let_weak_cong)

lemma demo_fresh:
  "demo_a = fresh_endpoint (IPv4Address 10 0 0 1) (new_connection 1 49152 (IPv4Address 10 0 0 2) 80 4294967290 1460 RENO)"
  "demo_b = fresh_endpoint (IPv4Address 10 0 0 2) (new_connection 2 80 (IPv4Address 10 0 0 1) 49152 77 1460 RENO)"
  by (simp_all add: demo_a_def demo_b_def)

lemma tcp_end_to_end_witness:
  "\<exists>a b. world_run demo_steps (demo_a, demo_b) = Some (a, b) \<and> ep_read b = [1, 2] \<and> ep_written a = [1, 2, 3]
     \<and> prefix (ep_read b) (ep_written a) \<and> prefix (ep_read a) (ep_written b)"
proof -
  obtain a b where r: "world_run demo_steps (demo_a, demo_b) = Some (a, b)"
    "ep_written a = [1, 2, 3]" "ep_written b = []" "ep_read b = [1, 2]" using demo_run by blast
  from tcp_end_to_end [OF r(1) [unfolded demo_fresh]] r show ?thesis by simp
qed

lemma tcp_close_complete_witness:
  "\<exists>a b. world_run demo_steps (demo_a, demo_b) = Some (a, b) \<and> c_state (ep_conn b) = CLOSE_WAIT
     \<and> ep_read b @ concat (c_receive_queue (ep_conn b)) = [1, 2, 3]"
proof -
  obtain a b where r: "world_run demo_steps (demo_a, demo_b) = Some (a, b)"
    "ep_written a = [1, 2, 3]" "ep_written b = []" "c_state (ep_conn b) = CLOSE_WAIT" using demo_run by blast
  from tcp_close_complete [OF r(1) [unfolded demo_fresh]] r show ?thesis by simp
qed

lemma tcp_emits_stream_witness:
  "\<exists>a b h q. world_run demo_steps (demo_a, demo_b) = Some (a, b) \<and> Segment h [1, 2, 3] \<in> set (c_events (ep_conn a))
     \<and> tcp_sequence_number h = 4294967290 + 1 + of_nat q \<and> [1, 2, 3] = take 3 (drop q (ep_written a))"
proof -
  obtain a b h where r: "world_run demo_steps (demo_a, demo_b) = Some (a, b)"
    "ep_written a = [1, 2, 3]" "ep_written b = []" "Segment h [1, 2, 3] \<in> set (c_events (ep_conn a))"
    using demo_run by blast
  have l: "length (ep_written a) < 2 ^ 31" "length (ep_written b) < 2 ^ 31" by (simp_all add: r(2,3))
  from tcp_emits_stream [OF r(1) [unfolded demo_fresh] l r(4)] obtain q where
    "tcp_sequence_number h = 4294967290 + 1 + of_nat q"
    "[1, 2, 3] = take (length [1, 2, 3 :: u8]) (drop q (ep_written a))" by blast
  then have "tcp_sequence_number h = 4294967290 + 1 + of_nat q \<and> [1, 2, 3] = take 3 (drop q (ep_written a))"
    by (simp only: list.size numeral_3_eq_3 add_Suc_right add_0_right simp_thms)
  then show ?thesis using r(1,4) by blast
qed

definition demo_header :: tcp where
  "demo_header = tcp_set_timestamp_option 5 6 (tcp_set_window_scale_option 1 (tcp_new 80 49152 1000 2000 5 0x18 512 0 0))"

lemma tcp_segment_travels_witness:
  "\<exists>s. tcp_of_bytes (tcp_segment_bytes (IPv4Address 10 0 0 1) (IPv4Address 10 0 0 2) demo_header [7, 8]) = Inr s
     \<and> tcp_sequence_number s = 1000 \<and> tcp_ack s \<and> tcp_psh s \<and> tcp_window_scale_option s = 1 \<and> segment_payload s = [7, 8]"
  using tcp_segment_travels [of demo_header "[7, 8]" "IPv4Address 10 0 0 1" "IPv4Address 10 0 0 2"]
  by (auto simp: demo_header_def option_setters tcp_new_def MAX_WINDOW_SCALE_def)

lemma wire_drops_timestamps_and_sack_witness:
  "tcp_has_timestamp_option demo_header
   \<and> (\<exists>s. tcp_of_bytes (tcp_segment_bytes (IPv4Address 10 0 0 1) (IPv4Address 10 0 0 2) demo_header [7, 8]) = Inr s
     \<and> \<not> tcp_has_timestamp_option s)"
  using wire_drops_timestamps_and_sack [of demo_header "[7, 8]" "IPv4Address 10 0 0 1" "IPv4Address 10 0 0 2"]
  by (auto simp: demo_header_def option_setters tcp_new_def MAX_WINDOW_SCALE_def)

end
