(* ===== verification/Datagram_Codecs.thy ===== *)
theory Datagram_Codecs
  imports Checksum
begin

text \<open>
  The ARP, UDP and ICMP codecs (\<open>arp.cpp\<close>, \<open>udp.cpp\<close>, \<open>icmp.cpp\<close>). A parsed layer keeps what
  followed its header as a \<open>Raw\<close> next layer, which is a byte string here; \<open>None\<close> is the null
  \<open>_next_layer\<close>. Every parser is a function into a result, so each throw is a branch.
\<close>

section \<open>ARP\<close>

record arp =
  arp_hardware_type :: u16
  arp_protocol_type :: u16
  arp_hardware_address_length :: u8
  arp_protocol_address_length :: u8
  arp_operation :: u16
  arp_sender_hardware_address :: mac
  arp_sender_protocol_address :: ipv4
  arp_target_hardware_address :: mac
  arp_target_protocol_address :: ipv4
  arp_next_layer :: "bytes option"

definition ARP_ETHERNET :: u16 where "ARP_ETHERNET = 1"
definition ARP_IPV4 :: u16 where "ARP_IPV4 = 0x0800"
definition ARP_REQUEST :: u16 where "ARP_REQUEST = 1"
definition ARP_REPLY :: u16 where "ARP_REPLY = 2"

lemmas arp_constants = ARP_ETHERNET_def ARP_IPV4_def ARP_REQUEST_def ARP_REPLY_def

definition arp_new :: "u16 \<Rightarrow> mac \<Rightarrow> ipv4 \<Rightarrow> mac \<Rightarrow> ipv4 \<Rightarrow> arp" where
  "arp_new operation sha spa tha tpa =
     \<lparr>arp_hardware_type = ARP_ETHERNET, arp_protocol_type = ARP_IPV4,
      arp_hardware_address_length = 6, arp_protocol_address_length = 4,
      arp_operation = operation,
      arp_sender_hardware_address = sha, arp_sender_protocol_address = spa,
      arp_target_hardware_address = tha, arp_target_protocol_address = tpa,
      arp_next_layer = None\<rparr>"

definition arp_request :: "mac \<Rightarrow> ipv4 \<Rightarrow> ipv4 \<Rightarrow> arp" where
  "arp_request sha spa tpa = arp_new ARP_REQUEST sha spa mac_zero tpa"

definition arp_from_bytes :: "bytes \<Rightarrow> arp result" where
  "arp_from_bytes data =
     (if length data < 28 then Inl BaseException
      else
        rbind (slice_int data 0) (\<lambda>htype.
        rbind (slice_int data 2) (\<lambda>ptype.
        rbind (slice_int data 4) (\<lambda>hlen.
        rbind (slice_int data 5) (\<lambda>plen.
        rbind (slice_int data 6) (\<lambda>oper.
        if htype \<noteq> ARP_ETHERNET \<or> ptype \<noteq> ARP_IPV4 \<or> hlen \<noteq> 6 \<or> plen \<noteq> 4
        then Inl BaseException
        else
          rbind (rbind (slice data 8 6) mac_of_bytes) (\<lambda>sha.
          rbind (rbind (slice data 14 4) ipv4_of_bytes) (\<lambda>spa.
          rbind (rbind (slice data 18 6) mac_of_bytes) (\<lambda>tha.
          rbind (rbind (slice data 24 4) ipv4_of_bytes) (\<lambda>tpa.
          rbind (if length data > 28 then rbind (slice_from data 28) (\<lambda>raw. Inr (Some raw)) else Inr None)
            (\<lambda>next.
          Inr \<lparr>arp_hardware_type = htype, arp_protocol_type = ptype,
               arp_hardware_address_length = hlen, arp_protocol_address_length = plen,
               arp_operation = oper,
               arp_sender_hardware_address = sha, arp_sender_protocol_address = spa,
               arp_target_hardware_address = tha, arp_target_protocol_address = tpa,
               arp_next_layer = next\<rparr>)))))))))))"

definition arp_to_bytes :: "arp \<Rightarrow> bytes" where
  "arp_to_bytes a =
     (let result = append_int [] (arp_hardware_type a);
          result = append_int result (arp_protocol_type a);
          result = append_int result (arp_hardware_address_length a);
          result = append_int result (arp_protocol_address_length a);
          result = append_int result (arp_operation a);
          result = result @ mac_get_address (arp_sender_hardware_address a);
          result = result @ ipv4_get_address (arp_sender_protocol_address a);
          result = result @ mac_get_address (arp_target_hardware_address a);
          result = result @ ipv4_get_address (arp_target_protocol_address a)
      in case arp_next_layer a of None \<Rightarrow> result | Some raw \<Rightarrow> result @ raw)"

section \<open>UDP\<close>

record udp =
  udp_src_port :: u16
  udp_dest_port :: u16
  udp_length :: u16
  udp_checksum :: u16
  udp_next_layer :: "bytes option"

definition udp_new :: "u16 \<Rightarrow> u16 \<Rightarrow> u16 \<Rightarrow> u16 \<Rightarrow> bytes \<Rightarrow> udp" where
  "udp_new src dest len csum data =
     \<lparr>udp_src_port = src, udp_dest_port = dest, udp_length = len, udp_checksum = csum,
      udp_next_layer = (if data \<noteq> [] then Some data else None)\<rparr>"

definition udp_from_bytes :: "bytes \<Rightarrow> udp result" where
  "udp_from_bytes data =
     rbind (slice_int data 0) (\<lambda>src.
     rbind (slice_int data 2) (\<lambda>dest.
     rbind (slice_int data 4) (\<lambda>len.
     rbind (slice_int data 6) (\<lambda>csum.
     rbind (slice_from data 8) (\<lambda>raw.
     if unat len \<noteq> length data then Inl BaseException
     else Inr \<lparr>udp_src_port = src, udp_dest_port = dest, udp_length = len, udp_checksum = csum,
               udp_next_layer = Some raw\<rparr>)))))"

definition udp_to_bytes :: "udp \<Rightarrow> bytes" where
  "udp_to_bytes u =
     (let result = append_int [] (udp_src_port u);
          result = append_int result (udp_dest_port u);
          result = append_int result (udp_length u);
          result = append_int result (udp_checksum u)
      in case udp_next_layer u of None \<Rightarrow> result | Some raw \<Rightarrow> result @ raw)"

section \<open>ICMP\<close>

record icmp =
  icmp_type :: u8
  icmp_code :: u8
  icmp_checksum :: u16
  icmp_rest_of_header :: u32
  icmp_next_layer :: "bytes option"

definition ICMP_ECHO_REPLY :: u8 where "ICMP_ECHO_REPLY = 0"
definition ICMP_DESTINATION_UNREACHABLE :: u8 where "ICMP_DESTINATION_UNREACHABLE = 3"
definition ICMP_ECHO_REQUEST :: u8 where "ICMP_ECHO_REQUEST = 8"
definition ICMP_TIME_EXCEEDED :: u8 where "ICMP_TIME_EXCEEDED = 11"

definition icmp_new :: "u8 \<Rightarrow> u8 \<Rightarrow> u16 \<Rightarrow> u32 \<Rightarrow> bytes \<Rightarrow> icmp" where
  "icmp_new type code csum rest data =
     \<lparr>icmp_type = type, icmp_code = code, icmp_checksum = csum, icmp_rest_of_header = rest,
      icmp_next_layer = (if data \<noteq> [] then Some data else None)\<rparr>"

definition icmp_from_bytes :: "bytes \<Rightarrow> icmp result" where
  "icmp_from_bytes data =
     (if length data < 8 then Inl BaseException
      else
        rbind (byte_at data 0) (\<lambda>type.
        rbind (byte_at data 1) (\<lambda>code.
        rbind (slice_int data 2) (\<lambda>csum.
        rbind (slice_int data 4) (\<lambda>rest.
        rbind (if length data > 8 then rbind (slice_from data 8) (\<lambda>raw. Inr (Some raw)) else Inr None)
          (\<lambda>next.
        Inr \<lparr>icmp_type = type, icmp_code = code, icmp_checksum = csum, icmp_rest_of_header = rest,
             icmp_next_layer = next\<rparr>))))))"

definition icmp_to_bytes :: "icmp \<Rightarrow> bytes" where
  "icmp_to_bytes i =
     (let result = append_int [] (icmp_type i);
          result = append_int result (icmp_code i);
          result = append_int result (icmp_checksum i);
          result = append_int result (icmp_rest_of_header i)
      in case icmp_next_layer i of None \<Rightarrow> result | Some raw \<Rightarrow> result @ raw)"

definition icmp_compute_checksum :: "icmp \<Rightarrow> icmp" where
  "icmp_compute_checksum i =
     i\<lparr>icmp_checksum := internet_checksum (icmp_to_bytes (i\<lparr>icmp_checksum := 0\<rparr>))\<rparr>"

definition icmp_verify_checksum :: "icmp \<Rightarrow> bool" where
  "icmp_verify_checksum i \<longleftrightarrow> internet_checksum (icmp_to_bytes i) = 0"

definition icmp_identifier :: "icmp \<Rightarrow> u16" where
  "icmp_identifier i = ucast (drop_bit 16 (icmp_rest_of_header i))"

definition icmp_sequence :: "icmp \<Rightarrow> u16" where
  "icmp_sequence i = ucast (icmp_rest_of_header i AND 0xFFFF)"


section \<open>Each codec is a bijection on what it accepts\<close>

lemma udp_image:
  "udp_to_bytes u = int_to_bytes (udp_src_port u) @ int_to_bytes (udp_dest_port u)
     @ int_to_bytes (udp_length u) @ int_to_bytes (udp_checksum u)
     @ (case udp_next_layer u of None \<Rightarrow> [] | Some raw \<Rightarrow> raw)"
  by (simp add: udp_to_bytes_def append_int_eq split: option.split)

lemma udp_parse_iff_print:
  assumes "length data < 2 ^ 64"
  shows "udp_from_bytes data = Inr u \<longleftrightarrow>
     udp_to_bytes u = data \<and> udp_next_layer u \<noteq> None \<and> unat (udp_length u) = length data"
    (is "?l \<longleftrightarrow> ?r")
proof
  assume ?l
  then have "8 \<le> length data" 
    and f: "take 2 (drop 0 data) = int_to_bytes (udp_src_port u)" "take 2 (drop 2 data) = int_to_bytes (udp_dest_port u)"
      "take 2 (drop 4 data) = int_to_bytes (udp_length u)" "take 2 (drop 6 data) = int_to_bytes (udp_checksum u)"
      "udp_next_layer u = Some (drop 8 data)" "unat (udp_length u) = length data"
    using assms by (auto simp: udp_from_bytes_def rbind_eq_Inr slice_int_u16_iff slice_from_ok split: if_splits)
  have "drop 0 data = int_to_bytes (udp_src_port u) @ drop 2 data"
    by (rule drop_field_eq [OF f(1)]) (use \<open>8 \<le> length data\<close> in simp_all)
  also have "drop 2 data = int_to_bytes (udp_dest_port u) @ drop 4 data"
    by (rule drop_field_eq [OF f(2)]) (use \<open>8 \<le> length data\<close> in simp_all)
  also have "drop 4 data = int_to_bytes (udp_length u) @ drop 6 data"
    by (rule drop_field_eq [OF f(3)]) (use \<open>8 \<le> length data\<close> in simp_all)
  also have "drop 6 data = int_to_bytes (udp_checksum u) @ drop 8 data"
    by (rule drop_field_eq [OF f(4)]) (use \<open>8 \<le> length data\<close> in simp_all)
  finally have "udp_to_bytes u = data" using f(5) by (simp add: udp_image)
  with f show ?r by (simp add: udp_image del: int_to_bytes_u16)
next
  assume r: ?r
  then obtain raw where raw: "udp_next_layer u = Some raw" by auto
  with r have "data = int_to_bytes (udp_src_port u) @ int_to_bytes (udp_dest_port u)
     @ int_to_bytes (udp_length u) @ int_to_bytes (udp_checksum u) @ raw" by (simp add: udp_image)
  then show ?l
    using r raw assms 
    by (simp add: udp_from_bytes_def slice_int_def slice_from_ok join16)
qed


lemma icmp_image:
  "icmp_to_bytes i = icmp_type i # icmp_code i # int_to_bytes (icmp_checksum i)
     @ int_to_bytes (icmp_rest_of_header i) @ (case icmp_next_layer i of None \<Rightarrow> [] | Some raw \<Rightarrow> raw)"
  by (simp add: icmp_to_bytes_def append_int_eq split: option.split)

lemma icmp_parse_iff_print:
  assumes "length data < 2 ^ 64"
  shows "icmp_from_bytes data = Inr i \<longleftrightarrow> icmp_to_bytes i = data \<and> icmp_next_layer i \<noteq> Some []"
    (is "?l \<longleftrightarrow> ?r")
proof
  assume ?l
  then have len: "8 \<le> length data"
    and f: "data ! 0 = icmp_type i" "data ! 1 = icmp_code i"
      "take 2 (drop 2 data) = int_to_bytes (icmp_checksum i)" "take 4 (drop 4 data) = int_to_bytes (icmp_rest_of_header i)"
      "icmp_next_layer i = (if length data > 8 then Some (drop 8 data) else None)"
    using assms
    by (auto simp: icmp_from_bytes_def rbind_eq_Inr slice_int_iff slice_from_ok byte_at_def simp del: int_to_bytes_u16 int_to_bytes_u32
             split: if_splits)
  have "data = icmp_type i # icmp_code i # drop 2 data"
    using len f(1,2) by (cases data; cases "tl data") auto
  also have "drop 2 data = int_to_bytes (icmp_checksum i) @ drop 4 data"
    by (rule drop_field_eq [OF f(3)]) (use len in simp_all)
  also have "drop 4 data = int_to_bytes (icmp_rest_of_header i) @ drop 8 data"
    by (rule drop_field_eq [OF f(4)]) (use len in simp_all)
  finally have img: "data = icmp_type i # icmp_code i # int_to_bytes (icmp_checksum i)
     @ int_to_bytes (icmp_rest_of_header i) @ drop 8 data" .
  have "(case icmp_next_layer i of None \<Rightarrow> [] | Some raw \<Rightarrow> raw) = drop 8 data"
    using f(5) len by auto
  then have "icmp_to_bytes i = data" unfolding icmp_image by (metis img)
  with f show ?r by auto
next
  assume r: ?r
  then have "data = icmp_type i # icmp_code i # int_to_bytes (icmp_checksum i)
     @ int_to_bytes (icmp_rest_of_header i) @ (case icmp_next_layer i of None \<Rightarrow> [] | Some raw \<Rightarrow> raw)"
    by (simp add: icmp_image)
  then show ?l
    using r assms
    by (cases "icmp_next_layer i") (auto simp: icmp_from_bytes_def slice_int_def slice_from_ok join16)
qed

lemma arp_image:
  "arp_to_bytes a = int_to_bytes (arp_hardware_type a) @ int_to_bytes (arp_protocol_type a)
     @ [arp_hardware_address_length a, arp_protocol_address_length a] @ int_to_bytes (arp_operation a)
     @ mac_get_address (arp_sender_hardware_address a) @ ipv4_get_address (arp_sender_protocol_address a)
     @ mac_get_address (arp_target_hardware_address a) @ ipv4_get_address (arp_target_protocol_address a)
     @ (case arp_next_layer a of None \<Rightarrow> [] | Some raw \<Rightarrow> raw)"
  by (simp add: arp_to_bytes_def append_int_eq split: option.split)

definition arp_supported :: "arp \<Rightarrow> bool" where
  "arp_supported a \<longleftrightarrow> arp_hardware_type a = ARP_ETHERNET \<and> arp_protocol_type a = ARP_IPV4
     \<and> arp_hardware_address_length a = 6 \<and> arp_protocol_address_length a = 4"

lemma arp_parse_fields:
  assumes "length data < 2 ^ 64" and "arp_from_bytes data = Inr a"
  shows "28 \<le> length data" and "arp_supported a"
    and "take 2 (drop 0 data) = int_to_bytes (arp_hardware_type a)"
    and "take 2 (drop 2 data) = int_to_bytes (arp_protocol_type a)"
    and "data ! 4 = arp_hardware_address_length a" and "data ! 5 = arp_protocol_address_length a"
    and "take 2 (drop 6 data) = int_to_bytes (arp_operation a)"
    and "take 6 (drop 8 data) = mac_get_address (arp_sender_hardware_address a)"
    and "take 4 (drop 14 data) = ipv4_get_address (arp_sender_protocol_address a)"
    and "take 6 (drop 18 data) = mac_get_address (arp_target_hardware_address a)"
    and "take 4 (drop 24 data) = ipv4_get_address (arp_target_protocol_address a)"
    and "arp_next_layer a = (if length data > 28 then Some (drop 28 data) else None)"
  using assms
  by (auto simp: arp_from_bytes_def arp_supported_def rbind_eq_Inr slice_int_iff slice_from_ok slice_Inr_iff
        mac_of_bytes_Inr_iff ipv4_of_bytes_Inr_iff simp del: int_to_bytes_u16 split: if_splits)

lemma arp_parse_iff_print:
  assumes "length data < 2 ^ 64"
  shows "arp_from_bytes data = Inr a \<longleftrightarrow>
     arp_to_bytes a = data \<and> arp_supported a \<and> arp_next_layer a \<noteq> Some []"
    (is "?l \<longleftrightarrow> ?r")
proof
  assume ?l
  note f = arp_parse_fields [OF assms this]
  have len: "28 \<le> length data" by (rule f(1))
  have "drop 0 data = int_to_bytes (arp_hardware_type a) @ drop 2 data"
    by (rule drop_field_eq [OF f(3)]) (use len in simp_all)
  also have "drop 2 data = int_to_bytes (arp_protocol_type a) @ drop 4 data"
    by (rule drop_field_eq [OF f(4)]) (use len in simp_all)
  also have "drop 4 data = [arp_hardware_address_length a, arp_protocol_address_length a] @ drop 6 data"
    using len f(5,6) by (auto simp: Cons_nth_drop_Suc [symmetric])
  also have "drop 6 data = int_to_bytes (arp_operation a) @ drop 8 data"
    by (rule drop_field_eq [OF f(7)]) (use len in simp_all)
  also have "drop 8 data = mac_get_address (arp_sender_hardware_address a) @ drop 14 data"
    by (rule drop_field_eq [OF f(8)]) (use len in simp_all)
  also have "drop 14 data = ipv4_get_address (arp_sender_protocol_address a) @ drop 18 data"
    by (rule drop_field_eq [OF f(9)]) (use len in simp_all)
  also have "drop 18 data = mac_get_address (arp_target_hardware_address a) @ drop 24 data"
    by (rule drop_field_eq [OF f(10)]) (use len in simp_all)
  also have "drop 24 data = ipv4_get_address (arp_target_protocol_address a) @ drop 28 data"
    by (rule drop_field_eq [OF f(11)]) (use len in simp_all)
  finally have img: "data = int_to_bytes (arp_hardware_type a) @ int_to_bytes (arp_protocol_type a)
     @ [arp_hardware_address_length a, arp_protocol_address_length a] @ int_to_bytes (arp_operation a)
     @ mac_get_address (arp_sender_hardware_address a) @ ipv4_get_address (arp_sender_protocol_address a)
     @ mac_get_address (arp_target_hardware_address a) @ ipv4_get_address (arp_target_protocol_address a)
     @ drop 28 data" by (simp only: drop_0)
  have "(case arp_next_layer a of None \<Rightarrow> [] | Some raw \<Rightarrow> raw) = drop 28 data"
    using f(12) len by auto
  then have "arp_to_bytes a = data" unfolding arp_image by (metis img)
  with f(2,12) show ?r by auto
next
  assume r: ?r
  obtain s1 s2 s3 s4 s5 s6 t1 t2 t3 t4 t5 t6
    where macs: "arp_sender_hardware_address a = MacAddress s1 s2 s3 s4 s5 s6"
      "arp_target_hardware_address a = MacAddress t1 t2 t3 t4 t5 t6" by (metis mac.exhaust)
  obtain p1 p2 p3 p4 q1 q2 q3 q4
    where ips: "arp_sender_protocol_address a = IPv4Address p1 p2 p3 p4"
      "arp_target_protocol_address a = IPv4Address q1 q2 q3 q4" by (metis ipv4.exhaust)
  note img = r [THEN conjunct1, unfolded arp_image macs ips, symmetric]
  show ?l
    using r assms unfolding img arp_supported_def
    by (cases "arp_next_layer a")
       (auto simp: arp_from_bytes_def slice_int_def slice_ok slice_from_ok join16 macs ips
          mac_of_bytes_def ipv4_of_bytes_def)
qed


section \<open>No input reaches undefined behaviour\<close>

lemma udp_from_bytes_no_ub:
  assumes "length data < 2 ^ 64"
  shows "no_ub (udp_from_bytes data)"
  unfolding udp_from_bytes_def
  by (intro no_ub_rules; (use assms in \<open>auto simp: slice_int_u16_iff\<close>)?)

lemma icmp_from_bytes_no_ub:
  assumes "length data < 2 ^ 64"
  shows "no_ub (icmp_from_bytes data)"
  unfolding icmp_from_bytes_def
  by (intro no_ub_rules; (use assms in \<open>auto\<close>)?)

lemma arp_from_bytes_no_ub:
  assumes "length data < 2 ^ 64"
  shows "no_ub (arp_from_bytes data)"
  unfolding arp_from_bytes_def
  by (intro no_ub_rules; (use assms in \<open>auto\<close>)?)

section \<open>Checksums\<close>

lemma icmp_checksum_verifies:
  assumes "length (icmp_to_bytes i) \<le> 131072"
  shows "icmp_verify_checksum (icmp_compute_checksum i)"
proof -
  let ?post = "int_to_bytes (icmp_rest_of_header i) @ (case icmp_next_layer i of None \<Rightarrow> [] | Some raw \<Rightarrow> raw)"
  have "internet_checksum ([icmp_type i, icmp_code i]
      @ int_to_bytes (internet_checksum ([icmp_type i, icmp_code i] @ [0, 0] @ ?post)) @ ?post) = 0"
    using assms by (intro checksum_self_verifies) (simp_all add: icmp_image)
  then show ?thesis
    by (simp add: icmp_verify_checksum_def icmp_compute_checksum_def icmp_image)
qed

lemma icmp_identifier_sequence:
  "icmp_rest_of_header i = push_bit 16 (ucast (icmp_identifier i)) OR ucast (icmp_sequence i)"
  by (rule bit_word_eqI)
     (auto simp: icmp_identifier_def icmp_sequence_def bit_simps u32_low_half not_less dest: bit_imp_le_length)

end
