(* ===== verification/Ip_Codec.thy ===== *)
theory Ip_Codec
  imports Datagram_Codecs Tcp_Codec
begin

text \<open>
  The IPv4 and Ethernet codecs (\<open>ip.cpp\<close>, \<open>ethernet.cpp\<close>): a received frame is parsed down to its
  transport layer, each \<open>std::make_unique<Layer>(payload)\<close> being the parser of that layer. The
  polymorphic \<open>_next_layer\<close> pointer becomes a datatype of the classes the code stores there, and
  \<open>operator/=\<close> replaces it.
\<close>

section \<open>IPv4\<close>

definition IP_ICMP :: u8 where "IP_ICMP = 1"
definition IP_TCP :: u8 where "IP_TCP = 6"
definition IP_UDP :: u8 where "IP_UDP = 17"
definition IP_FLAG_RESERVED :: u8 where "IP_FLAG_RESERVED = 0x80"
definition IP_FLAG_DONT_FRAGMENT :: u8 where "IP_FLAG_DONT_FRAGMENT = 0x40"
definition IP_FLAG_MORE_FRAGMENTS :: u8 where "IP_FLAG_MORE_FRAGMENTS = 0x20"

lemmas ip_constants = IP_ICMP_def IP_TCP_def IP_UDP_def
  IP_FLAG_RESERVED_def IP_FLAG_DONT_FRAGMENT_def IP_FLAG_MORE_FRAGMENTS_def

datatype ip_layer = TcpLayer tcp | UdpLayer udp | IcmpLayer icmp | RawLayer bytes

record ip =
  ip_version :: u8
  ip_IHL :: u8
  ip_TOS :: u8
  ip_total_length :: u16
  ip_identification :: u16
  ip_flags :: u8
  ip_fragment_offset :: u16
  ip_TTL :: u8
  ip_protocol :: u8
  ip_header_checksum :: u16
  ip_src_address :: bytes
  ip_dest_address :: bytes
  ip_next_layer :: "ip_layer option"

definition ip_new :: "u8 \<Rightarrow> u8 \<Rightarrow> u8 \<Rightarrow> u16 \<Rightarrow> u16 \<Rightarrow> u8 \<Rightarrow> u16 \<Rightarrow> u8 \<Rightarrow> u8 \<Rightarrow> u16 \<Rightarrow> bytes \<Rightarrow> bytes \<Rightarrow> ip" where
  "ip_new version IHL TOS total_length identification flags fragment_offset TTL protocol header_checksum src dest =
     \<lparr>ip_version = version, ip_IHL = IHL, ip_TOS = TOS, ip_total_length = total_length,
      ip_identification = identification, ip_flags = flags AND 0xE0,
      ip_fragment_offset = fragment_offset, ip_TTL = TTL, ip_protocol = protocol,
      ip_header_checksum = header_checksum, ip_src_address = src, ip_dest_address = dest,
      ip_next_layer = None\<rparr>"

definition ip_flag_x :: "ip \<Rightarrow> bool" where "ip_flag_x p \<longleftrightarrow> ip_flags p AND IP_FLAG_RESERVED \<noteq> 0"
definition ip_flag_d :: "ip \<Rightarrow> bool" where "ip_flag_d p \<longleftrightarrow> ip_flags p AND IP_FLAG_DONT_FRAGMENT \<noteq> 0"
definition ip_flag_m :: "ip \<Rightarrow> bool" where "ip_flag_m p \<longleftrightarrow> ip_flags p AND IP_FLAG_MORE_FRAGMENTS \<noteq> 0"

definition ip_is_fragment :: "ip \<Rightarrow> bool" where
  "ip_is_fragment p \<longleftrightarrow> ip_flags p AND IP_FLAG_MORE_FRAGMENTS \<noteq> 0 \<or> ip_fragment_offset p \<noteq> 0"

definition ip_set_TTL :: "u8 \<Rightarrow> ip \<Rightarrow> ip" where "ip_set_TTL ttl p = p\<lparr>ip_TTL := ttl\<rparr>"

text \<open>The fixed header and the consistency checks of \<open>from_bytes\<close>, on the object being filled.\<close>

definition ip_parse_header :: "bytes \<Rightarrow> ip \<Rightarrow> ip result" where
  "ip_parse_header data p =
     (if length data < 20 then Inl BaseException
      else
        rbind (byte_at data 0) (\<lambda>b0.
        let version = drop_bit 4 (b0 AND 0xf0); IHL = b0 AND 0x0f in
        if IHL < 5 then Inl BaseException
        else if IHL > 15 then Inl BaseException
        else let header_bytes = unat IHL * 4 in
          if length data < header_bytes then Inl BaseException
          else
            rbind (byte_at data 1) (\<lambda>TOS.
            rbind (slice_int data 2) (\<lambda>total_length.
            rbind (slice_int data 4) (\<lambda>identification.
            rbind (byte_at data 6) (\<lambda>b6.
            rbind (slice_int data 6) (\<lambda>b67.
            rbind (byte_at data 8) (\<lambda>TTL.
            rbind (byte_at data 9) (\<lambda>protocol.
            rbind (slice_int data 10) (\<lambda>header_checksum.
            rbind (slice data 12 4) (\<lambda>src.
            rbind (slice data 16 4) (\<lambda>dest.
            if unat total_length < header_bytes \<or> unat total_length > length data then Inl BaseException
            else Inr (p\<lparr>ip_version := version, ip_IHL := IHL, ip_TOS := TOS,
                   ip_total_length := total_length, ip_identification := identification,
                   ip_flags := b6 AND 0xE0, ip_fragment_offset := b67 AND 0x1fff,
                   ip_TTL := TTL, ip_protocol := protocol, ip_header_checksum := header_checksum,
                   ip_src_address := src, ip_dest_address := dest\<rparr>))))))))))))) "

definition ip_parse_transport :: "bytes \<Rightarrow> ip \<Rightarrow> ip result" where
  "ip_parse_transport payload p =
     (if ip_is_fragment p then Inr (p\<lparr>ip_next_layer := Some (RawLayer payload)\<rparr>)
      else if ip_protocol p = IP_TCP then
        rbind (tcp_of_bytes payload) (\<lambda>t. Inr (p\<lparr>ip_next_layer := Some (TcpLayer t)\<rparr>))
      else if ip_protocol p = IP_UDP then
        rbind (udp_from_bytes payload) (\<lambda>u. Inr (p\<lparr>ip_next_layer := Some (UdpLayer u)\<rparr>))
      else if ip_protocol p = IP_ICMP then
        rbind (icmp_from_bytes payload) (\<lambda>i. Inr (p\<lparr>ip_next_layer := Some (IcmpLayer i)\<rparr>))
      else if payload \<noteq> [] then Inr (p\<lparr>ip_next_layer := Some (RawLayer payload)\<rparr>)
      else Inr p)"

definition ip_from_bytes :: "bytes \<Rightarrow> ip \<Rightarrow> ip result" where
  "ip_from_bytes data p =
     rbind (ip_parse_header data p) (\<lambda>p1.
     let header_bytes = unat (ip_IHL p1) * 4 in
     rbind (slice data header_bytes (unat (ip_total_length p1) - header_bytes)) (\<lambda>payload.
     ip_parse_transport payload p1))"

definition ip_of_bytes :: "bytes \<Rightarrow> ip result" where
  "ip_of_bytes data = ip_from_bytes data (ip_new 0 0 0 0 0 0 0 0 0 0 [] [])"

definition ip_header_to_bytes :: "ip \<Rightarrow> bytes" where
  "ip_header_to_bytes p =
     (let result = append_int [] (push_bit 4 (ip_version p) OR ip_IHL p);
          result = append_int result (ip_TOS p);
          result = append_int result (ip_total_length p);
          result = append_int result (ip_identification p);
          flags_and_offset = push_bit 8 (ucast (ip_flags p)) OR (ip_fragment_offset p AND 0x1FFF);
          result = append_int result (flags_and_offset :: u16);
          result = append_int result (ip_TTL p);
          result = append_int result (ip_protocol p);
          result = append_int result (ip_header_checksum p);
          result = result @ ip_src_address p
      in result @ ip_dest_address p)"

fun ip_layer_to_bytes :: "ip_layer \<Rightarrow> bytes" where
  "ip_layer_to_bytes (TcpLayer t) = tcp_to_bytes t"
| "ip_layer_to_bytes (UdpLayer u) = udp_to_bytes u"
| "ip_layer_to_bytes (IcmpLayer i) = icmp_to_bytes i"
| "ip_layer_to_bytes (RawLayer bs) = bs"

definition ip_to_bytes :: "ip \<Rightarrow> bytes" where
  "ip_to_bytes p =
     (case ip_next_layer p of
        None \<Rightarrow> ip_header_to_bytes p
      | Some layer \<Rightarrow> ip_header_to_bytes p @ ip_layer_to_bytes layer)"

definition ip_compute_checksum :: "ip \<Rightarrow> ip" where
  "ip_compute_checksum p =
     (let p = p\<lparr>ip_header_checksum := 0\<rparr>
      in p\<lparr>ip_header_checksum := internet_checksum (ip_header_to_bytes p)\<rparr>)"

definition ip_verify_checksum :: "ip \<Rightarrow> bool" where
  "ip_verify_checksum p \<longleftrightarrow> internet_checksum (ip_header_to_bytes p) = 0"

section \<open>Ethernet\<close>

definition ETHERTYPE_IPv4 :: u16 where "ETHERTYPE_IPv4 = 0x0800"
definition ETHERTYPE_ARP :: u16 where "ETHERTYPE_ARP = 0x0806"

lemmas ethertypes = ETHERTYPE_IPv4_def ETHERTYPE_ARP_def

datatype ethernet_layer = ArpFrame arp | IpFrame ip | RawFrame bytes

record ethernet =
  eth_src :: mac
  eth_dest :: mac
  eth_protocol :: u16
  eth_next_layer :: "ethernet_layer option"

definition ethernet_new :: "mac \<Rightarrow> mac \<Rightarrow> u16 \<Rightarrow> ethernet" where
  "ethernet_new src dest ethernet_protocol =
     \<lparr>eth_src = src, eth_dest = dest, eth_protocol = ethernet_protocol, eth_next_layer = None\<rparr>"

definition ethernet_from_bytes :: "bytes \<Rightarrow> ethernet result" where
  "ethernet_from_bytes data =
     (if length data < 14 then Inl BaseException
      else
        rbind (rbind (slice data 0 6) mac_of_bytes) (\<lambda>dest.
        rbind (rbind (slice data 6 6) mac_of_bytes) (\<lambda>src.
        rbind (rbind (slice data 12 2) bytes_to_int) (\<lambda>ethernet_protocol.
        rbind (if ethernet_protocol = ETHERTYPE_ARP then
                 rbind (slice data 14 28) (\<lambda>bs. rbind (arp_from_bytes bs) (\<lambda>a. Inr (ArpFrame a)))
               else if ethernet_protocol = ETHERTYPE_IPv4 then
                 rbind (slice_from data 14) (\<lambda>bs. rbind (ip_of_bytes bs) (\<lambda>p. Inr (IpFrame p)))
               else rbind (slice_from data 14) (\<lambda>bs. Inr (RawFrame bs)))
          (\<lambda>layer.
        Inr \<lparr>eth_src = src, eth_dest = dest, eth_protocol = ethernet_protocol,
             eth_next_layer = Some layer\<rparr>)))))"

fun ethernet_layer_to_bytes :: "ethernet_layer \<Rightarrow> bytes" where
  "ethernet_layer_to_bytes (ArpFrame a) = arp_to_bytes a"
| "ethernet_layer_to_bytes (IpFrame p) = ip_to_bytes p"
| "ethernet_layer_to_bytes (RawFrame bs) = bs"

definition ethernet_to_bytes :: "ethernet \<Rightarrow> bytes" where
  "ethernet_to_bytes e =
     (let result = mac_get_address (eth_dest e);
          result = result @ mac_get_address (eth_src e);
          result = append_int result (eth_protocol e)
      in case eth_next_layer e of None \<Rightarrow> result | Some layer \<Rightarrow> result @ ethernet_layer_to_bytes layer)"


section \<open>No frame reaches undefined behaviour\<close>

lemma tcp_of_bytes_no_ub [no_ub_rules]: "length data < 2 ^ 64 \<Longrightarrow> no_ub (tcp_of_bytes data)"
  unfolding tcp_of_bytes_def by (rule tcp_parse_no_ub) (simp add: tcp_blank_received)

lemma ip_parse_header_no_ub [no_ub_rules]: "no_ub (ip_parse_header data p)"
  unfolding ip_parse_header_def Let_def by (intro no_ub_rules) auto

lemma ip_parse_transport_no_ub [no_ub_rules]: "length payload < 2 ^ 64 \<Longrightarrow> no_ub (ip_parse_transport payload p)"
  unfolding ip_parse_transport_def by (intro no_ub_rules udp_from_bytes_no_ub icmp_from_bytes_no_ub) simp_all

lemma ip_parse_header_bounds:
  "ip_parse_header data p = Inr p1 \<Longrightarrow>
     20 \<le> unat (ip_IHL p1) * 4 \<and> unat (ip_IHL p1) * 4 \<le> unat (ip_total_length p1)
     \<and> unat (ip_total_length p1) \<le> length data"
  unfolding ip_parse_header_def Let_def
  by (elim rbindE if_throwE InrE, hypsubst) (simp add: not_less word_le_nat_alt)

lemma ip_from_bytes_no_ub [no_ub_rules]:
  assumes "length data < 2 ^ 64"
  shows "no_ub (ip_from_bytes data p)"
  unfolding ip_from_bytes_def Let_def
proof (intro no_ub_rules)
  fix p1 assume "ip_parse_header data p = Inr p1"
  from ip_parse_header_bounds [OF this]
  show "unat (ip_IHL p1) * 4 + (unat (ip_total_length p1) - unat (ip_IHL p1) * 4) < 2 ^ 64"
    using assms by simp
next
  fix p1 payload
  assume "slice data (unat (ip_IHL p1) * 4) (unat (ip_total_length p1) - unat (ip_IHL p1) * 4) = Inr payload"
  from slice_length [OF this] show "length payload < 2 ^ 64" using assms by simp
qed

lemma ethernet_from_bytes_no_ub:
  assumes "length data < 2 ^ 64"
  shows "no_ub (ethernet_from_bytes data)"
  unfolding ethernet_from_bytes_def ip_of_bytes_def
  by (intro no_ub_rules arp_from_bytes_no_ub)
     (use assms in \<open>auto simp: slice_ok dest: slice_length slice_from_length\<close>)


section \<open>What is written is what is read\<close>

definition udp_on_wire :: "udp \<Rightarrow> udp" where
  "udp_on_wire u = u\<lparr>udp_next_layer := Some (case udp_next_layer u of None \<Rightarrow> [] | Some raw \<Rightarrow> raw)\<rparr>"

definition icmp_on_wire :: "icmp \<Rightarrow> icmp" where
  "icmp_on_wire i = i\<lparr>icmp_next_layer := (if icmp_next_layer i = Some [] then None else icmp_next_layer i)\<rparr>"

fun ip_layer_on_wire :: "ip_layer \<Rightarrow> ip_layer" where
  "ip_layer_on_wire (TcpLayer t) = TcpLayer (tcp_on_wire t)"
| "ip_layer_on_wire (UdpLayer u) = UdpLayer (udp_on_wire u)"
| "ip_layer_on_wire (IcmpLayer i) = IcmpLayer (icmp_on_wire i)"
| "ip_layer_on_wire (RawLayer bs) = RawLayer bs"

text \<open>The layer a datagram may carry: what the protocol field announces, or raw bytes in a fragment.\<close>

definition ip_layer_ok :: "ip \<Rightarrow> bool" where
  "ip_layer_ok p =
     (case ip_next_layer p of
        None \<Rightarrow> \<not> ip_is_fragment p \<and> ip_protocol p \<notin> {IP_TCP, IP_UDP, IP_ICMP}
      | Some (TcpLayer t) \<Rightarrow> \<not> ip_is_fragment p \<and> ip_protocol p = IP_TCP \<and> tcp_writable t
      | Some (UdpLayer u) \<Rightarrow> \<not> ip_is_fragment p \<and> ip_protocol p = IP_UDP \<and> unat (udp_length u) = length (udp_to_bytes u)
      | Some (IcmpLayer i) \<Rightarrow> \<not> ip_is_fragment p \<and> ip_protocol p = IP_ICMP
      | Some (RawLayer bs) \<Rightarrow> ip_is_fragment p \<or> ip_protocol p \<notin> {IP_TCP, IP_UDP, IP_ICMP} \<and> bs \<noteq> [])"

definition ip_writable :: "ip \<Rightarrow> bool" where
  "ip_writable p \<longleftrightarrow> ip_version p < 16 \<and> ip_IHL p = 5 \<and> ip_flags p AND 0xE0 = ip_flags p
     \<and> ip_fragment_offset p AND 0x1fff = ip_fragment_offset p
     \<and> length (ip_src_address p) = 4 \<and> length (ip_dest_address p) = 4
     \<and> unat (ip_total_length p) = length (ip_to_bytes p) \<and> ip_layer_ok p"

lemma udp_roundtrip:
  assumes "unat (udp_length u) = length (udp_to_bytes u)"
  shows "udp_from_bytes (udp_to_bytes u) = Inr (udp_on_wire u)"
proof -
  have "length (udp_to_bytes u) < 2 ^ 64" using assms unat_u16_less [of "udp_length u"] by simp
  moreover have "udp_to_bytes (udp_on_wire u) = udp_to_bytes u" by (simp add: udp_image udp_on_wire_def)
  ultimately show ?thesis using assms by (simp add: udp_parse_iff_print) (simp add: udp_on_wire_def)
qed

lemma icmp_roundtrip:
  assumes "length (icmp_to_bytes i) < 2 ^ 64"
  shows "icmp_from_bytes (icmp_to_bytes i) = Inr (icmp_on_wire i)"
proof -
  have "icmp_to_bytes (icmp_on_wire i) = icmp_to_bytes i" by (simp add: icmp_image icmp_on_wire_def)
  then show ?thesis using assms by (simp add: icmp_parse_iff_print) (simp add: icmp_on_wire_def)
qed

abbreviation ip_payload :: "ip \<Rightarrow> bytes" where
  "ip_payload p \<equiv> (case ip_next_layer p of None \<Rightarrow> [] | Some layer \<Rightarrow> ip_layer_to_bytes layer)"

lemma ip_transport_roundtrip:
  assumes "ip_layer_ok p" "length (ip_payload p) < 2 ^ 64"
    and p1: "ip_is_fragment p1 = ip_is_fragment p" "ip_protocol p1 = ip_protocol p" "ip_next_layer p1 = None"
  shows "ip_parse_transport (ip_payload p) p1
      = Inr (p1\<lparr>ip_next_layer := map_option ip_layer_on_wire (ip_next_layer p)\<rparr>)"
proof (cases "ip_next_layer p")
  case None
  then show ?thesis using assms by (auto simp: ip_layer_ok_def ip_parse_transport_def)
next
  case (Some layer)
  then show ?thesis using assms tcp_roundtrip udp_roundtrip icmp_roundtrip
    by (cases layer) (auto simp: ip_layer_ok_def ip_parse_transport_def ip_constants)
qed

lemma ip_header_image:
  "ip_header_to_bytes p = [push_bit 4 (ip_version p) OR ip_IHL p, ip_TOS p]
     @ int_to_bytes (ip_total_length p) @ int_to_bytes (ip_identification p)
     @ int_to_bytes (push_bit 8 (ucast (ip_flags p)) OR (ip_fragment_offset p AND 0x1FFF) :: u16)
     @ [ip_TTL p, ip_protocol p] @ int_to_bytes (ip_header_checksum p) @ ip_src_address p @ ip_dest_address p"
  by (simp add: ip_header_to_bytes_def append_int_eq Let_def)

lemma ip_to_bytes_eq: "ip_to_bytes p = ip_header_to_bytes p @ ip_payload p"
  by (simp add: ip_to_bytes_def split: option.split)

lemma E0_mask: "(0xE0 :: u8) = push_bit 5 (mask 3)"
  by (simp add: mask_eq_exp_minus_1)

lemma x1fff_mask: "(0x1fff :: u16) = mask 13"
  by (simp add: mask_eq_exp_minus_1)

lemma flags_and_offset_split:
  fixes flags :: u8 and off :: u16
  assumes "flags AND 0xE0 = flags" "off AND 0x1fff = off"
  shows "ucast (drop_bit 8 (push_bit 8 (ucast flags) OR (off AND 0x1FFF) :: u16)) AND 0xE0 = flags"
    and "(push_bit 8 (ucast flags) OR (off AND 0x1FFF) :: u16) AND 0x1fff = off"
proof -
  have f: "bit flags n \<longleftrightarrow> bit flags n \<and> 5 \<le> n \<and> n < 8" for n
    using arg_cong [OF assms(1), of "\<lambda>w. bit w n"] unfolding E0_mask
    by (auto simp: bit_simps dest: bit_imp_le_length)
  have o: "bit off n \<longleftrightarrow> bit off n \<and> n < 13" for n
    using arg_cong [OF assms(2), of "\<lambda>w. bit w n"] unfolding x1fff_mask
    by (auto simp: bit_simps dest: bit_imp_le_length)
  show "ucast (drop_bit 8 (push_bit 8 (ucast flags) OR (off AND 0x1FFF) :: u16)) AND 0xE0 = flags"
    by (rule bit_word_eqI, subst f, unfold E0_mask x1fff_mask) (auto simp: bit_simps)
  show "(push_bit 8 (ucast flags) OR (off AND 0x1FFF) :: u16) AND 0x1fff = off"
    by (rule bit_word_eqI, subst o, unfold x1fff_mask) (auto simp: bit_simps dest: f [THEN iffD1])
qed

lemma version_IHL_split:
  fixes v :: u8
  assumes "v < 16"
  shows "drop_bit 4 ((push_bit 4 v OR 5) AND 0xf0) = v" "(push_bit 4 v OR 5) AND 0x0f = 5"
proof -
  have "v \<in> set (map of_nat [0..<16])"
    unfolding set_map by (rule rev_image_eqI [of "unat v"]) (use assms in \<open>simp_all add: word_less_nat_alt\<close>)
  then have "v \<in> {0, 1, 2, 3, 4, 5, 6, 7, 8, 9, 10, 11, 12, 13, 14, 15}"
    by (simp add: upt_rec)
  then show "drop_bit 4 ((push_bit 4 v OR 5) AND 0xf0) = v" "(push_bit 4 v OR 5) AND 0x0f = 5" by auto
qed


lemma ip_parse_header_written:
  assumes "ip_writable p"
  shows "ip_parse_header (ip_to_bytes p @ padding) p0
      = Inr (p0\<lparr>ip_version := ip_version p, ip_IHL := ip_IHL p, ip_TOS := ip_TOS p,
             ip_total_length := ip_total_length p, ip_identification := ip_identification p,
             ip_flags := ip_flags p, ip_fragment_offset := ip_fragment_offset p,
             ip_TTL := ip_TTL p, ip_protocol := ip_protocol p, ip_header_checksum := ip_header_checksum p,
             ip_src_address := ip_src_address p, ip_dest_address := ip_dest_address p\<rparr>)"
proof -
  define w67 where "w67 = (push_bit 8 (ucast (ip_flags p)) OR (ip_fragment_offset p AND 0x1FFF) :: u16)"
  define data where "data = ip_to_bytes p @ padding"
  have w: "ip_version p < 16" "ip_IHL p = 5" "length (ip_src_address p) = 4" "length (ip_dest_address p) = 4"
    "unat (ip_total_length p) = length (ip_to_bytes p)"
    and fo: "ip_flags p AND 0xE0 = ip_flags p" "ip_fragment_offset p AND 0x1fff = ip_fragment_offset p"
    using assms by (simp_all add: ip_writable_def)
  have d0: "data = (push_bit 4 (ip_version p) OR 5) # ip_TOS p
     # int_to_bytes (ip_total_length p) @ int_to_bytes (ip_identification p) @ int_to_bytes w67
     @ [ip_TTL p, ip_protocol p] @ int_to_bytes (ip_header_checksum p) @ ip_src_address p @ ip_dest_address p
     @ ip_payload p @ padding"
    by (simp add: data_def ip_to_bytes_eq ip_header_image w(2) w67_def)
  have len: "length (ip_to_bytes p) \<le> length data" "20 \<le> length (ip_to_bytes p)"
    by (simp_all add: data_def ip_to_bytes_eq ip_header_image w)
  have sl: "slice_int data 2 = Inr (ip_total_length p)" "slice_int data 4 = Inr (ip_identification p)"
    "slice_int data 6 = Inr w67" "slice_int data 10 = Inr (ip_header_checksum p)"
    "slice data 12 4 = Inr (ip_src_address p)" "slice data 16 4 = Inr (ip_dest_address p)"
    by (simp_all add: d0 slice_int_def slice_ok join16 w)
  have bs: "byte_at data 0 = Inr (push_bit 4 (ip_version p) OR 5)" "byte_at data 1 = Inr (ip_TOS p)"
    "byte_at data 6 = Inr (ucast (drop_bit 8 w67))" "byte_at data 8 = Inr (ip_TTL p)"
    "byte_at data 9 = Inr (ip_protocol p)"
    by (simp_all add: d0)
  have g: "\<not> length data < 20" "\<not> length data < unat (5 :: u8) * 4"
    "\<not> (unat (ip_total_length p) < unat (5 :: u8) * 4 \<or> length data < unat (ip_total_length p))"
    "\<not> (5 :: u8) < 5" "\<not> (15 :: u8) < 5"
    using len w(5) by simp_all
  show ?thesis
    unfolding data_def [symmetric] ip_parse_header_def Let_def sl bs rbind_simps version_IHL_split [OF w(1)]
      flags_and_offset_split [OF fo, folded w67_def] if_not_P [OF g(1)] if_not_P [OF g(2)] if_not_P [OF g(3)]
      if_not_P [OF g(4)] if_not_P [OF g(5)] w(2) ..
qed


definition ip_on_wire :: "ip \<Rightarrow> ip" where
  "ip_on_wire p = p\<lparr>ip_next_layer := map_option ip_layer_on_wire (ip_next_layer p)\<rparr>"

lemma ip_roundtrip:
  assumes "ip_writable p"
  shows "ip_of_bytes (ip_to_bytes p @ padding) = Inr (ip_on_wire p)"
proof -
  let ?data = "ip_to_bytes p @ padding"
  define p0 where "p0 = ip_new 0 0 0 0 0 0 0 0 0 0 [] []"
  define p1 where "p1 = p0\<lparr>ip_version := ip_version p, ip_IHL := ip_IHL p, ip_TOS := ip_TOS p,
             ip_total_length := ip_total_length p, ip_identification := ip_identification p,
             ip_flags := ip_flags p, ip_fragment_offset := ip_fragment_offset p,
             ip_TTL := ip_TTL p, ip_protocol := ip_protocol p, ip_header_checksum := ip_header_checksum p,
             ip_src_address := ip_src_address p, ip_dest_address := ip_dest_address p\<rparr>"
  have w: "ip_IHL p = 5" "length (ip_src_address p) = 4" "length (ip_dest_address p) = 4" "ip_layer_ok p"
    and tot: "unat (ip_total_length p) = length (ip_to_bytes p)"
    using assms by (simp_all add: ip_writable_def)
  have hdr: "ip_parse_header ?data p0 = Inr p1"
    unfolding p1_def by (rule ip_parse_header_written [OF assms])
  have hl: "length (ip_header_to_bytes p) = 20" by (simp add: ip_header_image w)
  have pl: "length (ip_payload p) < 2 ^ 64"
    using unat_u16_less [of "ip_total_length p"] by (simp add: tot ip_to_bytes_eq)
  have "slice ?data (unat (ip_IHL p1) * 4) (unat (ip_total_length p1) - unat (ip_IHL p1) * 4) = Inr (ip_payload p)"
    by (simp add: p1_def w(1) tot slice_ok ip_to_bytes_eq hl)
  moreover have "ip_parse_transport (ip_payload p) p1
      = Inr (p1\<lparr>ip_next_layer := map_option ip_layer_on_wire (ip_next_layer p)\<rparr>)"
    by (rule ip_transport_roundtrip [OF w(4) pl]) (simp_all add: p1_def p0_def ip_new_def ip_is_fragment_def)
  moreover have "p1\<lparr>ip_next_layer := map_option ip_layer_on_wire (ip_next_layer p)\<rparr> = ip_on_wire p"
    by (rule ip.equality) (simp_all add: p1_def p0_def ip_new_def ip_on_wire_def)
  ultimately show ?thesis
    unfolding ip_of_bytes_def ip_from_bytes_def p0_def [symmetric] hdr rbind_simps Let_def by simp
qed

section \<open>The header checksum\<close>

lemma ip_checksum_verifies:
  assumes "length (ip_src_address p) = 4" "length (ip_dest_address p) = 4"
  shows "ip_verify_checksum (ip_compute_checksum p)"
proof -
  let ?pre = "[push_bit 4 (ip_version p) OR ip_IHL p, ip_TOS p]
     @ int_to_bytes (ip_total_length p) @ int_to_bytes (ip_identification p)
     @ int_to_bytes (push_bit 8 (ucast (ip_flags p)) OR (ip_fragment_offset p AND 0x1FFF) :: u16)
     @ [ip_TTL p, ip_protocol p]"
  let ?post = "ip_src_address p @ ip_dest_address p"
  have hdr: "ip_header_to_bytes (p\<lparr>ip_header_checksum := c\<rparr>) = ?pre @ int_to_bytes c @ ?post" for c
    by (simp add: ip_header_image)
  have zero: "int_to_bytes (0 :: u16) = [0, 0]" by simp
  have "internet_checksum (?pre @ int_to_bytes (internet_checksum (?pre @ [0, 0] @ ?post)) @ ?post) = 0"
    by (rule checksum_self_verifies) (simp_all add: assms)
  moreover have comp: "ip_compute_checksum p
      = p\<lparr>ip_header_checksum := internet_checksum (ip_header_to_bytes (p\<lparr>ip_header_checksum := 0\<rparr>))\<rparr>"
    by (simp add: ip_compute_checksum_def Let_def)
  ultimately show ?thesis unfolding ip_verify_checksum_def comp hdr zero by blast
qed

lemma version_IHL_join: "push_bit 4 (drop_bit 4 ((b :: u8) AND 0xf0)) OR (b AND 0x0f) = b"
proof -
  have m: "(0xf0 :: u8) = push_bit 4 (mask 4)" "(0x0f :: u8) = mask 4" by (simp_all add: mask_eq_exp_minus_1)
  show ?thesis unfolding m by (rule bit_word_eqI) (auto simp: bit_simps)
qed

lemma flags_and_offset_join:
  "push_bit 8 (ucast (ucast (drop_bit 8 (w :: u16)) AND (0xE0 :: u8))) OR ((w AND 0x1fff) AND 0x1fff) = w"
  unfolding E0_mask x1fff_mask by (rule bit_word_eqI) (auto simp: bit_simps)

lemma version_IHL_join': "push_bit 4 (drop_bit 4 (b :: u8)) AND 0xf0 OR (b AND 0x0f) = b"
  using version_IHL_join [of b] by simp

lemma flags_and_offset_join':
  "push_bit 8 (ucast (ucast (drop_bit 8 (w :: u16)) AND (0xE0 :: u8))) OR (w AND 0x1fff) = w"
  using flags_and_offset_join [of w] by simp

lemma ip_parse_header_fields:
  assumes "ip_parse_header data p0 = Inr p"
  shows "20 \<le> length data" "byte_at data 0 = Inr (push_bit 4 (ip_version p) OR ip_IHL p)"
    "byte_at data 1 = Inr (ip_TOS p)"
    "slice_int data 2 = Inr (ip_total_length p)" "slice_int data 4 = Inr (ip_identification p)"
    "slice_int data 6 = Inr (push_bit 8 (ucast (ip_flags p)) OR (ip_fragment_offset p AND 0x1FFF))"
    "byte_at data 8 = Inr (ip_TTL p)" "byte_at data 9 = Inr (ip_protocol p)"
    "slice_int data 10 = Inr (ip_header_checksum p)"
    "slice data 12 4 = Inr (ip_src_address p)" "slice data 16 4 = Inr (ip_dest_address p)"
proof -
  have *: "20 \<le> length data \<and> byte_at data 0 = Inr (push_bit 4 (ip_version p) OR ip_IHL p)
    \<and> byte_at data 1 = Inr (ip_TOS p)
    \<and> slice_int data 2 = Inr (ip_total_length p) \<and> slice_int data 4 = Inr (ip_identification p)
    \<and> slice_int data 6 = Inr (push_bit 8 (ucast (ip_flags p)) OR (ip_fragment_offset p AND 0x1FFF))
    \<and> byte_at data 8 = Inr (ip_TTL p) \<and> byte_at data 9 = Inr (ip_protocol p)
    \<and> slice_int data 10 = Inr (ip_header_checksum p)
    \<and> slice data 12 4 = Inr (ip_src_address p) \<and> slice data 16 4 = Inr (ip_dest_address p)"
    by (insert assms, unfold ip_parse_header_def Let_def, elim rbindE if_throwE InrE, hypsubst, frule (1) slice_int_high_byte, hypsubst)
       (simp add: version_IHL_join' flags_and_offset_join' del: byte_at_in)
  then show "20 \<le> length data" "byte_at data 0 = Inr (push_bit 4 (ip_version p) OR ip_IHL p)"
    "byte_at data 1 = Inr (ip_TOS p)"
    "slice_int data 2 = Inr (ip_total_length p)" "slice_int data 4 = Inr (ip_identification p)"
    "slice_int data 6 = Inr (push_bit 8 (ucast (ip_flags p)) OR (ip_fragment_offset p AND 0x1FFF))"
    "byte_at data 8 = Inr (ip_TTL p)" "byte_at data 9 = Inr (ip_protocol p)"
    "slice_int data 10 = Inr (ip_header_checksum p)"
    "slice data 12 4 = Inr (ip_src_address p)" "slice data 16 4 = Inr (ip_dest_address p)"
    by blast+
qed


lemma ip_parse_header_received:
  assumes "ip_parse_header data p0 = Inr p"
  shows "ip_header_to_bytes p = take 20 data" "length (ip_src_address p) = 4" "length (ip_dest_address p) = 4"
proof -
  note f = ip_parse_header_fields [OF assms]
  have "drop 0 data = (push_bit 4 (ip_version p) OR ip_IHL p) # drop 1 data"
    using byte_at_drop [OF f(2)] by simp
  also have "drop 1 data = ip_TOS p # drop 2 data" using byte_at_drop [OF f(3)] by (simp add: numeral_2_eq_2)
  also have "drop 2 data = int_to_bytes (ip_total_length p) @ drop 4 data" by (rule slice_int_u16_drop [OF f(4)]) simp
  also have "drop 4 data = int_to_bytes (ip_identification p) @ drop 6 data" by (rule slice_int_u16_drop [OF f(5)]) simp
  also have "drop 6 data = int_to_bytes (push_bit 8 (ucast (ip_flags p)) OR (ip_fragment_offset p AND 0x1FFF) :: u16) @ drop 8 data"
    by (rule slice_int_u16_drop [OF f(6)]) simp
  also have "drop 8 data = ip_TTL p # drop 9 data" using byte_at_drop [OF f(7)] by simp
  also have "drop 9 data = ip_protocol p # drop 10 data" using byte_at_drop [OF f(8)] by simp
  also have "drop 10 data = int_to_bytes (ip_header_checksum p) @ drop 12 data" by (rule slice_int_u16_drop [OF f(9)]) simp
  also have "drop 12 data = ip_src_address p @ drop 16 data" by (rule slice_drop [OF f(10)]) simp
  also have "drop 16 data = ip_dest_address p @ drop 20 data" by (rule slice_drop [OF f(11)]) simp
  finally have img: "data = ip_header_to_bytes p @ drop 20 data" by (simp add: ip_header_image)
  show a: "length (ip_src_address p) = 4" "length (ip_dest_address p) = 4"
    using f(1) f(10,11) [symmetric] by (auto simp: slice_ok)
  have "length (ip_header_to_bytes p) = 20" by (simp add: ip_header_image a)
  then show "ip_header_to_bytes p = take 20 data" by (subst img) simp
qed

lemma ip_header_next_layer [simp]: "ip_header_to_bytes (p\<lparr>ip_next_layer := x\<rparr>) = ip_header_to_bytes p"
  by (simp add: ip_header_to_bytes_def)

lemma ip_parse_transport_header:
  "ip_parse_transport payload p = Inr p' \<Longrightarrow> \<exists>x. p' = p\<lparr>ip_next_layer := x\<rparr>"
  unfolding ip_parse_transport_def
  by (elim if_E rbindE InrE; hypsubst) (auto intro: exI [of _ "ip_next_layer p"])

lemma ip_header_received:
  assumes "ip_of_bytes data = Inr p"
  shows "ip_header_to_bytes p = take 20 data" "length (ip_src_address p) = 4" "length (ip_dest_address p) = 4"
proof -
  obtain p1 payload where h: "ip_parse_header data (ip_new 0 0 0 0 0 0 0 0 0 0 [] []) = Inr p1"
    and t: "ip_parse_transport payload p1 = Inr p"
    using assms unfolding ip_of_bytes_def ip_from_bytes_def Let_def by (elim rbindE) blast
  obtain x where "p = p1\<lparr>ip_next_layer := x\<rparr>" using ip_parse_transport_header [OF t] ..
  then show "ip_header_to_bytes p = take 20 data" "length (ip_src_address p) = 4" "length (ip_dest_address p) = 4"
    using ip_parse_header_received [OF h] by simp_all
qed

lemma ip_verify_checksum_received:
  assumes "ip_of_bytes data = Inr p"
  shows "ip_verify_checksum p \<longleftrightarrow> internet_checksum (take 20 data) = 0"
  by (simp add: ip_verify_checksum_def ip_header_received [OF assms])

lemma ip_header_length_received:
  assumes "ip_of_bytes data = Inr p"
  shows "\<exists>h. ip_IHL p = h \<and> 5 \<le> unat h \<and> unat h \<le> 15 \<and> unat h * 4 \<le> length data \<and> data ! 0 AND 0x0f = h"
proof -
  obtain p1 payload where h: "ip_parse_header data (ip_new 0 0 0 0 0 0 0 0 0 0 [] []) = Inr p1"
    and t: "ip_parse_transport payload p1 = Inr p"
    using assms unfolding ip_of_bytes_def ip_from_bytes_def Let_def by (elim rbindE) blast
  have "ip_IHL p = ip_IHL p1" using ip_parse_transport_header [OF t] by auto
  with h show ?thesis
    by (auto simp: ip_parse_header_def Let_def rbind_eq_Inr byte_at_def not_less word_le_nat_alt split: if_splits)
qed

section \<open>Whole frames\<close>

lemma ethernet_image:
  "ethernet_to_bytes e = mac_get_address (eth_dest e) @ mac_get_address (eth_src e) @ int_to_bytes (eth_protocol e)
     @ (case eth_next_layer e of None \<Rightarrow> [] | Some layer \<Rightarrow> ethernet_layer_to_bytes layer)"
  by (simp add: ethernet_to_bytes_def append_int_eq split: option.split)

fun ethernet_layer_on_wire :: "ethernet_layer \<Rightarrow> bytes \<Rightarrow> ethernet_layer" where
  "ethernet_layer_on_wire (ArpFrame a) padding = ArpFrame a"
| "ethernet_layer_on_wire (IpFrame p) padding = IpFrame (ip_on_wire p)"
| "ethernet_layer_on_wire (RawFrame bs) padding = RawFrame (bs @ padding)"

fun ethernet_layer_ok :: "u16 \<Rightarrow> ethernet_layer \<Rightarrow> bool" where
  "ethernet_layer_ok ty (ArpFrame a) \<longleftrightarrow> ty = ETHERTYPE_ARP \<and> arp_supported a \<and> arp_next_layer a = None"
| "ethernet_layer_ok ty (IpFrame p) \<longleftrightarrow> ty = ETHERTYPE_IPv4 \<and> ip_writable p"
| "ethernet_layer_ok ty (RawFrame bs) \<longleftrightarrow> ty \<notin> {ETHERTYPE_ARP, ETHERTYPE_IPv4}"

lemma ethernet_roundtrip:
  assumes layer: "eth_next_layer e = Some layer" "ethernet_layer_ok (eth_protocol e) layer"
    and len: "length (ethernet_to_bytes e @ padding) < 2 ^ 64"
  shows "ethernet_from_bytes (ethernet_to_bytes e @ padding)
      = Inr (e\<lparr>eth_next_layer := Some (ethernet_layer_on_wire layer padding)\<rparr>)"
proof -
  define data where "data = ethernet_to_bytes e @ padding"
  let ?body = "ethernet_layer_to_bytes layer @ padding"
  have d0: "drop 0 data = mac_get_address (eth_dest e) @ mac_get_address (eth_src e) @ int_to_bytes (eth_protocol e) @ ?body"
    using layer by (simp add: data_def ethernet_image)
  have d6: "drop 6 data = mac_get_address (eth_src e) @ int_to_bytes (eth_protocol e) @ ?body"
    by (rule drop_append_at [OF d0]) simp
  have d12: "drop 12 data = int_to_bytes (eth_protocol e) @ ?body"
    by (rule drop_append_at [OF d6]) simp
  have d14: "drop 14 data = ?body" by (rule drop_append_at [OF d12]) simp
  have l14: "length data = 14 + length ?body" using layer by (simp add: data_def ethernet_image)
  have s: "slice data 0 6 = Inr (mac_get_address (eth_dest e))" "slice data 6 6 = Inr (mac_get_address (eth_src e))"
    "slice data 12 2 = Inr (int_to_bytes (eth_protocol e))"
    by (simp_all only: slice_ok l14 le_add1 d0 d6 d12) (simp_all add: slice_ok l14 d6 d12 d0 [simplified])
  have s14: "slice_from data 14 = Inr ?body"
    using slice_from_ok [OF _ len [folded data_def], of 14] d14 by (simp add: l14)
  have arp: "slice data 14 28 = Inr (arp_to_bytes a)" "arp_from_bytes (arp_to_bytes a) = Inr a"
    if "layer = ArpFrame a" for a
  proof -
    have a: "arp_supported a" "arp_next_layer a = None" using that layer by simp_all
    then have "length (arp_to_bytes a) = 28" by (simp add: arp_image)
    then show "slice data 14 28 = Inr (arp_to_bytes a)" "arp_from_bytes (arp_to_bytes a) = Inr a"
      using a that d14 l14 by (simp_all add: slice_ok arp_parse_iff_print)
  qed
  have "\<not> length data < 14" by (simp add: l14)
  then show ?thesis
    unfolding data_def [symmetric] ethernet_from_bytes_def s s14
    using layer arp ip_roundtrip
    by (cases layer; cases e) (auto simp: bytes_to_int_u16 ethertypes simp del: int_to_bytes_u16)
qed


section \<open>Properties of the frame codec\<close>

text \<open>C6. No received frame makes the parsers read out of bounds: for every byte string, parsing it
  as an Ethernet frame, down through ARP or IPv4 to the transport header and its options, either
  succeeds or throws.\<close>

theorem frame_parser_memory_safe:
  assumes "length data < 2 ^ 64"
  shows "no_ub (ethernet_from_bytes data)"
  using assms by (rule ethernet_from_bytes_no_ub)

theorem frame_parser_memory_safe_witness:
  "no_ub (ethernet_from_bytes [0, 0, 0, 0, 0, 0, 0, 0, 0, 0, 0, 0, 8, 0, 0x4f, 0, 0, 20])"
  by (rule frame_parser_memory_safe) simp

text \<open>C21. A frame that is written and then padded on the wire (Ethernet pads to 60 bytes) is parsed
  back to the datagram that was written: total length trims the padding, options and payload
  survive, absent options read as zero.\<close>

theorem ip_frame_roundtrip:
  assumes "ip_writable p" "eth_next_layer e = Some (IpFrame p)" "eth_protocol e = ETHERTYPE_IPv4"
    "length (ethernet_to_bytes e @ padding) < 2 ^ 64"
  shows "ethernet_from_bytes (ethernet_to_bytes e @ padding) = Inr (e\<lparr>eth_next_layer := Some (IpFrame (ip_on_wire p))\<rparr>)"
  using ethernet_roundtrip [OF assms(2) _ assms(4)] assms(1,3) by simp

theorem ip_frame_roundtrip_witness:
  "ethernet_from_bytes (ethernet_to_bytes ((ethernet_new mac_zero MAC_BROADCAST ETHERTYPE_IPv4)\<lparr>eth_next_layer := Some (IpFrame
       ((ip_new 4 5 0 28 1 0x40 0 64 1 0 [10, 0, 0, 1] [10, 0, 0, 2])\<lparr>ip_next_layer := Some (IcmpLayer (icmp_new 8 0 0 7 []))\<rparr>))\<rparr>) @ [0, 0])
   = Inr ((ethernet_new mac_zero MAC_BROADCAST ETHERTYPE_IPv4)\<lparr>eth_next_layer := Some (IpFrame
       ((ip_new 4 5 0 28 1 0x40 0 64 1 0 [10, 0, 0, 1] [10, 0, 0, 2])\<lparr>ip_next_layer := Some (IcmpLayer (icmp_new 8 0 0 7 []))\<rparr>))\<rparr>)"
proof -
  let ?p = "(ip_new 4 5 0 28 1 0x40 0 64 1 0 [10, 0, 0, 1] [10, 0, 0, 2])\<lparr>ip_next_layer := Some (IcmpLayer (icmp_new 8 0 0 7 []))\<rparr>"
  let ?e = "(ethernet_new mac_zero MAC_BROADCAST ETHERTYPE_IPv4)\<lparr>eth_next_layer := Some (IpFrame ?p)\<rparr>"
  have "ip_writable ?p"
    by (simp add: ip_writable_def ip_new_def ip_layer_ok_def ip_is_fragment_def ip_constants ip_to_bytes_eq ip_header_image icmp_image icmp_new_def)
  moreover have "length (ethernet_to_bytes ?e @ [0, 0]) < 2 ^ 64"
    by (simp add: ethernet_image ethernet_new_def ip_to_bytes_eq ip_header_image icmp_image icmp_new_def ip_new_def)
  moreover have "ip_on_wire ?p = ?p"
    by (simp add: ip_on_wire_def icmp_on_wire_def icmp_new_def)
  ultimately show ?thesis
    using ip_frame_roundtrip [of ?p ?e "[0, 0]"] by (simp add: ethernet_new_def)
qed


text \<open>A datagram to TCP with a valid header, and the same one with another identification: the second is refused.\<close>

definition sample_header :: ip where
  "sample_header = ip_new 4 5 0 20 1 0 0 64 0xFD 0 [10, 0, 0, 1] [10, 0, 0, 2]"


text \<open>\<open>verify_checksum\<close> re-serialises 20 bytes and never the options: a datagram whose header checksum is correct,
  options included, is accepted only when its option words add up to a multiple of 65535.\<close>

lemma ip_checksum_skips_options:
  assumes "ip_of_bytes data = Inr p" "internet_checksum (take (unat (ip_IHL p) * 4) data) = 0"
  shows "ip_verify_checksum p \<longleftrightarrow> 65535 dvd word_total (drop 20 (take (unat (ip_IHL p) * 4) data))"
proof -
  obtain h where h: "ip_IHL p = h" "5 \<le> unat h" "unat h \<le> 15" "unat h * 4 \<le> length data" "data ! 0 AND 0x0f = h"
    using ip_header_length_received [OF assms(1)] by blast
  let ?n = "unat h * 4"
  have parts: "take ?n data = take 20 data @ drop 20 (take ?n data)"
  proof -
    have "take 20 (take ?n data) = take 20 data" using h(2) by (simp add: min_def)
    then show ?thesis using append_take_drop_id [of 20 "take ?n data"] by simp
  qed
  have l: "length (take 20 data) = 20" using h by simp
  have t: "word_total (take ?n data) = word_total (take 20 data) + word_total (drop 20 (take ?n data))"
    by (subst parts, rule word_total_append) (simp only: l, simp)
  have "word_total (take 20 data) \<noteq> 0"
  proof -
    obtain x y r where d: "data = x # y # r" using h by (cases data; cases "tl data") auto
    then have "x \<noteq> 0" using h by auto
    then show ?thesis using d by (simp add: word_total_def unat_eq_zero)
  qed
  moreover have "65535 dvd word_total (take ?n data)"
    using assms(2) h internet_checksum_zero_iff [of "take ?n data"] by simp
  ultimately show ?thesis
    unfolding ip_verify_checksum_received [OF assms(1)] h(1) t
    by (subst internet_checksum_zero_iff) (auto simp: dvd_add_right_iff dvd_add_left_iff)
qed

end
