(* ===== verification/Arp_Table.thy ===== *)
theory Arp_Table
  imports Net_Addr
begin

text \<open>
  The neighbour cache of \<open>arp_table.cpp\<close>. The \<open>std::unordered_map\<close> is an association list with
  distinct keys: \<open>operator[]\<close> assignment is \<open>AList.update\<close>, \<open>erase\<close> is \<open>AList.delete\<close>, \<open>find\<close> is
  \<open>map_of\<close>. The timers are C \<open>int\<close>s and the elapsed time is cast with \<open>static_cast<int>\<close>, which is
  \<open>sint\<close> of the 32-bit value: half of its range counts backwards.
\<close>

section \<open>The table\<close>

record arp_entry =
  ae_mac :: mac
  ae_ms_remaining :: int
  ae_is_static :: bool

record arp_table =
  at_entries :: "(ipv4 \<times> arp_entry) list"
  at_default_ttl_ms :: int

definition ARP_MAX_ENTRIES :: nat where "ARP_MAX_ENTRIES = 1024"

definition arp_table_new :: "int \<Rightarrow> arp_table" where
  "arp_table_new default_ttl_ms = \<lparr>at_entries = [], at_default_ttl_ms = default_ttl_ms\<rparr>"

definition arp_dynamic :: "arp_table \<Rightarrow> mac \<Rightarrow> arp_entry" where
  "arp_dynamic t m = \<lparr>ae_mac = m, ae_ms_remaining = at_default_ttl_ms t, ae_is_static = False\<rparr>"

definition arp_learn :: "ipv4 \<Rightarrow> mac \<Rightarrow> arp_table \<Rightarrow> bool \<times> arp_table" where
  "arp_learn a m t =
     (case map_of (at_entries t) a of
        Some existing \<Rightarrow> (True, t\<lparr>at_entries := AList.update a (arp_dynamic t m) (at_entries t)\<rparr>)
      | None \<Rightarrow>
          if length (at_entries t) \<ge> ARP_MAX_ENTRIES then (False, t)
          else (True, t\<lparr>at_entries := AList.update a (arp_dynamic t m) (at_entries t)\<rparr>))"

definition arp_add_static :: "ipv4 \<Rightarrow> mac \<Rightarrow> arp_table \<Rightarrow> arp_table" where
  "arp_add_static a m t =
     t\<lparr>at_entries := AList.update a \<lparr>ae_mac = m, ae_ms_remaining = 0, ae_is_static = True\<rparr> (at_entries t)\<rparr>"

definition arp_refresh :: "ipv4 \<Rightarrow> arp_table \<Rightarrow> arp_table" where
  "arp_refresh a t =
     (case map_of (at_entries t) a of
        None \<Rightarrow> t
      | Some e \<Rightarrow>
          if ae_is_static e then t
          else t\<lparr>at_entries := AList.update a (e\<lparr>ae_ms_remaining := at_default_ttl_ms t\<rparr>) (at_entries t)\<rparr>)"

definition arp_contains :: "ipv4 \<Rightarrow> arp_table \<Rightarrow> bool" where
  "arp_contains a t \<longleftrightarrow> map_of (at_entries t) a \<noteq> None"

definition arp_lookup :: "ipv4 \<Rightarrow> arp_table \<Rightarrow> mac option" where
  "arp_lookup a t = map_option ae_mac (map_of (at_entries t) a)"

definition arp_remove :: "ipv4 \<Rightarrow> arp_table \<Rightarrow> arp_table" where
  "arp_remove a t = t\<lparr>at_entries := AList.delete a (at_entries t)\<rparr>"

fun arp_age_entries :: "u32 \<Rightarrow> (ipv4 \<times> arp_entry) list \<Rightarrow> (ipv4 \<times> arp_entry) list" where
  "arp_age_entries elapsed_ms [] = []"
| "arp_age_entries elapsed_ms ((a, e) # rest) =
     (if ae_is_static e then (a, e) # arp_age_entries elapsed_ms rest
      else let e' = e\<lparr>ae_ms_remaining := ae_ms_remaining e - sint elapsed_ms\<rparr> in
        if ae_ms_remaining e' \<le> 0 then arp_age_entries elapsed_ms rest
        else (a, e') # arp_age_entries elapsed_ms rest)"

definition arp_age :: "u32 \<Rightarrow> arp_table \<Rightarrow> arp_table" where
  "arp_age elapsed_ms t = t\<lparr>at_entries := arp_age_entries elapsed_ms (at_entries t)\<rparr>"

definition arp_size :: "arp_table \<Rightarrow> nat" where
  "arp_size t = length (at_entries t)"

section \<open>Well-formedness\<close>

text \<open>One entry per address, and no more dynamic entries than the cap: static ones are not counted against it.\<close>

definition arp_wf :: "arp_table \<Rightarrow> bool" where
  "arp_wf t \<longleftrightarrow> distinct (map fst (at_entries t))"

definition arp_dynamic_count :: "arp_table \<Rightarrow> nat" where
  "arp_dynamic_count t = length (filter (\<lambda>(a, e). \<not> ae_is_static e) (at_entries t))"

lemma arp_age_keys: "set (map fst (arp_age_entries n es)) \<subseteq> set (map fst es)"
  by (induction n es rule: arp_age_entries.induct) (auto simp: Let_def)

lemma arp_age_distinct: "distinct (map fst es) \<Longrightarrow> distinct (map fst (arp_age_entries n es))"
  using arp_age_keys by (induction n es rule: arp_age_entries.induct) (fastforce simp: Let_def)+

lemma arp_age_length: "length (arp_age_entries n es) \<le> length es"
  by (induction n es rule: arp_age_entries.induct) (auto simp: Let_def)

lemma arp_wf_new: "arp_wf (arp_table_new ttl)"
  by (simp add: arp_wf_def arp_table_new_def)

lemma arp_wf_learn: "arp_wf t \<Longrightarrow> arp_wf (snd (arp_learn a m t))"
  by (auto simp: arp_wf_def arp_learn_def distinct_update split: option.split)

lemma arp_wf_add_static: "arp_wf t \<Longrightarrow> arp_wf (arp_add_static a m t)"
  by (simp add: arp_wf_def arp_add_static_def distinct_update)

lemma arp_wf_refresh: "arp_wf t \<Longrightarrow> arp_wf (arp_refresh a t)"
  by (auto simp: arp_wf_def arp_refresh_def distinct_update split: option.split)

lemma arp_wf_remove: "arp_wf t \<Longrightarrow> arp_wf (arp_remove a t)"
  by (simp add: arp_wf_def arp_remove_def distinct_delete)

lemma arp_wf_age: "arp_wf t \<Longrightarrow> arp_wf (arp_age n t)"
  by (simp add: arp_wf_def arp_age_def arp_age_distinct)

lemmas arp_wf_ops = arp_wf_new arp_wf_learn arp_wf_add_static arp_wf_refresh arp_wf_remove arp_wf_age

section \<open>The behaviour of each operation\<close>

lemma arp_learn_accepts:
  "fst (arp_learn a m t) \<longleftrightarrow> arp_contains a t \<or> arp_size t < ARP_MAX_ENTRIES"
  by (auto simp: arp_learn_def arp_contains_def arp_size_def split: option.split)

lemma arp_learn_entry:
  "map_of (at_entries (snd (arp_learn a m t))) =
     (if fst (arp_learn a m t) then (map_of (at_entries t))(a \<mapsto> arp_dynamic t m) else map_of (at_entries t))"
  by (auto simp: arp_learn_def update_conv' split: option.split)

lemma arp_age_entry:
  "distinct (map fst es) \<Longrightarrow>
   map_of (arp_age_entries n es) a =
     (case map_of es a of
        None \<Rightarrow> None
      | Some e \<Rightarrow>
          if ae_is_static e then Some e
          else if ae_ms_remaining e \<le> sint n then None
          else Some (e\<lparr>ae_ms_remaining := ae_ms_remaining e - sint n\<rparr>))"
proof (induction n es rule: arp_age_entries.induct)
  case (2 n b e rest)
  have "b \<notin> fst ` set rest" using 2 by auto
  then have "map_of (arp_age_entries n rest) b = None"
    using arp_age_keys [of n rest] by (auto simp: map_of_eq_None_iff)
  with 2 \<open>b \<notin> fst ` set rest\<close> show ?case
    by (auto simp: Let_def map_of_eq_None_iff split: option.split)
qed simp


section \<open>The contract the stack relies on\<close>

locale neighbour_cache =
  fixes inv :: "'t \<Rightarrow> bool"
    and lookup :: "ipv4 \<Rightarrow> 't \<Rightarrow> mac option"
    and learn :: "ipv4 \<Rightarrow> mac \<Rightarrow> 't \<Rightarrow> bool \<times> 't"
  assumes learn_inv: "inv t \<Longrightarrow> inv (snd (learn a m t))"
    and learn_lookup: "inv t \<Longrightarrow> fst (learn a m t) \<Longrightarrow>
      lookup b (snd (learn a m t)) = (if b = a then Some m else lookup b t)"
    and learn_refused: "inv t \<Longrightarrow> \<not> fst (learn a m t) \<Longrightarrow> snd (learn a m t) = t \<and> lookup a t = None"
begin

definition learn_all :: "(ipv4 \<times> mac) list \<Rightarrow> 't \<Rightarrow> 't" where
  "learn_all obs t = foldl (\<lambda>t (a, m). snd (learn a m t)) t obs"

lemma learn_all_simps:
  "learn_all [] t = t" "learn_all ((a, m) # obs) t = learn_all obs (snd (learn a m t))"
  by (simp_all add: learn_all_def)

lemma learn_all_inv: "inv t \<Longrightarrow> inv (learn_all obs t)"
  by (induction obs arbitrary: t) (auto simp: learn_all_simps learn_inv)

lemma learn_cases:
  assumes "inv t" "lookup b t = Some m0"
  shows "lookup b (snd (learn a m t)) = Some (if a = b then m else m0)"
  using assms learn_lookup [OF assms(1), of a m b] learn_refused [OF assms(1), of a m]
  by (cases "fst (learn a m t)") auto

lemma last_claim_wins:
  "inv t \<Longrightarrow> lookup b t = Some m0 \<Longrightarrow>
   lookup b (learn_all obs t) = Some (last (m0 # map snd (filter (\<lambda>(a, m). a = b) obs)))"
proof (induction obs arbitrary: t m0)
  case (Cons am obs)
  obtain a m where am: "am = (a, m)" by force
  from Cons.IH [OF learn_inv [OF Cons.prems(1)] learn_cases [OF Cons.prems]]
  show ?case by (simp add: am learn_all_simps)
qed (simp add: learn_all_simps)

end

lemma arp_learn_lookup:
  "fst (arp_learn a m t) \<Longrightarrow> arp_lookup b (snd (arp_learn a m t)) = (if b = a then Some m else arp_lookup b t)"
  by (simp add: arp_lookup_def arp_learn_entry arp_dynamic_def)

lemma arp_learn_refused:
  "\<not> fst (arp_learn a m t) \<Longrightarrow> snd (arp_learn a m t) = t \<and> arp_lookup a t = None"
  by (auto simp: arp_lookup_def arp_learn_def split: option.splits if_splits)

interpretation arp_cache: neighbour_cache arp_wf arp_lookup arp_learn
  by unfold_locales (simp_all add: arp_wf_learn arp_learn_lookup arp_learn_refused)

section \<open>Lifetimes\<close>

definition arp_age_all :: "u32 list \<Rightarrow> arp_table \<Rightarrow> arp_table" where
  "arp_age_all ticks t = foldl (\<lambda>t n. arp_age n t) t ticks"

lemma arp_age_all_simps [simp]:
  "arp_age_all [] t = t" "arp_age_all (n # ticks) t = arp_age_all ticks (arp_age n t)"
  by (simp_all add: arp_age_all_def)

lemma arp_age_all_absent:
  "arp_wf t \<Longrightarrow> map_of (at_entries t) a = None \<Longrightarrow> map_of (at_entries (arp_age_all ticks t)) a = None"
  by (induction ticks arbitrary: t) (auto simp: arp_wf_age arp_age_def arp_age_entry arp_wf_def arp_age_distinct)

lemma arp_age_all_dynamic:
  "arp_wf t \<Longrightarrow> map_of (at_entries t) a = Some e \<Longrightarrow> \<not> ae_is_static e \<Longrightarrow> 0 < ae_ms_remaining e \<Longrightarrow>
   \<forall>n\<in>set ticks. unat n < 2 ^ 31 \<Longrightarrow>
   arp_lookup a (arp_age_all ticks t) =
     (if int (sum_list (map unat ticks)) < ae_ms_remaining e then Some (ae_mac e) else None)"
proof (induction ticks arbitrary: t e)
  case (Cons n ticks)
  have wf: "arp_wf (arp_age n t)" using Cons.prems(1) by (rule arp_wf_age)
  have n: "sint n = int (unat n)" using Cons.prems(5) by (intro sint_small) simp
  have entry: "map_of (at_entries (arp_age n t)) a =
      (if ae_ms_remaining e \<le> sint n then None else Some (e\<lparr>ae_ms_remaining := ae_ms_remaining e - sint n\<rparr>))"
    using Cons.prems by (simp add: arp_age_def arp_age_entry arp_wf_def)
  show ?case
  proof (cases "ae_ms_remaining e \<le> sint n")
    case True
    with arp_age_all_absent [OF wf, of a ticks] entry n show ?thesis by (simp add: arp_lookup_def)
  next
    case False
    with Cons.IH [OF wf, of "e\<lparr>ae_ms_remaining := ae_ms_remaining e - sint n\<rparr>"] Cons.prems(3,5) entry n
    show ?thesis by simp
  qed
qed (simp add: arp_lookup_def)

lemma arp_age_all_static:
  "arp_wf t \<Longrightarrow> map_of (at_entries t) a = Some e \<Longrightarrow> ae_is_static e \<Longrightarrow>
   map_of (at_entries (arp_age_all ticks t)) a = Some e"
proof (induction ticks arbitrary: t)
  case (Cons n ticks)
  then have "map_of (at_entries (arp_age n t)) a = Some e"
    by (simp add: arp_age_def arp_age_entry arp_wf_def del: map_of_eq_Some_iff)
  with Cons show ?case by (simp add: arp_wf_age)
qed simp


section \<open>Growth under arbitrary use\<close>

datatype arp_op = Learn ipv4 mac | AddStatic ipv4 mac | Refresh ipv4 | Remove ipv4 | Age u32

fun arp_step :: "arp_op \<Rightarrow> arp_table \<Rightarrow> arp_table" where
  "arp_step (Learn a m) t = snd (arp_learn a m t)"
| "arp_step (AddStatic a m) t = arp_add_static a m t"
| "arp_step (Refresh a) t = arp_refresh a t"
| "arp_step (Remove a) t = arp_remove a t"
| "arp_step (Age n) t = arp_age n t"

definition arp_run :: "arp_op list \<Rightarrow> arp_table \<Rightarrow> arp_table" where
  "arp_run ops t = foldl (\<lambda>t op. arp_step op t) t ops"

fun is_add_static :: "arp_op \<Rightarrow> bool" where
  "is_add_static (AddStatic a m) = True"
| "is_add_static _ = False"

lemma arp_step_size:
  "arp_size (arp_step op t) \<le> (if is_add_static op then Suc (arp_size t) else max ARP_MAX_ENTRIES (arp_size t))"
  by (cases op) (auto simp: arp_size_def arp_learn_def arp_add_static_def arp_refresh_def arp_remove_def arp_age_def
      length_alist_update le_max_iff_disj arp_age_length length_delete_le split: option.split)

lemma arp_step_wf: "arp_wf t \<Longrightarrow> arp_wf (arp_step op t)"
  by (cases op) (simp_all add: arp_wf_ops)

lemma arp_run_bounded:
  "arp_size t \<le> ARP_MAX_ENTRIES + k \<Longrightarrow>
   arp_size (arp_run ops t) \<le> ARP_MAX_ENTRIES + k + length (filter is_add_static ops)"
proof (induction ops arbitrary: t k)
  case (Cons op ops)
  have "arp_size (arp_step op t) \<le> ARP_MAX_ENTRIES + (k + (if is_add_static op then 1 else 0))"
    using arp_step_size [of op t] Cons.prems by (auto split: if_splits)
  from Cons.IH [OF this] show ?case by (simp add: arp_run_def split: if_splits)
qed (simp add: arp_run_def)

lemma arp_run_wf: "arp_wf t \<Longrightarrow> arp_wf (arp_run ops t)"
  by (induction ops arbitrary: t) (auto simp: arp_run_def arp_step_wf)


section \<open>Properties of the neighbour cache\<close>

text \<open>C29. A learned mapping answers lookups until the ticks since it was learned add up to the
  configured lifetime, and no longer: for every sequence of ageing steps of less than \<open>2 ^ 31\<close>
  milliseconds each.\<close>

theorem arp_lifetime:
  assumes "arp_wf t" "fst (arp_learn a m t)" "0 < at_default_ttl_ms t" "\<forall>n\<in>set ticks. unat n < 2 ^ 31"
  shows "arp_lookup a (arp_age_all ticks (snd (arp_learn a m t)))
    = (if int (sum_list (map unat ticks)) < at_default_ttl_ms t then Some m else None)"
  using arp_age_all_dynamic [OF arp_wf_learn [OF assms(1)], of a m a "arp_dynamic t m" ticks] assms
  by (simp add: arp_learn_entry) (simp add: arp_dynamic_def)

theorem arp_lifetime_witness:
  "arp_lookup (IPv4Address 10 0 0 2) (arp_age_all [40, 59] (snd (arp_learn (IPv4Address 10 0 0 2) (MacAddress 1 2 3 4 5 6) (arp_table_new 100))))
     = Some (MacAddress 1 2 3 4 5 6) \<and>
   arp_lookup (IPv4Address 10 0 0 2) (arp_age_all [40, 60] (snd (arp_learn (IPv4Address 10 0 0 2) (MacAddress 1 2 3 4 5 6) (arp_table_new 100))))
     = None"
proof -
  have "fst (arp_learn (IPv4Address 10 0 0 2) (MacAddress 1 2 3 4 5 6) (arp_table_new 100))"
    by (simp add: arp_learn_accepts arp_size_def arp_table_new_def ARP_MAX_ENTRIES_def)
  from arp_lifetime [OF arp_wf_new this, of "[40, 59]"] arp_lifetime [OF arp_wf_new this, of "[40, 60]"]
  show ?thesis by (simp add: arp_table_new_def)
qed

text \<open>C30. However the table is used, it holds one entry per address and at most 1024 entries beyond
  those the owner pinned with \<open>add_static\<close>: traffic alone cannot grow it past the cap.\<close>

theorem arp_bounded:
  "arp_wf (arp_run ops (arp_table_new ttl)) \<and>
   arp_size (arp_run ops (arp_table_new ttl)) \<le> ARP_MAX_ENTRIES + length (filter is_add_static ops)"
  using arp_run_bounded [of "arp_table_new ttl" 0 ops] arp_run_wf [OF arp_wf_new]
  by (simp add: arp_size_def arp_table_new_def)

text \<open>C40. A pinned (static) entry is not permanent: the first \<open>learn\<close> for its address replaces it by
  a dynamic entry, which then ages out like any other.\<close>

theorem arp_static_is_overwritten:
  assumes "arp_wf t" "0 < at_default_ttl_ms t" "at_default_ttl_ms t \<le> int (unat n)" "unat n < 2 ^ 31"
  shows "arp_lookup a (snd (arp_learn a m' (arp_add_static a m t))) = Some m' \<and>
     arp_lookup a (arp_age n (snd (arp_learn a m' (arp_add_static a m t)))) = None"
proof -
  let ?t = "arp_add_static a m t"
  have acc: "fst (arp_learn a m' ?t)"
    by (simp add: arp_learn_accepts arp_contains_def arp_add_static_def update_conv')
  have ttl: "at_default_ttl_ms ?t = at_default_ttl_ms t" by (simp add: arp_add_static_def)
  have "map_of (at_entries (snd (arp_learn a m' ?t))) a = Some (arp_dynamic ?t m')"
    using acc by (simp add: arp_learn_entry)
  from arp_age_all_dynamic [OF arp_wf_learn [OF arp_wf_add_static [OF assms(1)]] this, of "[n]"]
  show ?thesis using arp_learn_lookup [OF acc, of a] assms ttl by (simp add: arp_dynamic_def)
qed

theorem arp_static_is_overwritten_witness:
  "arp_lookup (IPv4Address 10 0 0 1) (arp_age 300 (snd (arp_learn (IPv4Address 10 0 0 1) (MacAddress 6 6 6 6 6 6)
     (arp_add_static (IPv4Address 10 0 0 1) (MacAddress 1 1 1 1 1 1) (arp_table_new 300))))) = None"
  using arp_static_is_overwritten [OF arp_wf_new, of 300 300] by (simp add: arp_table_new_def)

end
