(* ===== verification/Route_Table.thy ===== *)
theory Route_Table
  imports Net_Addr
begin

text \<open>
  The routing table of \<open>route_table.cpp\<close>: a vector of routes scanned on every lookup. The
  specification is a finite map from (network, prefix length) to (next hop, interface), looked
  up from the longest prefix down; the scan of the vector is proved to compute it, whatever the
  order the routes were added in.
\<close>

section \<open>The table\<close>

record route =
  rt_destination :: ipv4
  rt_prefix_length :: u8
  rt_next_hop :: ipv4
  rt_interface_index :: nat

type_synonym route_table = "route list"

definition masked :: "ipv4 \<Rightarrow> u8 \<Rightarrow> ipv4" where
  "masked a prefix_length = ipv4_from_uint32 (ipv4_to_uint32 a AND ipv4_prefix_mask prefix_length)"

fun route_add_loop :: "ipv4 \<Rightarrow> u8 \<Rightarrow> ipv4 \<Rightarrow> nat \<Rightarrow> route_table \<Rightarrow> route_table" where
  "route_add_loop network prefix_length next_hop interface_index [] =
     [\<lparr>rt_destination = network, rt_prefix_length = prefix_length, rt_next_hop = next_hop,
       rt_interface_index = interface_index\<rparr>]"
| "route_add_loop network prefix_length next_hop interface_index (existing # routes) =
     (if rt_prefix_length existing = prefix_length \<and> rt_destination existing = network
      then existing\<lparr>rt_next_hop := next_hop, rt_interface_index := interface_index\<rparr> # routes
      else existing # route_add_loop network prefix_length next_hop interface_index routes)"

definition route_add :: "ipv4 \<Rightarrow> u8 \<Rightarrow> ipv4 \<Rightarrow> nat \<Rightarrow> route_table \<Rightarrow> route_table" where
  "route_add destination prefix_length next_hop interface_index routes =
     (let prefix_length = (if prefix_length > 32 then 32 else prefix_length)
      in route_add_loop (masked destination prefix_length) prefix_length next_hop interface_index routes)"

fun route_remove_loop :: "ipv4 \<Rightarrow> u8 \<Rightarrow> route_table \<Rightarrow> route_table" where
  "route_remove_loop network prefix_length [] = []"
| "route_remove_loop network prefix_length (r # routes) =
     (if rt_prefix_length r = prefix_length \<and> rt_destination r = network then routes
      else r # route_remove_loop network prefix_length routes)"

definition route_remove :: "ipv4 \<Rightarrow> u8 \<Rightarrow> route_table \<Rightarrow> route_table" where
  "route_remove destination prefix_length routes =
     route_remove_loop (masked destination prefix_length) prefix_length routes"

definition route_clear :: "route_table \<Rightarrow> route_table" where
  "route_clear routes = []"

text \<open>The scan: \<open>best\<close> is the pointer, null at the start.\<close>

fun route_scan :: "u32 \<Rightarrow> route option \<Rightarrow> route_table \<Rightarrow> route option" where
  "route_scan target best [] = best"
| "route_scan target best (r # routes) =
     (if target AND ipv4_prefix_mask (rt_prefix_length r) \<noteq> ipv4_to_uint32 (rt_destination r)
      then route_scan target best routes
      else case best of
          None \<Rightarrow> route_scan target (Some r) routes
        | Some b \<Rightarrow>
            route_scan target (if rt_prefix_length r > rt_prefix_length b then Some r else Some b) routes)"

definition route_lookup :: "ipv4 \<Rightarrow> route_table \<Rightarrow> (ipv4 \<times> nat) option" where
  "route_lookup destination routes =
     (case route_scan (ipv4_to_uint32 destination) None routes of
        None \<Rightarrow> None
      | Some best \<Rightarrow>
          Some (if rt_next_hop best = ipv4_zero then destination else rt_next_hop best,
                rt_interface_index best))"

definition route_lookup_next_hop :: "ipv4 \<Rightarrow> route_table \<Rightarrow> ipv4 option" where
  "route_lookup_next_hop destination routes = map_option fst (route_lookup destination routes)"

section \<open>The specification\<close>

type_synonym rib = "ipv4 \<times> u8 \<Rightarrow> (ipv4 \<times> nat) option"

definition rib_of :: "route_table \<Rightarrow> rib" where
  "rib_of routes =
     map_of (map (\<lambda>r. ((rt_destination r, rt_prefix_length r), (rt_next_hop r, rt_interface_index r))) routes)"

primrec lpm :: "nat \<Rightarrow> rib \<Rightarrow> ipv4 \<Rightarrow> (ipv4 \<times> nat) option" where
  "lpm 0 M d = M (masked d 0, 0)"
| "lpm (Suc p) M d =
     (case M (masked d (of_nat (Suc p)), of_nat (Suc p)) of Some h \<Rightarrow> Some h | None \<Rightarrow> lpm p M d)"

definition rib_lookup :: "rib \<Rightarrow> ipv4 \<Rightarrow> (ipv4 \<times> nat) option" where
  "rib_lookup M d =
     (case lpm 32 M d of
        None \<Rightarrow> None
      | Some (hop, i) \<Rightarrow> Some (if hop = ipv4_zero then d else hop, i))"

definition routes_wf :: "route_table \<Rightarrow> bool" where
  "routes_wf routes \<longleftrightarrow>
     distinct (map (\<lambda>r. (rt_destination r, rt_prefix_length r)) routes) \<and>
     (\<forall>r\<in>set routes. rt_prefix_length r \<le> 32 \<and> masked (rt_destination r) (rt_prefix_length r) = rt_destination r)"


section \<open>Well-formedness and the map of a table\<close>

lemma masked_idem [simp]: "masked (masked d p) p = masked d p"
  by (simp add: masked_def)

lemma masked_0: "masked d 0 = ipv4_zero"
  by (simp add: masked_def ipv4_prefix_mask_def ipv4_from_uint32_def ipv4_zero_def)

lemma masked_32 [simp]: "masked d 32 = d"
proof -
  have "(0xFFFFFFFF :: u32) = - 1" by simp
  then have "ipv4_prefix_mask 32 = - 1" by (simp add: ipv4_prefix_mask_def)
  then show ?thesis by (simp add: masked_def)
qed

lemma masked_eq_iff: "masked d p = masked x p \<longleftrightarrow> is_same_network d x p"
  by (metis masked_def is_same_network_def ipv4_to_from_uint32)

lemma route_add_loop_keys:
  "set (map (\<lambda>r. (rt_destination r, rt_prefix_length r)) (route_add_loop n p h i rs))
     = insert (n, p) (set (map (\<lambda>r. (rt_destination r, rt_prefix_length r)) rs))"
  by (induction rs) auto

lemma route_add_loop_distinct:
  "distinct (map (\<lambda>r. (rt_destination r, rt_prefix_length r)) rs) \<Longrightarrow>
   distinct (map (\<lambda>r. (rt_destination r, rt_prefix_length r)) (route_add_loop n p h i rs))"
proof (induction rs)
  case (Cons r rs)
  then show ?case using route_add_loop_keys [of n p h i rs] by auto
qed simp

lemma routes_wf_keys:
  "routes_wf rs \<longleftrightarrow>
     distinct (map (\<lambda>r. (rt_destination r, rt_prefix_length r)) rs) \<and>
     (\<forall>(d, p)\<in>set (map (\<lambda>r. (rt_destination r, rt_prefix_length r)) rs). p \<le> 32 \<and> masked d p = d)"
  by (auto simp: routes_wf_def)

lemma routes_wf_add: "routes_wf rs \<Longrightarrow> routes_wf (route_add d p h i rs)"
  unfolding routes_wf_keys route_add_def Let_def route_add_loop_keys
  by (auto simp: route_add_loop_distinct not_less)

lemma route_remove_loop_keys:
  "set (map (\<lambda>r. (rt_destination r, rt_prefix_length r)) (route_remove_loop n p rs))
     \<subseteq> set (map (\<lambda>r. (rt_destination r, rt_prefix_length r)) rs)"
  by (induction rs) auto

lemma route_remove_loop_distinct:
  "distinct (map (\<lambda>r. (rt_destination r, rt_prefix_length r)) rs) \<Longrightarrow>
   distinct (map (\<lambda>r. (rt_destination r, rt_prefix_length r)) (route_remove_loop n p rs))"
proof (induction rs)
  case (Cons r rs)
  then show ?case using route_remove_loop_keys [of n p rs] by auto
qed simp

lemma routes_wf_remove: "routes_wf rs \<Longrightarrow> routes_wf (route_remove d p rs)"
  unfolding routes_wf_keys route_remove_def
  using route_remove_loop_keys [of "masked d p" p rs] by (auto simp: route_remove_loop_distinct)

lemma routes_wf_Nil: "routes_wf []"
  by (simp add: routes_wf_def)

lemma rib_of_add_loop: "rib_of (route_add_loop n p h i rs) = (rib_of rs)((n, p) \<mapsto> (h, i))"
  by (induction rs) (auto simp: rib_of_def fun_eq_iff)

lemma rib_of_notin: "(n, p) \<notin> set (map (\<lambda>r. (rt_destination r, rt_prefix_length r)) rs) \<Longrightarrow> rib_of rs (n, p) = None"
  by (induction rs) (auto simp: rib_of_def)

lemma rib_of_remove_loop:
  "distinct (map (\<lambda>r. (rt_destination r, rt_prefix_length r)) rs) \<Longrightarrow>
   rib_of (route_remove_loop n p rs) = (rib_of rs)((n, p) := None)"
proof (induction rs)
  case (Cons r rs)
  then show ?case using rib_of_notin [of n p rs] by (auto simp: rib_of_def fun_eq_iff)
qed (simp add: rib_of_def fun_eq_iff)

section \<open>Longest-prefix match\<close>

definition route_matches :: "u32 \<Rightarrow> route \<Rightarrow> bool" where
  "route_matches target r \<longleftrightarrow> target AND ipv4_prefix_mask (rt_prefix_length r) = ipv4_to_uint32 (rt_destination r)"

lemma route_matches_masked:
  "route_matches (ipv4_to_uint32 d) r \<longleftrightarrow> rt_destination r = masked d (rt_prefix_length r)"
  by (metis route_matches_def masked_def ipv4_from_to_uint32 ipv4_to_from_uint32)

lemma route_scan_Cons:
  "route_scan target best (r # rs) =
     (if route_matches target r
      then route_scan target (Some (case best of None \<Rightarrow> r | Some b \<Rightarrow> if rt_prefix_length r > rt_prefix_length b then r else b)) rs
      else route_scan target best rs)"
  by (simp add: route_matches_def split: option.split)

lemma route_scan_None:
  "route_scan target best rs = None \<longleftrightarrow> best = None \<and> (\<forall>r\<in>set rs. \<not> route_matches target r)"
  by (induction rs arbitrary: best) (simp_all add: route_scan_Cons del: route_scan.simps(2))

lemma route_scan_Some:
  "route_scan target best rs = Some b \<Longrightarrow>
     (best = Some b \<or> b \<in> set rs \<and> route_matches target b)
     \<and> (\<forall>r. best = Some r \<or> r \<in> set rs \<and> route_matches target r \<longrightarrow> rt_prefix_length r \<le> rt_prefix_length b)"
proof (induction rs arbitrary: best)
  case (Cons r rs)
  show ?case
  proof (cases "route_matches target r")
    case True
    let ?best = "case best of None \<Rightarrow> r | Some b \<Rightarrow> if rt_prefix_length r > rt_prefix_length b then r else b"
    have "route_scan target (Some ?best) rs = Some b"
      using Cons.prems True by (simp add: route_scan_Cons del: route_scan.simps(2))
    note IH = Cons.IH [OF this]
    have "rt_prefix_length r \<le> rt_prefix_length ?best" "\<forall>b0. best = Some b0 \<longrightarrow> rt_prefix_length b0 \<le> rt_prefix_length ?best"
      "?best = r \<or> best = Some ?best"
      by (auto split: option.split)
    then show ?thesis using IH True by (auto dest: order_trans)
  next
    case False
    then have "route_scan target best rs = Some b"
      using Cons.prems by (simp add: route_scan_Cons del: route_scan.simps(2))
    with Cons.IH [OF this] False show ?thesis by auto
  qed
qed auto

lemma lpm_None: "(\<And>p. unat p \<le> n \<Longrightarrow> M (masked d p, p) = None) \<Longrightarrow> n < 256 \<Longrightarrow> lpm n M d = None"
proof (induction n)
  case (Suc n)
  have "M (masked d (of_nat (Suc n)), of_nat (Suc n)) = None"
    by (rule Suc.prems(1)) (use unat_of_nat_u8 [OF Suc.prems(2)] in \<open>simp only: order_refl\<close>)
  with Suc show ?case by simp
qed simp

lemma lpm_Some:
  "M (masked d p, p) = Some h \<Longrightarrow> unat p \<le> n \<Longrightarrow> n < 256 \<Longrightarrow>
   (\<And>q. p < q \<Longrightarrow> unat q \<le> n \<Longrightarrow> M (masked d q, q) = None) \<Longrightarrow> lpm n M d = Some h"
proof (induction n)
  case (Suc n)
  have un: "unat (of_nat (Suc n) :: u8) = Suc n"
    by (rule unat_of_nat_u8 [OF Suc.prems(3)])
  show ?case
  proof (cases "unat p = Suc n")
    case True
    then have "p = of_nat (Suc n)" by (metis un word_unat_eq_iff)
    with Suc.prems(1) show ?thesis by simp
  next
    case False
    then have le: "unat p \<le> n" using Suc.prems(2) by simp
    have "p < of_nat (Suc n)" unfolding word_less_nat_alt un using le by simp
    then have "M (masked d (of_nat (Suc n)), of_nat (Suc n)) = None"
      by (rule Suc.prems(4)) (simp only: un)
    with Suc.IH [OF Suc.prems(1) le] Suc.prems(3,4) show ?thesis by simp
  qed
qed (simp add: unat_eq_0)

lemma rib_of_Some_iff:
  assumes "routes_wf rs"
  shows "rib_of rs (n, p) = Some h \<longleftrightarrow>
     (\<exists>r\<in>set rs. rt_destination r = n \<and> rt_prefix_length r = p \<and> (rt_next_hop r, rt_interface_index r) = h)"
  using assms unfolding routes_wf_def rib_of_def
  by (subst map_of_eq_Some_iff) (auto simp: comp_def image_iff)

lemma route_lookup_is_lpm:
  assumes "routes_wf rs"
  shows "route_lookup d rs = rib_lookup (rib_of rs) d"
proof (cases "route_scan (ipv4_to_uint32 d) None rs")
  case None
  then have "rib_of rs (masked d p, p) = None" for p
    using route_scan_None [of _ None rs]
    by (intro rib_of_notin) (auto simp: route_matches_masked)
  then have "lpm 32 (rib_of rs) d = None" by (intro lpm_None) simp_all
  with None show ?thesis by (simp add: route_lookup_def rib_lookup_def)
next
  case (Some b)
  let ?h = "(rt_next_hop b, rt_interface_index b)"
  note best = route_scan_Some [OF Some, simplified]
  have dest: "rt_destination b = masked d (rt_prefix_length b)" using best by (simp add: route_matches_masked)
  have "rib_of rs (masked d (rt_prefix_length b), rt_prefix_length b) = Some ?h"
    unfolding rib_of_Some_iff [OF assms] using best dest by auto
  moreover have "unat (rt_prefix_length b) \<le> 32"
    using assms best by (auto simp: routes_wf_def word_le_nat_alt)
  moreover have "rib_of rs (masked d q, q) = None" if "rt_prefix_length b < q" for q
    using best that by (intro rib_of_notin) (auto simp: route_matches_masked leD)
  ultimately have "lpm 32 (rib_of rs) d = Some ?h" by (intro lpm_Some) simp_all
  with Some show ?thesis by (simp add: route_lookup_def rib_lookup_def)
qed


section \<open>The contract the stack relies on\<close>

locale longest_prefix_table =
  fixes wf :: "'t \<Rightarrow> bool"
    and abs :: "'t \<Rightarrow> rib"
    and add :: "ipv4 \<Rightarrow> u8 \<Rightarrow> ipv4 \<Rightarrow> nat \<Rightarrow> 't \<Rightarrow> 't"
    and lookup :: "ipv4 \<Rightarrow> 't \<Rightarrow> (ipv4 \<times> nat) option"
  assumes add_wf: "wf t \<Longrightarrow> wf (add d p h i t)"
    and add_abs: "wf t \<Longrightarrow> p \<le> 32 \<Longrightarrow> abs (add d p h i t) = (abs t)((masked d p, p) \<mapsto> (h, i))"
    and lookup_abs: "wf t \<Longrightarrow> lookup d t = rib_lookup (abs t) d"
begin

lemma default_route: "wf t \<Longrightarrow> lookup d (add x 0 h i t) \<noteq> None"
proof -
  assume wf: "wf t"
  have "lpm n (abs (add x 0 h i t)) d \<noteq> None" for n
    by (induction n) (auto simp: add_abs [OF wf] masked_0 split: option.split)
  then show ?thesis
    using wf by (auto simp: lookup_abs add_wf rib_lookup_def split: option.split)
qed

lemma host_route: "wf t \<Longrightarrow> lookup d (add d 32 h i t) = Some (if h = ipv4_zero then d else h, i)"
proof -
  assume wf: "wf t"
  have "lpm 32 (abs (add d 32 h i t)) d = Some (h, i)"
    by (rule lpm_Some [of _ _ 32]) (auto simp: add_abs [OF wf] word_less_nat_alt)
  then show ?thesis using wf by (simp add: lookup_abs add_wf rib_lookup_def)
qed

lemma other_networks:
  assumes "wf t" "p \<le> 32" "\<not> is_same_network d x p"
  shows "lookup d (add x p h i t) = lookup d t"
proof -
  have "masked d p \<noteq> masked x p" using assms(3) by (simp add: masked_eq_iff)
  then have "abs (add x p h i t) (masked d q, q) = abs t (masked d q, q)" for q
    using assms by (auto simp: add_abs)
  then have "lpm n (abs (add x p h i t)) d = lpm n (abs t) d" for n
    by (induction n) (simp_all split: option.split)
  then show ?thesis using assms(1) by (simp add: lookup_abs add_wf rib_lookup_def)
qed

end

lemma rib_of_add:
  "p \<le> 32 \<Longrightarrow> rib_of (route_add d p h i rs) = (rib_of rs)((masked d p, p) \<mapsto> (h, i))"
  by (simp add: route_add_def Let_def rib_of_add_loop not_less [symmetric])

lemma rib_of_remove:
  "routes_wf rs \<Longrightarrow> rib_of (route_remove d p rs) = (rib_of rs)((masked d p, p) := None)"
  by (simp add: route_remove_def rib_of_remove_loop routes_wf_def)

interpretation routes: longest_prefix_table routes_wf rib_of route_add route_lookup
  by unfold_locales (simp_all add: routes_wf_add rib_of_add route_lookup_is_lpm)

text \<open>\<open>add\<close> clamps an over-long prefix to 32 bits and \<open>remove\<close> does not, so they do not match up.\<close>

lemma route_remove_long_prefix:
  assumes "32 < p" "routes_wf rs"
  shows "route_remove d p rs = rs" "route_add d p h i rs = route_add d 32 h i rs"
proof -
  have "route_remove_loop n p rs' = rs'" if "\<forall>r\<in>set rs'. rt_prefix_length r \<le> 32" for n rs'
    using that assms(1) by (induction rs') auto
  with assms(2) show "route_remove d p rs = rs" by (simp add: route_remove_def routes_wf_def)
  show "route_add d p h i rs = route_add d 32 h i rs" using assms(1) by (simp add: route_add_def)
qed


section \<open>Properties of the routing table\<close>

text \<open>C13. Route lookup is longest-prefix match: the scan of the vector returns exactly what the map
  from (network, prefix) to (next hop, interface) gives when it is searched from \<open>/32\<close> down to
  \<open>/0\<close>, whatever order the routes were added in.\<close>

theorem route_lookup_refines_lpm:
  assumes "routes_wf rs"
  shows "route_lookup d rs = rib_lookup (rib_of rs) d"
  using assms by (rule route_lookup_is_lpm)

theorem route_lookup_refines_lpm_witness:
  "route_lookup (IPv4Address 10 1 2 3)
     (route_add (IPv4Address 0 0 0 0) 0 (IPv4Address 10 0 0 1) 0
       (route_add (IPv4Address 10 1 0 0) 16 ipv4_zero 1 []))
   = Some (IPv4Address 10 1 2 3, 1)"
proof -
  have "routes_wf (route_add (IPv4Address 0 0 0 0) 0 (IPv4Address 10 0 0 1) 0
       (route_add (IPv4Address 10 1 0 0) 16 ipv4_zero 1 []))"
    by (intro routes_wf_add routes_wf_Nil)
  from route_lookup_refines_lpm [OF this, of "IPv4Address 10 1 2 3"]
  have "rib_lookup (rib_of (route_add (IPv4Address 0 0 0 0) 0 (IPv4Address 10 0 0 1) 0
       (route_add (IPv4Address 10 1 0 0) 16 ipv4_zero 1 []))) (IPv4Address 10 1 2 3)
     = route_lookup (IPv4Address 10 1 2 3) (route_add (IPv4Address 0 0 0 0) 0 (IPv4Address 10 0 0 1) 0
       (route_add (IPv4Address 10 1 0 0) 16 ipv4_zero 1 []))" by simp
  then show ?thesis
    by (simp add: route_add_def route_lookup_def masked_def ipv4_prefix_mask_def ipv4_from_uint32_def ipv4_zero_def)
qed

text \<open>C31. Adding a route leaves the lookup of every destination outside its network unchanged,
  and every destination is routable once a default route is installed.\<close>

theorem route_add_is_local:
  assumes "routes_wf rs"
  shows "(\<forall>d x p h i. p \<le> 32 \<and> \<not> is_same_network d x p \<longrightarrow> route_lookup d (route_add x p h i rs) = route_lookup d rs)
     \<and> (\<forall>d x h i. route_lookup d (route_add x 0 h i rs) \<noteq> None)"
  using routes.other_networks [OF assms] routes.default_route [OF assms] by blast

theorem route_add_is_local_witness:
  "route_lookup (IPv4Address 10 2 0 1) (route_add (IPv4Address 10 1 0 0) 16 (IPv4Address 9 9 9 9) 3 []) = None
   \<and> route_lookup (IPv4Address 10 2 0 1) (route_add ipv4_zero 0 (IPv4Address 9 9 9 9) 3 []) \<noteq> None"
proof -
  have "\<not> is_same_network (IPv4Address 10 2 0 1) (IPv4Address 10 1 0 0) 16"
    by (simp add: is_same_network_def ipv4_prefix_mask_def)
  moreover have "(16 :: u8) \<le> 32" by simp
  moreover have "route_lookup (IPv4Address 10 2 0 1) [] = None" by (simp add: route_lookup_def)
  ultimately show ?thesis using route_add_is_local [OF routes_wf_Nil] by metis
qed

text \<open>\<open>add\<close> clamps a prefix length above 32 and \<open>remove\<close> does not, so removing with the
  arguments the route was added with leaves the table as it is.\<close>

lemma route_remove_misses_clamped:
  assumes "routes_wf rs" "32 < p"
  shows "route_remove d p (route_add d p h i rs) = route_add d p h i rs
     \<and> route_lookup d (route_remove d p (route_add d p h i rs)) \<noteq> None"
proof -
  have wf: "routes_wf (route_add d p h i rs)" by (rule routes_wf_add [OF assms(1)])
  have rm: "route_remove d p (route_add d p h i rs) = route_add d p h i rs"
    by (rule route_remove_long_prefix [OF assms(2) wf])
  moreover have "route_lookup d (route_add d p h i rs) \<noteq> None"
    using routes.host_route [OF assms(1)] route_remove_long_prefix(2) [OF assms(2,1)] by simp
  ultimately show ?thesis by simp
qed

end
