(* ===== verification/Ip_Reassembler.thy ===== *)
theory Ip_Reassembler
  imports Net_Addr "HOL-Library.Multiset"
begin

text \<open>
  IPv4 reassembly (\<open>ip_reassembler.cpp\<close>). The \<open>std::unordered_map\<close> of partial datagrams is an
  association list with distinct keys; the ordered \<open>std::map<size_t, Bytes>\<close> of fragments is an
  association list sorted by offset. \<open>size_t\<close> arithmetic is on naturals: the invariant below keeps
  every sum far below the machine limit and shows that \<open>_buffered_bytes\<close> never underflows.
\<close>

section \<open>State\<close>

datatype reasm_key = Key (key_source: ipv4) (key_destination: ipv4) (key_identification: u16) (key_protocol: u8)

record partial =
  pt_fragments :: "(nat \<times> bytes) list"
  pt_total_length :: nat
  pt_have_last :: bool
  pt_received_bytes :: nat
  pt_ms_remaining :: int
  pt_source :: ipv4

record reassembler =
  ra_partials :: "(reasm_key \<times> partial) list"
  ra_buffered_bytes :: nat
  ra_timeout_ms :: int

datatype reasm_result = Incomplete | Complete bytes | Rejected

definition MAX_DATAGRAM_BYTES :: nat where "MAX_DATAGRAM_BYTES = 65535 - 20"
definition MAX_PENDING_DATAGRAMS :: nat where "MAX_PENDING_DATAGRAMS = 64"
definition MAX_BUFFERED_BYTES :: nat where "MAX_BUFFERED_BYTES = 1024 * 1024"
definition MAX_FRAGMENTS_PER_DATAGRAM :: nat where "MAX_FRAGMENTS_PER_DATAGRAM = 128"

definition reassembler_new :: "int \<Rightarrow> reassembler" where
  "reassembler_new timeout_ms = \<lparr>ra_partials = [], ra_buffered_bytes = 0, ra_timeout_ms = timeout_ms\<rparr>"

section \<open>Operations\<close>

fun fragment_insert :: "nat \<Rightarrow> bytes \<Rightarrow> (nat \<times> bytes) list \<Rightarrow> (nat \<times> bytes) list" where
  "fragment_insert start payload [] = [(start, payload)]"
| "fragment_insert start payload ((s, p) # rest) =
     (if start < s then (start, payload) # (s, p) # rest
      else if start = s then (start, payload) # rest
      else (s, p) # fragment_insert start payload rest)"

fun covered_loop :: "nat \<Rightarrow> (nat \<times> bytes) list \<Rightarrow> nat option" where
  "covered_loop covered [] = Some covered"
| "covered_loop covered ((s, p) # rest) =
     (if s \<noteq> covered then None else covered_loop (covered + length p) rest)"

definition is_complete :: "partial \<Rightarrow> bool" where
  "is_complete p \<longleftrightarrow> pt_have_last p \<and> covered_loop 0 (pt_fragments p) = Some (pt_total_length p)"

definition assemble :: "partial \<Rightarrow> bytes" where
  "assemble p = foldl (\<lambda>datagram (s, payload). datagram @ payload) [] (pt_fragments p)"

definition drop_partial :: "reasm_key \<Rightarrow> reassembler \<Rightarrow> reassembler" where
  "drop_partial key ra =
     (case map_of (ra_partials ra) key of
        None \<Rightarrow> ra
      | Some p \<Rightarrow> ra\<lparr>ra_buffered_bytes := ra_buffered_bytes ra - pt_received_bytes p,
                       ra_partials := AList.delete key (ra_partials ra)\<rparr>)"

definition overlaps :: "nat \<Rightarrow> nat \<Rightarrow> nat \<times> bytes \<Rightarrow> bool" where
  "overlaps start fin entry \<longleftrightarrow> start < fst entry + length (snd entry) \<and> fst entry < fin"

definition partial_fresh :: "reassembler \<Rightarrow> ipv4 \<Rightarrow> partial" where
  "partial_fresh ra source =
     \<lparr>pt_fragments = [], pt_total_length = 0, pt_have_last = False, pt_received_bytes = 0,
      pt_ms_remaining = ra_timeout_ms ra, pt_source = source\<rparr>"

text \<open>\<open>offer\<close> once the key has its entry \<open>p\<close> in the map.\<close>

definition offer_existing :: "reasm_key \<Rightarrow> nat \<Rightarrow> bool \<Rightarrow> bytes \<Rightarrow> partial \<Rightarrow> reassembler \<Rightarrow> reasm_result \<times> reassembler" where
  "offer_existing key start more_fragments payload p ra =
     (let fin = start + length payload in
      if length (pt_fragments p) \<ge> MAX_FRAGMENTS_PER_DATAGRAM
         \<or> ra_buffered_bytes ra + length payload > MAX_BUFFERED_BYTES
      then (Rejected, drop_partial key ra)
      else if list_ex (overlaps start fin) (pt_fragments p) then (Rejected, drop_partial key ra)
      else if \<not> more_fragments \<and> pt_have_last p \<and> pt_total_length p \<noteq> fin
      then (Rejected, drop_partial key ra)
      else
        let p = (if \<not> more_fragments then p\<lparr>pt_have_last := True, pt_total_length := fin\<rparr> else p);
            ra = ra\<lparr>ra_partials := AList.update key p (ra_partials ra)\<rparr> in
        if pt_have_last p \<and> fin > pt_total_length p then (Rejected, drop_partial key ra)
        else
          let p = p\<lparr>pt_fragments := fragment_insert start payload (pt_fragments p),
                    pt_received_bytes := pt_received_bytes p + length payload\<rparr>;
              ra = ra\<lparr>ra_partials := AList.update key p (ra_partials ra),
                      ra_buffered_bytes := ra_buffered_bytes ra + length payload\<rparr> in
          if \<not> is_complete p then (Incomplete, ra)
          else (Complete (assemble p), drop_partial key ra))"

definition offer :: "ipv4 \<Rightarrow> ipv4 \<Rightarrow> u16 \<Rightarrow> u8 \<Rightarrow> u16 \<Rightarrow> bool \<Rightarrow> bytes \<Rightarrow> reassembler \<Rightarrow> reasm_result \<times> reassembler" where
  "offer source destination identification protocol fragment_offset more_fragments payload ra =
     (let start = unat fragment_offset * 8;
          fin = start + length payload in
      if payload = [] \<or> fin > MAX_DATAGRAM_BYTES then (Rejected, ra)
      else
        let key = Key source destination identification protocol in
        case map_of (ra_partials ra) key of
          Some p \<Rightarrow> offer_existing key start more_fragments payload p ra
        | None \<Rightarrow>
            if length (ra_partials ra) \<ge> MAX_PENDING_DATAGRAMS
               \<or> ra_buffered_bytes ra + length payload > MAX_BUFFERED_BYTES
            then (Rejected, ra)
            else
              let fresh = partial_fresh ra source;
                  ra = ra\<lparr>ra_partials := AList.update key fresh (ra_partials ra)\<rparr>
              in offer_existing key start more_fragments payload fresh ra)"

text \<open>The ageing loop over the map, with the running byte count and the list of expired sources.\<close>

fun reasm_age_loop :: "u32 \<Rightarrow> (reasm_key \<times> partial) list \<Rightarrow> nat \<Rightarrow>
    (reasm_key \<times> partial) list \<times> nat \<times> ipv4 list" where
  "reasm_age_loop elapsed_ms [] buffered = ([], buffered, [])"
| "reasm_age_loop elapsed_ms ((key, p) # rest) buffered =
     (let p = p\<lparr>pt_ms_remaining := pt_ms_remaining p - sint elapsed_ms\<rparr> in
      if pt_ms_remaining p \<le> 0 then
        (let (kept, buffered, expired) = reasm_age_loop elapsed_ms rest (buffered - pt_received_bytes p)
         in (kept, buffered, pt_source p # expired))
      else
        (let (kept, buffered, expired) = reasm_age_loop elapsed_ms rest buffered
         in ((key, p) # kept, buffered, expired)))"

definition reasm_age :: "u32 \<Rightarrow> reassembler \<Rightarrow> reassembler \<times> ipv4 list" where
  "reasm_age elapsed_ms ra =
     (let (kept, buffered, expired) = reasm_age_loop elapsed_ms (ra_partials ra) (ra_buffered_bytes ra)
      in (ra\<lparr>ra_partials := kept, ra_buffered_bytes := buffered\<rparr>, expired))"

section \<open>The invariant\<close>

definition partial_ok :: "partial \<Rightarrow> bool" where
  "partial_ok p \<longleftrightarrow>
     sorted_wrt (\<lambda>(s, a) (s', b). s + length a \<le> s') (pt_fragments p) \<and>
     (\<forall>(s, a)\<in>set (pt_fragments p). a \<noteq> [] \<and> s + length a \<le> MAX_DATAGRAM_BYTES) \<and>
     length (pt_fragments p) \<le> MAX_FRAGMENTS_PER_DATAGRAM \<and>
     pt_received_bytes p = sum_list (map (length \<circ> snd) (pt_fragments p))"

definition reasm_ok :: "reassembler \<Rightarrow> bool" where
  "reasm_ok ra \<longleftrightarrow>
     distinct (map fst (ra_partials ra)) \<and>
     (\<forall>(k, p)\<in>set (ra_partials ra). partial_ok p) \<and>
     length (ra_partials ra) \<le> MAX_PENDING_DATAGRAMS \<and>
     ra_buffered_bytes ra = sum_list (map (pt_received_bytes \<circ> snd) (ra_partials ra)) \<and>
     ra_buffered_bytes ra \<le> MAX_BUFFERED_BYTES"


section \<open>Inserting a fragment\<close>

abbreviation before :: "nat \<times> bytes \<Rightarrow> nat \<times> bytes \<Rightarrow> bool" where
  "before \<equiv> (\<lambda>(s, a) (s', b). s + length a \<le> s')"

lemma fragment_insert_set:
  "start \<notin> fst ` set xs \<Longrightarrow> set (fragment_insert start payload xs) = insert (start, payload) (set xs)"
  by (induction start payload xs rule: fragment_insert.induct) auto

lemma fragment_insert_sizes:
  "start \<notin> fst ` set xs \<Longrightarrow> length (fragment_insert start payload xs) = Suc (length xs)"
  "start \<notin> fst ` set xs \<Longrightarrow>
     sum_list (map (length \<circ> snd) (fragment_insert start payload xs)) = sum_list (map (length \<circ> snd) xs) + length payload"
  by (induction start payload xs rule: fragment_insert.induct) auto

lemma not_overlaps_key:
  assumes "\<not> overlaps start (start + length payload) (s, a)" "payload \<noteq> []" "a \<noteq> []"
  shows "start \<noteq> s \<and> (start < s \<longrightarrow> start + length payload \<le> s) \<and> (s < start \<longrightarrow> s + length a \<le> start)"
  using assms by (cases payload; cases a) (auto simp: overlaps_def)

lemma fragment_insert_sorted:
  assumes "sorted_wrt before xs" "\<forall>(s, a)\<in>set xs. a \<noteq> []" "payload \<noteq> []"
    "\<not> list_ex (overlaps start (start + length payload)) xs"
  shows "sorted_wrt before (fragment_insert start payload xs) \<and> start \<notin> fst ` set xs"
  using assms
proof (induction xs)
  case (Cons x xs)
  obtain s a where x: "x = (s, a)" by force
  have k: "start \<noteq> s" "start < s \<longrightarrow> start + length payload \<le> s" "s < start \<longrightarrow> s + length a \<le> start"
    using not_overlaps_key [of start payload s a] Cons.prems x by auto
  have IH: "sorted_wrt before (fragment_insert start payload xs)" "start \<notin> fst ` set xs"
    using Cons by auto
  have "\<forall>y\<in>set (fragment_insert start payload xs). before (s, a) y" if "s < start"
    using Cons.prems(1) k that fragment_insert_set [OF IH(2), of payload] by (auto simp: x)
  with IH Cons.prems(1) k show ?case by (auto simp: x)
qed simp

lemma partial_ok_insert:
  assumes "partial_ok p" "payload \<noteq> []" "start + length payload \<le> MAX_DATAGRAM_BYTES"
    "length (pt_fragments p) < MAX_FRAGMENTS_PER_DATAGRAM"
    "\<not> list_ex (overlaps start (start + length payload)) (pt_fragments p)"
  shows "partial_ok (p\<lparr>pt_fragments := fragment_insert start payload (pt_fragments p),
                    pt_received_bytes := pt_received_bytes p + length payload\<rparr>)"
proof -
  have *: "sorted_wrt before (fragment_insert start payload (pt_fragments p))" "start \<notin> fst ` set (pt_fragments p)"
    using fragment_insert_sorted [of "pt_fragments p" payload start] assms by (auto simp: partial_ok_def)
  with assms show ?thesis
    by (auto simp: partial_ok_def fragment_insert_set fragment_insert_sizes)
qed

section \<open>Every operation keeps the invariant\<close>

lemma reasm_ok_new: "reasm_ok (reassembler_new t)"
  by (simp add: reasm_ok_def reassembler_new_def)

lemma reasm_ok_drop: "reasm_ok ra \<Longrightarrow> reasm_ok (drop_partial key ra)"
  using sum_list_alist_delete [of "ra_partials ra" pt_received_bytes key] length_delete_le [of key "ra_partials ra"]
  by (auto simp: reasm_ok_def drop_partial_def distinct_delete split: option.split dest!: set_alist_delete)

lemma reasm_ok_update:
  assumes "reasm_ok ra" "map_of (ra_partials ra) key = Some p" "partial_ok p'"
    "pt_received_bytes p' = pt_received_bytes p + n" "ra_buffered_bytes ra + n \<le> MAX_BUFFERED_BYTES"
  shows "reasm_ok (ra\<lparr>ra_partials := AList.update key p' (ra_partials ra), ra_buffered_bytes := ra_buffered_bytes ra + n\<rparr>)"
proof -
  have "length (AList.update key p' (ra_partials ra)) = length (ra_partials ra)"
    using assms(2) by (simp add: length_alist_update)
  then show ?thesis
    using assms sum_list_alist_update [of "ra_partials ra" pt_received_bytes key p']
    by (auto simp: reasm_ok_def distinct_update dest: set_alist_update)
qed


lemma reasm_ok_same_bytes:
  assumes "reasm_ok ra" "map_of (ra_partials ra) key = Some p" "partial_ok p'" "pt_received_bytes p' = pt_received_bytes p"
  shows "reasm_ok (ra\<lparr>ra_partials := AList.update key p' (ra_partials ra)\<rparr>)"
  using reasm_ok_update [OF assms(1-3), of 0] assms by (simp add: reasm_ok_def)

lemma reasm_ok_partial: "reasm_ok ra \<Longrightarrow> map_of (ra_partials ra) key = Some p \<Longrightarrow> partial_ok p"
  by (auto simp: reasm_ok_def dest: map_of_SomeD)

lemma partial_ok_last: "partial_ok p \<Longrightarrow> partial_ok (p\<lparr>pt_have_last := b, pt_total_length := n\<rparr>)"
  by (simp add: partial_ok_def)

lemma reasm_ok_offer_existing:
  assumes ok: "reasm_ok ra" and p: "map_of (ra_partials ra) key = Some p"
    and payload: "payload \<noteq> []" "start + length payload \<le> MAX_DATAGRAM_BYTES"
  shows "reasm_ok (snd (offer_existing key start mf payload p ra))"
proof -
  define p1 where "p1 = (if \<not> mf then p\<lparr>pt_have_last := True, pt_total_length := start + length payload\<rparr> else p)"
  define ra1 where "ra1 = ra\<lparr>ra_partials := AList.update key p1 (ra_partials ra)\<rparr>"
  define p2 where "p2 = p1\<lparr>pt_fragments := fragment_insert start payload (pt_fragments p1),
                    pt_received_bytes := pt_received_bytes p1 + length payload\<rparr>"
  define ra2 where "ra2 = ra1\<lparr>ra_partials := AList.update key p2 (ra_partials ra1),
                      ra_buffered_bytes := ra_buffered_bytes ra1 + length payload\<rparr>"
  have pok: "partial_ok p" by (rule reasm_ok_partial [OF ok p])
  then have p1: "partial_ok p1" "pt_fragments p1 = pt_fragments p" "pt_received_bytes p1 = pt_received_bytes p"
    by (simp_all add: p1_def partial_ok_last)
  have ra1: "reasm_ok ra1" "map_of (ra_partials ra1) key = Some p1" "ra_buffered_bytes ra1 = ra_buffered_bytes ra"
    unfolding ra1_def using reasm_ok_same_bytes [OF ok p p1(1,3)] by (simp_all add: update_conv')
  have ra2: "reasm_ok ra2"
    if "length (pt_fragments p) < MAX_FRAGMENTS_PER_DATAGRAM" "ra_buffered_bytes ra + length payload \<le> MAX_BUFFERED_BYTES"
      "\<not> list_ex (overlaps start (start + length payload)) (pt_fragments p)"
    unfolding ra2_def
  proof (rule reasm_ok_update [OF ra1(1,2)])
    show "partial_ok p2" unfolding p2_def
      by (rule partial_ok_insert [OF p1(1) payload]) (use that p1 in simp_all)
  qed (use that ra1 in \<open>simp_all add: p2_def\<close>)
  show ?thesis
    unfolding offer_existing_def Let_def p1_def [symmetric] ra1_def [symmetric] p2_def [symmetric] ra2_def [symmetric]
    using ok ra1(1) ra2 by (auto simp: reasm_ok_drop not_le not_less)
qed

lemma reasm_ok_offer: "reasm_ok ra \<Longrightarrow> reasm_ok (snd (offer src dst idn proto off mf payload ra))"
proof -
  assume ok: "reasm_ok ra"
  let ?key = "Key src dst idn proto"
  have fresh: "reasm_ok (ra\<lparr>ra_partials := AList.update ?key (partial_fresh ra src) (ra_partials ra)\<rparr>)"
    if "map_of (ra_partials ra) ?key = None" "length (ra_partials ra) < MAX_PENDING_DATAGRAMS"
    using ok that sum_list_alist_update [of "ra_partials ra" pt_received_bytes ?key "partial_fresh ra src"]
    by (auto simp: reasm_ok_def distinct_update length_alist_update partial_fresh_def partial_ok_def dest!: set_alist_update)
  show ?thesis
    unfolding offer_def Let_def using ok fresh
    by (auto simp: not_less not_le update_conv' split: option.split intro!: reasm_ok_offer_existing)
qed

definition expires :: "u32 \<Rightarrow> partial \<Rightarrow> bool" where
  "expires elapsed_ms p \<longleftrightarrow> pt_ms_remaining p \<le> sint elapsed_ms"

definition aged :: "u32 \<Rightarrow> partial \<Rightarrow> partial" where
  "aged elapsed_ms p = p\<lparr>pt_ms_remaining := pt_ms_remaining p - sint elapsed_ms\<rparr>"

lemma reasm_age_loop_eq:
  "reasm_age_loop n ps b =
     (map (\<lambda>(k, p). (k, aged n p)) (filter (\<lambda>(k, p). \<not> expires n p) ps),
      b - sum_list (map (pt_received_bytes \<circ> snd) (filter (\<lambda>(k, p). expires n p) ps)),
      map (pt_source \<circ> snd) (filter (\<lambda>(k, p). expires n p) ps))"
  by (induction n ps b rule: reasm_age_loop.induct) (auto simp: Let_def expires_def aged_def)

lemma reasm_age_eq:
  "reasm_age n ra =
     (ra\<lparr>ra_partials := map (\<lambda>(k, p). (k, aged n p)) (filter (\<lambda>(k, p). \<not> expires n p) (ra_partials ra)),
         ra_buffered_bytes := ra_buffered_bytes ra
           - sum_list (map (pt_received_bytes \<circ> snd) (filter (\<lambda>(k, p). expires n p) (ra_partials ra)))\<rparr>,
      map (pt_source \<circ> snd) (filter (\<lambda>(k, p). expires n p) (ra_partials ra)))"
  by (simp add: reasm_age_def reasm_age_loop_eq)

lemma sum_list_filter_split:
  fixes f :: "'a \<Rightarrow> nat"
  shows "sum_list (map f xs) = sum_list (map f (filter P xs)) + sum_list (map f (filter (\<lambda>x. \<not> P x) xs))"
  by (induction xs) auto

lemma partial_ok_aged: "partial_ok (aged n p) = partial_ok p"
  by (simp add: partial_ok_def aged_def)

lemma reasm_ok_age:
  assumes "reasm_ok ra"
  shows "reasm_ok (fst (reasm_age n ra))"
proof -
  let ?ps = "ra_partials ra"
  let ?kept = "filter (\<lambda>(k, p). \<not> expires n p) ?ps"
  have dist: "distinct (map fst (map (\<lambda>(k, p). (k, aged n p)) ?kept))"
    using assms by (simp add: reasm_ok_def comp_def case_prod_unfold distinct_map_filter)
  have len: "length ?kept \<le> length ?ps" by simp
  have "sum_list (map (pt_received_bytes \<circ> snd) (map (\<lambda>(k, p). (k, aged n p)) ?kept))
      = sum_list (map (pt_received_bytes \<circ> snd) ?kept)"
    by (simp add: comp_def case_prod_unfold aged_def)
  moreover have "sum_list (map (pt_received_bytes \<circ> snd) ?ps)
      = sum_list (map (pt_received_bytes \<circ> snd) (filter (\<lambda>(k, p). expires n p) ?ps))
        + sum_list (map (pt_received_bytes \<circ> snd) ?kept)"
    using sum_list_filter_split [of "pt_received_bytes \<circ> snd" ?ps "\<lambda>(k, p). expires n p"]
    by (simp add: case_prod_unfold)
  ultimately show ?thesis
    using assms dist len
    unfolding reasm_age_eq reasm_ok_def
    by (auto simp: partial_ok_aged simp del: length_filter_le)
qed


section \<open>Only offered bytes are delivered\<close>

datatype reasm_op = Offer ipv4 ipv4 u16 u8 u16 bool bytes | AgeBy u32

fun reasm_step :: "reasm_op \<Rightarrow> reassembler \<Rightarrow> reassembler" where
  "reasm_step (Offer src dst idn proto off mf payload) ra = snd (offer src dst idn proto off mf payload ra)"
| "reasm_step (AgeBy n) ra = fst (reasm_age n ra)"

definition reasm_run :: "reasm_op list \<Rightarrow> reassembler \<Rightarrow> reassembler" where
  "reasm_run ops ra = foldl (\<lambda>ra op. reasm_step op ra) ra ops"

text \<open>The fragments of a datagram that were offered: its key, the byte offset and the bytes.\<close>

fun op_offers :: "reasm_op \<Rightarrow> (reasm_key \<times> nat \<times> bytes) set" where
  "op_offers (Offer src dst idn proto off mf payload) = {(Key src dst idn proto, unat off * 8, payload)}"
| "op_offers (AgeBy n) = {}"

definition offered :: "reasm_op list \<Rightarrow> (reasm_key \<times> nat \<times> bytes) set" where
  "offered ops = (\<Union>op\<in>set ops. op_offers op)"

definition holds_only :: "(reasm_key \<times> nat \<times> bytes) set \<Rightarrow> reassembler \<Rightarrow> bool" where
  "holds_only H ra \<longleftrightarrow> (\<forall>(k, p)\<in>set (ra_partials ra). \<forall>(s, a)\<in>set (pt_fragments p). (k, s, a) \<in> H)"

lemma holds_only_mono: "holds_only H ra \<Longrightarrow> H \<subseteq> H' \<Longrightarrow> holds_only H' ra"
  by (fastforce simp: holds_only_def)

lemma holds_only_drop: "holds_only H ra \<Longrightarrow> holds_only H (drop_partial key ra)"
  by (auto simp: holds_only_def drop_partial_def split: option.split dest!: set_alist_delete)

lemma holds_only_update:
  "holds_only H ra \<Longrightarrow> \<forall>(s, a)\<in>set (pt_fragments p). (key, s, a) \<in> H \<Longrightarrow>
   holds_only H (ra\<lparr>ra_partials := AList.update key p (ra_partials ra)\<rparr>)"
  by (fastforce simp: holds_only_def dest!: set_alist_update)

lemma holds_only_buffered [simp]: "holds_only H (ra\<lparr>ra_buffered_bytes := n\<rparr>) = holds_only H ra"
  by (simp add: holds_only_def)

lemma fragment_insert_subset: "set (fragment_insert start payload xs) \<subseteq> insert (start, payload) (set xs)"
  by (induction start payload xs rule: fragment_insert.induct) auto

lemma covered_loop_bytes:
  "covered_loop c xs = Some n \<Longrightarrow>
     n = c + length (concat (map snd xs)) \<and>
     (\<forall>i. c \<le> i \<and> i < n \<longrightarrow>
        (\<exists>(s, a)\<in>set xs. s \<le> i \<and> i < s + length a \<and> concat (map snd xs) ! (i - c) = a ! (i - s)))"
proof (induction c xs rule: covered_loop.induct)
  case (2 c s p rest)
  then have s: "s = c" and rec: "covered_loop (c + length p) rest = Some n" by (auto split: if_splits)
  have len: "n = c + length p + length (concat (map snd rest))"
    and IH: "c + length p \<le> i \<Longrightarrow> i < n \<Longrightarrow> \<exists>(s, a)\<in>set rest. s \<le> i \<and> i < s + length a
        \<and> concat (map snd rest) ! (i - (c + length p)) = a ! (i - s)" for i
    using 2(1) [OF _ rec] s by auto
  show ?case
  proof (intro conjI allI impI)
    show "n = c + length (concat (map snd ((s, p) # rest)))" using len by simp
    fix i assume i: "c \<le> i \<and> i < n"
    show "\<exists>(s', a)\<in>set ((s, p) # rest). s' \<le> i \<and> i < s' + length a
        \<and> concat (map snd ((s, p) # rest)) ! (i - c) = a ! (i - s')"
    proof (cases "i < c + length p")
      case True
      with i s show ?thesis by (intro bexI [of _ "(s, p)"]) (auto simp: nth_append)
    next
      case False
      then obtain s' a where "(s', a) \<in> set rest" "s' \<le> i" "i < s' + length a"
        "concat (map snd rest) ! (i - (c + length p)) = a ! (i - s')"
        using IH [of i] i by auto
      with False i show ?thesis by (intro bexI [of _ "(s', a)"]) (auto simp: nth_append)
    qed
  qed
qed simp

lemma assemble_eq: "assemble p = concat (map snd (pt_fragments p))"
proof -
  have "foldl (\<lambda>d (s, a). d @ a) acc xs = acc @ concat (map snd xs)" for acc and xs :: "(nat \<times> bytes) list"
    by (induction xs arbitrary: acc) auto
  then show ?thesis by (simp add: assemble_def)
qed

definition bytes_from :: "(nat \<times> bytes) set \<Rightarrow> bytes \<Rightarrow> bool" where
  "bytes_from F d \<longleftrightarrow> (\<forall>i<length d. \<exists>(s, a)\<in>F. s \<le> i \<and> i < s + length a \<and> d ! i = a ! (i - s))"

lemma complete_bytes: "is_complete p \<Longrightarrow> bytes_from (set (pt_fragments p)) (assemble p)"
  using covered_loop_bytes [of 0 "pt_fragments p"] by (auto simp: is_complete_def assemble_eq bytes_from_def)

lemma offer_existing_holds:
  assumes "holds_only H ra" "\<forall>(s, a)\<in>set (pt_fragments p). (key, s, a) \<in> H" "(key, start, payload) \<in> H"
  shows "holds_only H (snd (offer_existing key start mf payload p ra))"
    and "fst (offer_existing key start mf payload p ra) = Complete d \<Longrightarrow> bytes_from {(s, a). (key, s, a) \<in> H} d"
proof -
  define p1 where "p1 = (if \<not> mf then p\<lparr>pt_have_last := True, pt_total_length := start + length payload\<rparr> else p)"
  define ra1 where "ra1 = ra\<lparr>ra_partials := AList.update key p1 (ra_partials ra)\<rparr>"
  define p2 where "p2 = p1\<lparr>pt_fragments := fragment_insert start payload (pt_fragments p1),
                    pt_received_bytes := pt_received_bytes p1 + length payload\<rparr>"
  define ra2 where "ra2 = ra1\<lparr>ra_partials := AList.update key p2 (ra_partials ra1),
                      ra_buffered_bytes := ra_buffered_bytes ra1 + length payload\<rparr>"
  have p1: "pt_fragments p1 = pt_fragments p" by (simp add: p1_def)
  have ra1: "holds_only H ra1" unfolding ra1_def using assms p1 by (intro holds_only_update) auto
  have p2: "\<forall>(s, a)\<in>set (pt_fragments p2). (key, s, a) \<in> H"
    using assms(2,3) p1 fragment_insert_subset [of start payload "pt_fragments p"] by (auto simp: p2_def)
  have ra2: "holds_only H ra2" unfolding ra2_def using holds_only_update [OF ra1 p2]
    by (simp add: holds_only_def)
  note unf = offer_existing_def Let_def p1_def [symmetric] ra1_def [symmetric] p2_def [symmetric] ra2_def [symmetric]
  show "holds_only H (snd (offer_existing key start mf payload p ra))"
    unfolding unf using assms(1) ra1 ra2 by (auto simp: holds_only_drop)
  show "bytes_from {(s, a). (key, s, a) \<in> H} d"
    if "fst (offer_existing key start mf payload p ra) = Complete d"
  proof -
    from that have "is_complete p2" "d = assemble p2" unfolding unf by (auto split: if_splits)
    with complete_bytes [of p2] p2 show ?thesis by (fastforce simp: bytes_from_def)
  qed
qed

lemma offer_holds:
  assumes "holds_only H ra" "(Key src dst idn proto, unat off * 8, payload) \<in> H"
  shows "holds_only H (snd (offer src dst idn proto off mf payload ra))"
    and "fst (offer src dst idn proto off mf payload ra) = Complete d \<Longrightarrow>
      bytes_from {(s, a). (Key src dst idn proto, s, a) \<in> H} d"
proof -
  let ?key = "Key src dst idn proto"
  let ?ra = "ra\<lparr>ra_partials := AList.update ?key (partial_fresh ra src) (ra_partials ra)\<rparr>"
  have fresh: "holds_only H ?ra" using assms(1) by (rule holds_only_update) (simp add: partial_fresh_def)
  have old: "\<forall>(s, a)\<in>set (pt_fragments p). (?key, s, a) \<in> H" if "map_of (ra_partials ra) ?key = Some p" for p
    using map_of_SomeD [OF that] assms(1) by (fastforce simp: holds_only_def)
  note new = offer_existing_holds [OF fresh _ assms(2), of "partial_fresh ra src"]
  note ex = offer_existing_holds [OF assms(1) old assms(2)]
  show "holds_only H (snd (offer src dst idn proto off mf payload ra))"
    unfolding offer_def Let_def using assms(1) new(1) ex(1) by (auto simp: partial_fresh_def split: option.split)
  show "fst (offer src dst idn proto off mf payload ra) = Complete d \<Longrightarrow>
      bytes_from {(s, a). (?key, s, a) \<in> H} d"
    unfolding offer_def Let_def using new(2) ex(2)
    by (auto simp: partial_fresh_def split: option.splits if_splits)
qed

lemma holds_only_age: "holds_only H ra \<Longrightarrow> holds_only H (fst (reasm_age n ra))"
  by (fastforce simp: holds_only_def reasm_age_eq aged_def)

lemma reasm_run_holds:
  "holds_only H ra \<Longrightarrow> offered ops \<subseteq> H \<Longrightarrow> holds_only H (reasm_run ops ra)"
proof (induction ops arbitrary: ra)
  case (Cons op ops)
  have "holds_only H (reasm_step op ra)"
    using Cons.prems by (cases op) (auto simp: offered_def offer_holds(1) holds_only_age)
  with Cons show ?case by (simp add: reasm_run_def offered_def)
qed (simp add: reasm_run_def)

lemma reasm_run_ok: "reasm_ok ra \<Longrightarrow> reasm_ok (reasm_run ops ra)"
proof (induction ops arbitrary: ra)
  case (Cons op ops)
  then show ?case by (cases op) (auto simp: reasm_run_def reasm_ok_offer reasm_ok_age)
qed (simp add: reasm_run_def)

lemma reassembled_bytes_offered:
  assumes "fst (offer src dst idn proto off mf payload (reasm_run ops (reassembler_new t))) = Complete d"
  shows "bytes_from {(s, a). (Key src dst idn proto, s, a) \<in> offered (ops @ [Offer src dst idn proto off mf payload])} d"
proof -
  let ?H = "offered (ops @ [Offer src dst idn proto off mf payload])"
  have "holds_only ?H (reasm_run ops (reassembler_new t))"
    by (rule reasm_run_holds) (auto simp: holds_only_def reassembler_new_def offered_def)
  from offer_holds(2) [OF this _ assms] show ?thesis by (simp add: offered_def)
qed


section \<open>A fragmented datagram is reassembled whatever the order\<close>

type_synonym fragment = "u16 \<times> bool \<times> bytes"

text \<open>\<open>fragmentation at fs d\<close>: \<open>fs\<close> are the fragments of \<open>d\<close>, in order, the first one at offset \<open>at\<close>.\<close>

fun fragmentation :: "nat \<Rightarrow> fragment list \<Rightarrow> bytes \<Rightarrow> bool" where
  "fragmentation at [] d = False"
| "fragmentation at [(off, mf, a)] d = (unat off * 8 = at \<and> \<not> mf \<and> a = d \<and> a \<noteq> [])"
| "fragmentation at ((off, mf, a) # f # fs) d =
     (unat off * 8 = at \<and> mf \<and> a \<noteq> [] \<and> take (length a) d = a
      \<and> fragmentation (at + length a) (f # fs) (drop (length a) d))"

fun piece :: "fragment \<Rightarrow> nat \<times> bytes" where
  "piece (off, mf, a) = (unat off * 8, a)"

lemma fragmentation_bounds:
  "fragmentation at fs d \<Longrightarrow> (off, mf, a) \<in> set fs \<Longrightarrow>
     a \<noteq> [] \<and> at \<le> unat off * 8 \<and> unat off * 8 + length a \<le> at + length d
     \<and> (mf \<longleftrightarrow> unat off * 8 + length a \<noteq> at + length d)"
proof (induction at fs d rule: fragmentation.induct)
  case (3 at off' mf' a' f fs d)
  have tk: "take (length a') d = a'" "a' \<noteq> []" using 3 by auto
  have rest: "fragmentation (at + length a') (f # fs) (drop (length a') d)" and off': "unat off' * 8 = at" "mf'"
    using 3 by simp_all
  have "drop (length a') d \<noteq> []" using rest by (cases fs; cases f) auto
  then have lt: "length a' < length d" by simp
  show ?case
  proof (cases "(off, mf, a) = (off', mf', a')")
    case True
    then show ?thesis using tk off' lt by simp
  next
    case False
    then have "(off, mf, a) \<in> set (f # fs)" using 3 by auto
    from 3(1) [OF rest this] lt show ?thesis by simp
  qed
qed auto

lemma fragmentation_pieces:
  "fragmentation at fs d \<Longrightarrow>
     sorted_wrt before (map piece fs) \<and> concat (map snd (map piece fs)) = d
     \<and> covered_loop at (map piece fs) = Some (at + length d)
     \<and> (\<exists>(off, mf, a)\<in>set fs. \<not> mf)"
proof (induction at fs d rule: fragmentation.induct)
  case (3 at off mf a f fs d)
  have rest: "fragmentation (at + length a) (f # fs) (drop (length a) d)" and tk: "take (length a) d = a"
    and off: "unat off * 8 = at" using 3 by auto
  have d: "d = a @ drop (length a) d" by (metis append_take_drop_id tk)
  have bef: "before (at, a) (piece g)" if "g \<in> set (f # fs)" for g
    using fragmentation_bounds [OF rest, of "fst g" "fst (snd g)" "snd (snd g)"] that by (cases g) auto
  have IH: "sorted_wrt before (map piece (f # fs))" "concat (map snd (map piece (f # fs))) = drop (length a) d"
    "covered_loop (at + length a) (map piece (f # fs)) = Some (at + length a + length (drop (length a) d))"
    "\<exists>(off, mf, a)\<in>set (f # fs). \<not> mf"
    using 3(1) [OF rest] by blast+
  have len: "at + length a + length (drop (length a) d) = at + length d"
    using arg_cong [OF d, of length] by (simp only: length_append add.assoc)
  have "sorted_wrt before (map piece ((off, mf, a) # f # fs))"
    using bef IH(1) off by (simp add: comp_def)
  moreover have "concat (map snd (map piece ((off, mf, a) # f # fs))) = d"
    using IH(2) d by (metis concat.simps(2) list.simps(9) piece.simps snd_conv)
  moreover have "covered_loop at (map piece ((off, mf, a) # f # fs)) = Some (at + length d)"
    using IH(3) off len by simp
  moreover have "\<exists>(off, mf, a)\<in>set ((off, mf, a) # f # fs). \<not> mf" using IH(4) by auto
  ultimately show ?case by blast
qed auto

lemma before_irrefl: "snd u \<noteq> [] \<Longrightarrow> \<not> (before u v \<and> before v u)"
  by (cases u; cases v; cases "snd u") auto

lemma before_unique:
  "sorted_wrt before xs \<Longrightarrow> sorted_wrt before ys \<Longrightarrow> \<forall>(s, a)\<in>set xs. a \<noteq> [] \<Longrightarrow> set xs = set ys \<Longrightarrow> xs = ys"
proof (induction xs arbitrary: ys)
  case (Cons x xs)
  then obtain y ys' where ys: "ys = y # ys'" by (cases ys) auto
  have irr: "\<not> (before u v \<and> before v u)" if "u \<in> set ys" "v \<in> set ys" for u v
    by (rule before_irrefl) (use that(1) Cons.prems(3,4) in \<open>auto simp: case_prod_unfold\<close>)
  have "x = y"
  proof (rule ccontr)
    assume "x \<noteq> y"
    then have "x \<in> set ys'" "y \<in> set xs" using Cons.prems(4) ys by auto
    then have "before x y" "before y x" using Cons.prems(1,2) ys by auto
    moreover have "x \<in> set ys" "y \<in> set ys" using Cons.prems(4) ys by auto
    ultimately show False using irr by blast
  qed
  moreover have "x \<notin> set xs"
  proof
    assume "x \<in> set xs"
    then have "before x x" using Cons.prems(1) by simp
    moreover have "x \<in> set ys" using Cons.prems(4) by auto
    ultimately show False using irr by blast
  qed
  moreover have "y \<notin> set ys'"
  proof
    assume "y \<in> set ys'"
    then have "before y y" using Cons.prems(2) ys by simp
    moreover have "y \<in> set ys" using ys by simp
    ultimately show False using irr by blast
  qed
  ultimately have "set xs = set ys'" using Cons.prems(4) ys by auto
  with Cons.IH [of ys'] Cons.prems ys \<open>x = y\<close> show ?case by auto
qed simp

lemma before_total:
  "sorted_wrt before xs \<Longrightarrow> x \<in> set xs \<Longrightarrow> y \<in> set xs \<Longrightarrow> x \<noteq> y \<Longrightarrow> before x y \<or> before y x"
  by (induction xs) auto

lemma before_distinct:
  "sorted_wrt before xs \<Longrightarrow> \<forall>(s, a)\<in>set xs. a \<noteq> [] \<Longrightarrow> distinct xs"
proof (induction xs)
  case (Cons x xs)
  have "x \<notin> set xs" using before_irrefl [of x x] Cons.prems by (auto simp: case_prod_unfold)
  with Cons show ?case by auto
qed simp


definition inserted :: "fragment list \<Rightarrow> (nat \<times> bytes) list" where
  "inserted xs = foldl (\<lambda>fs f. fragment_insert (fst (piece f)) (snd (piece f)) fs) [] xs"

lemma inserted_simps [simp]:
  "inserted [] = []" "inserted (xs @ [f]) = fragment_insert (fst (piece f)) (snd (piece f)) (inserted xs)"
  by (simp_all add: inserted_def)

lemma fragmentation_inj:
  assumes "fragmentation at frs d"
  shows "inj_on piece (set frs)" "distinct frs"
proof -
  have "\<forall>(s, a)\<in>set (map piece frs). a \<noteq> []"
    using fragmentation_bounds [OF assms] by fastforce
  with before_distinct fragmentation_pieces [OF assms] have "distinct (map piece frs)" by blast
  then show "inj_on piece (set frs)" "distinct frs" by (simp_all add: distinct_map)
qed

lemma fragments_disjoint:
  assumes "fragmentation at frs d" "f \<in> set frs" "g \<in> set frs" "f \<noteq> g"
  shows "\<not> overlaps (fst (piece f)) (fst (piece f) + length (snd (piece f))) (piece g)"
proof -
  have "piece f \<noteq> piece g" using fragmentation_inj(1) [OF assms(1)] assms(2-4) by (auto dest: inj_onD)
  then have "before (piece f) (piece g) \<or> before (piece g) (piece f)"
    using before_total [of "map piece frs"] fragmentation_pieces [OF assms(1)] assms(2,3) by force
  then show ?thesis by (cases f; cases g) (auto simp: overlaps_def)
qed

lemma inserted_facts:
  assumes frs: "fragmentation at frs d"
  shows "distinct xs \<Longrightarrow> set xs \<subseteq> set frs \<Longrightarrow>
     sorted_wrt before (inserted xs) \<and> set (inserted xs) = piece ` set xs \<and> length (inserted xs) = length xs
     \<and> sum_list (map (length \<circ> snd) (inserted xs)) = sum_list (map (\<lambda>f. length (snd (piece f))) xs)"
proof (induction xs rule: rev_induct)
  case (snoc f xs)
  have IH: "sorted_wrt before (inserted xs)" "set (inserted xs) = piece ` set xs" "length (inserted xs) = length xs"
    "sum_list (map (length \<circ> snd) (inserted xs)) = sum_list (map (\<lambda>f. length (snd (piece f))) xs)"
    using snoc by (auto simp: comp_def)
  have ne: "snd (piece g) \<noteq> []" if "g \<in> set frs" for g
    using fragmentation_bounds [OF frs, of "fst g" "fst (snd g)" "snd (snd g)"] that by (cases g) auto
  have "\<not> overlaps (fst (piece f)) (fst (piece f) + length (snd (piece f))) (piece g)" if "g \<in> set xs" for g
    by (rule fragments_disjoint [OF frs]) (use that snoc.prems in \<open>auto simp del: piece.simps\<close>)
  then have "\<not> list_ex (overlaps (fst (piece f)) (fst (piece f) + length (snd (piece f)))) (inserted xs)"
    unfolding list_ex_iff IH(2) by blast
  moreover have "\<forall>(s, a)\<in>set (inserted xs). a \<noteq> []" using ne snoc.prems(2) unfolding IH(2) by (auto simp del: piece.simps simp: case_prod_unfold)
  ultimately have "sorted_wrt before (inserted (xs @ [f])) \<and> fst (piece f) \<notin> fst ` set (inserted xs)"
    using fragment_insert_sorted [OF IH(1)] ne [of f] snoc.prems(2) by simp
  then show ?case using IH by (simp add: fragment_insert_set fragment_insert_sizes [unfolded comp_def] comp_def)
qed simp

lemma inserted_all:
  assumes "fragmentation at frs d" "distinct xs" "set xs = set frs"
  shows "inserted xs = map piece frs"
proof (rule before_unique)
  show "sorted_wrt before (inserted xs)" "set (inserted xs) = set (map piece frs)"
    using inserted_facts [OF assms(1,2)] assms(3) by auto
  show "sorted_wrt before (map piece frs)" using fragmentation_pieces [OF assms(1)] by blast
  show "\<forall>(s, a)\<in>set (inserted xs). a \<noteq> []"
    using inserted_facts [OF assms(1,2)] assms(3) fragmentation_bounds [OF assms(1)] by fastforce
qed

lemma fragment_bytes_less:
  assumes "fragmentation at frs d" "distinct xs" "set xs \<subset> set frs"
  shows "sum_list (map (\<lambda>f. length (snd (piece f))) xs) < length d"
proof -
  obtain g where g: "g \<in> set frs" "g \<notin> set xs" using assms(3) by blast
  have tot: "length d = sum_list (map (\<lambda>f. length (snd (piece f))) frs)"
  proof -
    have "d = concat (map snd (map piece frs))" using fragmentation_pieces [OF assms(1)] by blast
    then show ?thesis by (simp only: length_concat map_map comp_def)
  qed
  have "snd (piece g) \<noteq> []"
    using fragmentation_bounds [OF assms(1), of "fst g" "fst (snd g)" "snd (snd g)"] g(1) by (cases g) auto
  then have "sum (\<lambda>f. length (snd (piece f))) (set xs) < sum (\<lambda>f. length (snd (piece f))) (set frs)"
    using assms(3) g by (intro sum_strict_mono2 [of _ _ g]) auto
  then show ?thesis
    using tot assms(2) fragmentation_inj(2) [OF assms(1)] by (simp add: sum_list_distinct_conv_sum_set)
qed


lemma alist_delete_update_new: "map_of al k = None \<Longrightarrow> AList.delete k (AList.update k v al) = al"
  by (induction al) (auto split: if_splits)

definition partial_of :: "reassembler \<Rightarrow> ipv4 \<Rightarrow> bytes \<Rightarrow> fragment list \<Rightarrow> partial" where
  "partial_of ra src d xs =
     \<lparr>pt_fragments = inserted xs,
      pt_total_length = (if \<exists>(off, mf, a)\<in>set xs. \<not> mf then length d else 0),
      pt_have_last = (\<exists>(off, mf, a)\<in>set xs. \<not> mf),
      pt_received_bytes = sum_list (map (\<lambda>f. length (snd (piece f))) xs),
      pt_ms_remaining = ra_timeout_ms ra, pt_source = src\<rparr>"

definition holding :: "reasm_key \<Rightarrow> ipv4 \<Rightarrow> bytes \<Rightarrow> reassembler \<Rightarrow> fragment list \<Rightarrow> reassembler" where
  "holding key src d ra xs =
     ra\<lparr>ra_partials := AList.update key (partial_of ra src d xs) (ra_partials ra),
        ra_buffered_bytes := ra_buffered_bytes ra + sum_list (map (\<lambda>f. length (snd (piece f))) xs)\<rparr>"

lemma complete_iff_all:
  assumes frs: "fragmentation 0 frs d" and xs: "distinct xs" "set xs \<subseteq> set frs"
  shows "is_complete (partial_of ra src d xs) \<longleftrightarrow> set xs = set frs"
    and "set xs = set frs \<Longrightarrow> assemble (partial_of ra src d xs) = d"
proof -
  note all = inserted_all [OF frs xs(1)] and pieces = fragmentation_pieces [OF frs]
  show "assemble (partial_of ra src d xs) = d" if "set xs = set frs"
    using all [OF that] pieces by (simp add: assemble_eq partial_of_def)
  have "is_complete (partial_of ra src d xs)" if "set xs = set frs"
    using all [OF that] pieces that by (auto simp: is_complete_def partial_of_def)
  moreover have "set xs = set frs" if c: "is_complete (partial_of ra src d xs)"
  proof (rule ccontr)
    assume "set xs \<noteq> set frs"
    then have "sum_list (map (\<lambda>f. length (snd (piece f))) xs) < length d"
      using fragment_bytes_less [OF frs xs(1)] xs(2) by blast
    moreover have "covered_loop 0 (inserted xs) = Some (length d)"
      using c by (auto simp: is_complete_def partial_of_def split: if_splits)
    then have "length d = sum_list (map (length \<circ> snd) (inserted xs))"
      using covered_loop_bytes by (force simp: length_concat comp_def)
    ultimately show False using inserted_facts [OF frs xs] by simp
  qed
  ultimately show "is_complete (partial_of ra src d xs) \<longleftrightarrow> set xs = set frs" by blast
qed

lemma drop_holding:
  assumes "map_of (ra_partials ra) key = None"
  shows "drop_partial key (holding key src d ra xs) = ra"
  using assms by (simp add: drop_partial_def holding_def update_conv' partial_of_def alist_delete_update_new)

lemma fragment_bytes_le:
  assumes "fragmentation at frs d" "distinct xs" "set xs \<subseteq> set frs"
  shows "sum_list (map (\<lambda>f. length (snd (piece f))) xs) \<le> length d"
proof (cases "set xs = set frs")
  case True
  have "concat (map snd (inserted xs)) = d"
    using inserted_all [OF assms(1,2) True] fragmentation_pieces [OF assms(1)] by simp
  then have "length d = sum_list (map (length \<circ> snd) (inserted xs))" by (auto simp: length_concat comp_def)
  with inserted_facts [OF assms] show ?thesis by simp
next
  case False
  with fragment_bytes_less [OF assms(1,2)] assms(3) show ?thesis by (simp add: psubset_eq)
qed

lemma inserted_no_overlap:
  assumes frs: "fragmentation at frs d" and xs: "distinct (xs @ [f])" "set (xs @ [f]) \<subseteq> set frs"
  shows "\<not> list_ex (overlaps (fst (piece f)) (fst (piece f) + length (snd (piece f)))) (inserted xs)"
proof -
  have pieces: "set (inserted xs) = piece ` set xs"
    using inserted_facts [OF frs, of xs] xs by simp
  have "\<not> overlaps (fst (piece f)) (fst (piece f) + length (snd (piece f))) (piece g)" if "g \<in> set xs" for g
    by (rule fragments_disjoint [OF frs]) (use that xs in \<open>auto simp del: piece.simps\<close>)
  then show ?thesis unfolding list_ex_iff pieces by blast
qed

lemma inserted_few:
  assumes frs: "fragmentation at frs d" and xs: "distinct (xs @ [f])" "set (xs @ [f]) \<subseteq> set frs"
  shows "length (inserted xs) < length frs"
proof -
  have xs': "distinct xs" "set xs \<subset> set frs" using xs by auto
  then have "card (set xs) < card (set frs)" by (intro psubset_card_mono) auto
  then show ?thesis
    using inserted_facts [OF frs xs'(1)] fragmentation_inj(2) [OF frs] xs' by (simp add: distinct_card)
qed

lemma offer_existing_next:
  assumes frs: "fragmentation 0 frs d" and xs: "distinct (xs @ [f])" "set (xs @ [f]) \<subseteq> set frs"
    and ra: "map_of (ra_partials ra) key = None" "ra_buffered_bytes ra + length d \<le> MAX_BUFFERED_BYTES"
    and n: "length frs \<le> MAX_FRAGMENTS_PER_DATAGRAM"
    and f: "f = (off, mf, a)"
  shows "offer_existing key (unat off * 8) mf a (partial_of ra src d xs) (holding key src d ra xs)
      = (if set (xs @ [f]) = set frs then (Complete d, ra) else (Incomplete, holding key src d ra (xs @ [f])))"
proof -
  have "f \<in> set frs" using xs by auto
  note fb = fragmentation_bounds [OF frs this [unfolded f]]
  have few: "length (inserted xs) < MAX_FRAGMENTS_PER_DATAGRAM" using inserted_few [OF frs xs] n by simp
  have "sum_list (map (\<lambda>f. length (snd (piece f))) (xs @ [f])) \<le> length d"
    by (rule fragment_bytes_le [OF frs xs])
  then have room: "\<not> ra_buffered_bytes (holding key src d ra xs) + length a > MAX_BUFFERED_BYTES"
    using ra(2) f by (simp add: holding_def)
  have no_ov: "\<not> list_ex (overlaps (unat off * 8) (unat off * 8 + length a)) (inserted xs)"
    using inserted_no_overlap [OF frs xs] f by simp
  define p where "p = partial_of ra src d xs"
  define p1 where "p1 = (if \<not> mf then p\<lparr>pt_have_last := True, pt_total_length := unat off * 8 + length a\<rparr> else p)"
  have p1: "p1\<lparr>pt_fragments := fragment_insert (unat off * 8) a (pt_fragments p1),
                    pt_received_bytes := pt_received_bytes p1 + length a\<rparr> = partial_of ra src d (xs @ [f])"
    using fb f by (auto simp: p1_def p_def partial_of_def)
  have last: "\<not> (\<not> mf \<and> pt_have_last p \<and> pt_total_length p \<noteq> unat off * 8 + length a)"
    "\<not> (pt_have_last p1 \<and> unat off * 8 + length a > pt_total_length p1)"
    using fb by (auto simp: p_def p1_def partial_of_def)
  have fr: "pt_fragments p = inserted xs" by (simp add: p_def partial_of_def)
  have st: "(holding key src d ra xs)\<lparr>ra_partials := AList.update key p1 (ra_partials (holding key src d ra xs)),
      ra_partials := AList.update key (partial_of ra src d (xs @ [f])) (AList.update key p1 (ra_partials (holding key src d ra xs))),
      ra_buffered_bytes := ra_buffered_bytes (holding key src d ra xs) + length a\<rparr> = holding key src d ra (xs @ [f])"
    using f by (simp add: holding_def)
  have "offer_existing key (unat off * 8) mf a p (holding key src d ra xs)
      = (if \<not> is_complete (partial_of ra src d (xs @ [f])) then (Incomplete, holding key src d ra (xs @ [f]))
         else (Complete (assemble (partial_of ra src d (xs @ [f]))), drop_partial key (holding key src d ra (xs @ [f]))))"
    unfolding offer_existing_def Let_def p1_def [symmetric]
    using few room no_ov last p1 st by (simp add: fr)
  then show ?thesis
    unfolding p_def using complete_iff_all [OF frs xs] drop_holding [OF ra(1)] by simp
qed


fun offer_all :: "ipv4 \<Rightarrow> ipv4 \<Rightarrow> u16 \<Rightarrow> u8 \<Rightarrow> fragment list \<Rightarrow> reassembler \<Rightarrow> reasm_result list \<times> reassembler" where
  "offer_all src dst idn proto [] ra = ([], ra)"
| "offer_all src dst idn proto ((off, mf, a) # fs) ra =
     (let (r, ra1) = offer src dst idn proto off mf a ra;
          (rs, ra2) = offer_all src dst idn proto fs ra1 in (r # rs, ra2))"

definition has_room :: "reasm_key \<Rightarrow> nat \<Rightarrow> reassembler \<Rightarrow> bool" where
  "has_room key n ra \<longleftrightarrow> map_of (ra_partials ra) key = None
     \<and> length (ra_partials ra) < MAX_PENDING_DATAGRAMS \<and> ra_buffered_bytes ra + n \<le> MAX_BUFFERED_BYTES"

lemma offer_next:
  assumes frs: "fragmentation 0 frs d" "length d \<le> MAX_DATAGRAM_BYTES" "length frs \<le> MAX_FRAGMENTS_PER_DATAGRAM"
    and xs: "distinct (xs @ [f])" "set (xs @ [f]) \<subseteq> set frs" and f: "f = (off, mf, a)"
    and room: "has_room (Key src dst idn proto) (length d) ra"
  shows "offer src dst idn proto off mf a (if xs = [] then ra else holding (Key src dst idn proto) src d ra xs)
      = (if set (xs @ [f]) = set frs then (Complete d, ra)
         else (Incomplete, holding (Key src dst idn proto) src d ra (xs @ [f])))"
proof -
  let ?key = "Key src dst idn proto"
  have "f \<in> set frs" using xs by auto
  note fb = fragmentation_bounds [OF frs(1) this [unfolded f]]
  have key: "map_of (ra_partials ra) ?key = None" and buf: "ra_buffered_bytes ra + length d \<le> MAX_BUFFERED_BYTES"
    and pend: "length (ra_partials ra) < MAX_PENDING_DATAGRAMS" using room by (auto simp: has_room_def)
  note nxt = offer_existing_next [OF frs(1) xs key buf frs(3) f, of src]
  have sz: "\<not> (a = [] \<or> unat off * 8 + length a > MAX_DATAGRAM_BYTES)" using fb frs(2) by auto
  show ?thesis
  proof (cases "xs = []")
    case True
    have fresh: "partial_fresh ra src = partial_of ra src d []"
      "ra\<lparr>ra_partials := AList.update ?key (partial_of ra src d []) (ra_partials ra)\<rparr> = holding ?key src d ra []"
      by (simp_all add: partial_fresh_def partial_of_def holding_def)
    have adm: "\<not> (length (ra_partials ra) \<ge> MAX_PENDING_DATAGRAMS
        \<or> ra_buffered_bytes ra + length a > MAX_BUFFERED_BYTES)"
      using pend buf fb by auto
    show ?thesis
      using nxt True unfolding offer_def Let_def if_not_P [OF sz] by (simp add: key if_not_P [OF adm] fresh)
  next
    case False
    have "map_of (ra_partials (holding ?key src d ra xs)) ?key = Some (partial_of ra src d xs)"
      by (simp add: holding_def update_conv')
    with nxt False show ?thesis unfolding offer_def Let_def if_not_P [OF sz] by simp
  qed
qed

lemma offer_all_rest:
  assumes frs: "fragmentation 0 frs d" "length d \<le> MAX_DATAGRAM_BYTES" "length frs \<le> MAX_FRAGMENTS_PER_DATAGRAM"
    and room: "has_room (Key src dst idn proto) (length d) ra"
  shows "distinct (xs @ ys) \<Longrightarrow> set (xs @ ys) = set frs \<Longrightarrow> ys \<noteq> [] \<Longrightarrow>
     offer_all src dst idn proto ys (if xs = [] then ra else holding (Key src dst idn proto) src d ra xs)
     = (replicate (length ys - 1) Incomplete @ [Complete d], ra)"
proof (induction ys arbitrary: xs)
  case (Cons f ys)
  obtain off mf a where f: "f = (off, mf, a)" by (cases f)
  have sub: "distinct (xs @ [f])" "set (xs @ [f]) \<subseteq> set frs" using Cons.prems by auto
  note step = offer_next [OF frs sub f room]
  show ?case
  proof (cases "ys = []")
    case True
    then have "set (xs @ [f]) = set frs" using Cons.prems by simp
    with step True show ?thesis by (simp add: f)
  next
    case False
    then have "set (xs @ [f]) \<noteq> set frs" using Cons.prems(1,2) by (cases ys) auto
    then have one: "offer src dst idn proto off mf a (if xs = [] then ra else holding (Key src dst idn proto) src d ra xs)
        = (Incomplete, holding (Key src dst idn proto) src d ra (xs @ [f]))" using step by simp
    have "offer_all src dst idn proto ys (holding (Key src dst idn proto) src d ra (xs @ [f]))
        = (replicate (length ys - 1) Incomplete @ [Complete d], ra)"
      using Cons.IH [of "xs @ [f]"] Cons.prems False by simp
    then show ?thesis using False unfolding f offer_all.simps one by (cases ys) simp_all
  qed
qed simp

lemma reassembles_in_any_order:
  assumes frs: "fragmentation 0 frs d" "length d \<le> MAX_DATAGRAM_BYTES" "length frs \<le> MAX_FRAGMENTS_PER_DATAGRAM"
    and room: "has_room (Key src dst idn proto) (length d) ra" and perm: "mset fs = mset frs"
  shows "offer_all src dst idn proto fs ra = (replicate (length frs - 1) Incomplete @ [Complete d], ra)"
proof -
  have "frs \<noteq> []" using frs(1) by auto
  then have "fs \<noteq> []" "length fs = length frs" "distinct fs" "set fs = set frs"
    using perm fragmentation_inj(2) [OF frs(1)]
    by (auto dest: mset_eq_length mset_eq_setD mset_eq_imp_distinct_iff)
  with offer_all_rest [OF frs room, of "[]" fs] show ?thesis by simp
qed


section \<open>Properties of the reassembler\<close>

text \<open>C5. A datagram cut into fragments is delivered byte for byte once its last missing fragment
  arrives, in whatever order the fragments come, and the reassembler is then back in the state it
  was in before the first one.\<close>

theorem reassembly_any_order:
  assumes "fragmentation 0 frs d" "length d \<le> MAX_DATAGRAM_BYTES" "length frs \<le> MAX_FRAGMENTS_PER_DATAGRAM"
    and "has_room (Key src dst idn proto) (length d) ra" and "mset fs = mset frs"
  shows "offer_all src dst idn proto fs ra = (replicate (length frs - 1) Incomplete @ [Complete d], ra)"
  using assms by (rule reassembles_in_any_order)

theorem reassembly_any_order_witness:
  "offer_all (IPv4Address 10 0 0 1) (IPv4Address 10 0 0 2) 7 17
     [(2, False, [17]), (0, True, [1, 2, 3, 4, 5, 6, 7, 8]), (1, True, [9, 10, 11, 12, 13, 14, 15, 16])]
     (reassembler_new 30000)
   = ([Incomplete, Incomplete, Complete [1, 2, 3, 4, 5, 6, 7, 8, 9, 10, 11, 12, 13, 14, 15, 16, 17]],
      reassembler_new 30000)"
proof -
  let ?frs = "[(0, True, [1, 2, 3, 4, 5, 6, 7, 8]), (1, True, [9, 10, 11, 12, 13, 14, 15, 16]), (2, False, [17])] :: fragment list"
  have "offer_all (IPv4Address 10 0 0 1) (IPv4Address 10 0 0 2) 7 17
     [(2, False, [17]), (0, True, [1, 2, 3, 4, 5, 6, 7, 8]), (1, True, [9, 10, 11, 12, 13, 14, 15, 16])] (reassembler_new 30000)
     = (replicate (length ?frs - 1) Incomplete @ [Complete [1, 2, 3, 4, 5, 6, 7, 8, 9, 10, 11, 12, 13, 14, 15, 16, 17]],
        reassembler_new 30000)"
    by (rule reassembly_any_order)
       (simp_all add: MAX_DATAGRAM_BYTES_def MAX_FRAGMENTS_PER_DATAGRAM_def has_room_def reassembler_new_def
          MAX_PENDING_DATAGRAMS_def MAX_BUFFERED_BYTES_def)
  then show ?thesis by (simp add: numeral_2_eq_2)
qed

text \<open>C12. Whatever is sent to the reassembler, each byte of a datagram it delivers is a byte of a
  fragment that was offered for the same source, destination, identification and protocol, at the
  position that fragment claimed.\<close>

theorem reassembly_only_offered_bytes:
  assumes "fst (offer src dst idn proto off mf payload (reasm_run ops (reassembler_new t))) = Complete d"
  shows "bytes_from {(s, a). (Key src dst idn proto, s, a) \<in> offered (ops @ [Offer src dst idn proto off mf payload])} d"
  using assms by (rule reassembled_bytes_offered)

theorem reassembly_only_offered_bytes_witness:
  "bytes_from {(s, a). (Key (IPv4Address 10 0 0 1) (IPv4Address 10 0 0 2) 7 17, s, a)
     \<in> offered ([] @ [Offer (IPv4Address 10 0 0 1) (IPv4Address 10 0 0 2) 7 17 0 False [1, 2, 3]])} [1, 2, 3]"
  by (rule reassembly_only_offered_bytes [where t = 30000])
     (simp add: reasm_run_def reassembler_new_def offer_def offer_existing_def partial_fresh_def is_complete_def assemble_def Let_def
        MAX_DATAGRAM_BYTES_def MAX_FRAGMENTS_PER_DATAGRAM_def MAX_PENDING_DATAGRAMS_def MAX_BUFFERED_BYTES_def)

text \<open>C23. Under any sequence of offers and ageing steps the reassembler holds at most 64 partial
  datagrams of at most 128 fragments, never more than a mebibyte in total, its byte count is the
  sum of what it holds, and no two fragments of a partial datagram overlap.\<close>

theorem reassembly_bounded:
  "reasm_ok (reasm_run ops (reassembler_new t)) \<and>
   length (ra_partials (reasm_run ops (reassembler_new t))) \<le> 64 \<and>
   ra_buffered_bytes (reasm_run ops (reassembler_new t)) \<le> 1048576"
  using reasm_run_ok [OF reasm_ok_new, of ops t]
  by (simp add: reasm_ok_def MAX_PENDING_DATAGRAMS_def MAX_BUFFERED_BYTES_def)

end
