(* ===== verification/Isn_Generator.thy ===== *)
theory Isn_Generator
  imports Net_Addr
begin

text \<open>
  Initial sequence numbers (\<open>isn_generator.cpp\<close>): SipHash-2-4 over the serialised 4-tuple plus a
  clock term. The \<open>uint64_t\<close> registers are 64-bit words; the wall clock and the two key words,
  which the code draws from the system, are arguments.
\<close>

section \<open>SipHash-2-4\<close>

definition rotate_left :: "u64 \<Rightarrow> nat \<Rightarrow> u64" where
  "rotate_left value bits = push_bit bits value OR drop_bit (64 - bits) value"

type_synonym sip_state = "u64 \<times> u64 \<times> u64 \<times> u64"

fun sip_round :: "sip_state \<Rightarrow> sip_state" where
  "sip_round (v0, v1, v2, v3) =
     (let v0 = v0 + v1; v1 = rotate_left v1 13; v1 = v1 XOR v0; v0 = rotate_left v0 32;
          v2 = v2 + v3; v3 = rotate_left v3 16; v3 = v3 XOR v2;
          v0 = v0 + v3; v3 = rotate_left v3 21; v3 = v3 XOR v0;
          v2 = v2 + v1; v1 = rotate_left v1 17; v1 = v1 XOR v2; v2 = rotate_left v2 32
      in (v0, v1, v2, v3))"

fun sip_compress :: "u64 \<Rightarrow> sip_state \<Rightarrow> sip_state" where
  "sip_compress m (v0, v1, v2, v3) =
     (case sip_round (sip_round (v0, v1, v2, v3 XOR m)) of (v0, v1, v2, v3) \<Rightarrow> (v0 XOR m, v1, v2, v3))"

definition sip_block :: "bytes \<Rightarrow> nat \<Rightarrow> u64" where
  "sip_block data block =
     foldl (\<lambda>m byte. push_bit 8 m OR ucast (data ! (block * 8 + byte))) 0 (rev [0..<8])"

definition sip_last :: "bytes \<Rightarrow> u64" where
  "sip_last data =
     (let len = length data in
      foldl (\<lambda>last byte. last OR push_bit (8 * (byte mod 8)) (ucast (data ! byte)))
        (push_bit 56 (of_nat (len mod 256))) [len div 8 * 8..<len])"

definition siphash_2_4 :: "bytes \<Rightarrow> u64 \<Rightarrow> u64 \<Rightarrow> u64" where
  "siphash_2_4 data key_low key_high =
     (let v = (0x736f6d6570736575 XOR key_low, 0x646f72616e646f6d XOR key_high,
               0x6c7967656e657261 XOR key_low, 0x7465646279746573 XOR key_high);
          v = foldl (\<lambda>v block. sip_compress (sip_block data block) v) v [0..<length data div 8];
          (v0, v1, v2, v3) = sip_compress (sip_last data) v;
          (v0, v1, v2, v3) = sip_round (sip_round (sip_round (sip_round (v0, v1, v2 XOR 0xff, v3))))
      in v0 XOR v1 XOR v2 XOR v3)"

section \<open>The generator\<close>

record isn_generator =
  isn_key_low :: u64
  isn_key_high :: u64

definition isn_tuple :: "ipv4 \<Rightarrow> u16 \<Rightarrow> ipv4 \<Rightarrow> u16 \<Rightarrow> bytes" where
  "isn_tuple local_ip local_port remote_ip remote_port =
     (let l = ipv4_to_uint32 local_ip; r = ipv4_to_uint32 remote_ip in
      [ucast (drop_bit 24 l), ucast (drop_bit 16 l), ucast (drop_bit 8 l), ucast l,
       ucast (drop_bit 24 r), ucast (drop_bit 16 r), ucast (drop_bit 8 r), ucast r,
       ucast (drop_bit 8 local_port), ucast local_port, ucast (drop_bit 8 remote_port), ucast remote_port])"

definition isn_offset_for :: "isn_generator \<Rightarrow> ipv4 \<Rightarrow> u16 \<Rightarrow> ipv4 \<Rightarrow> u16 \<Rightarrow> u32" where
  "isn_offset_for g local_ip local_port remote_ip remote_port =
     ucast (siphash_2_4 (isn_tuple local_ip local_port remote_ip remote_port) (isn_key_low g) (isn_key_high g))"

text \<open>\<open>microseconds\<close> is the system clock reading since the epoch.\<close>

definition isn_generate :: "isn_generator \<Rightarrow> u64 \<Rightarrow> ipv4 \<Rightarrow> u16 \<Rightarrow> ipv4 \<Rightarrow> u16 \<Rightarrow> u32" where
  "isn_generate g microseconds local_ip local_port remote_ip remote_port =
     (let clock_term = ucast (microseconds div 4)
      in clock_term + isn_offset_for g local_ip local_port remote_ip remote_port)"

section \<open>Properties\<close>

lemma isn_tuple_inj:
  assumes "isn_tuple la lp ra rp = isn_tuple la' lp' ra' rp'"
  shows "la = la' \<and> lp = lp' \<and> ra = ra' \<and> rp = rp'"
proof -
  have "isn_tuple a p b q = int_to_bytes (ipv4_to_uint32 a) @ int_to_bytes (ipv4_to_uint32 b)
      @ int_to_bytes p @ int_to_bytes q" for a b p q
    by (simp add: isn_tuple_def Let_def)
  with assms have "int_to_bytes (ipv4_to_uint32 la) = int_to_bytes (ipv4_to_uint32 la')"
    "int_to_bytes (ipv4_to_uint32 ra) = int_to_bytes (ipv4_to_uint32 ra')"
    "int_to_bytes lp = int_to_bytes lp'" "int_to_bytes rp = int_to_bytes rp'"
    by simp_all
  then show ?thesis
    by (metis ipv4_to_uint32_inj slice_int_at_u32 slice_int_at_u16 append_Nil append_Nil2 list.size(3) sum.inject(2))
qed


text \<open>SipHash gives the reference vector of its paper: key \<open>00 .. 0f\<close>, message \<open>00 .. 0e\<close>.\<close>

lemma siphash_reference_vector:
  "siphash_2_4 [0, 1, 2, 3, 4, 5, 6, 7, 8, 9, 10, 11, 12, 13, 14] 0x0706050403020100 0x0f0e0d0c0b0a0908
     = 0xa129ca6149be45e5"
  by (simp add: siphash_2_4_def sip_block_def sip_last_def rotate_left_def upt_rec)

text \<open>
  Two connections on one 4-tuple: the sequence space advances by one every four microseconds, so
  their numbers are ordered as long as the clock readings are less than \<open>2 ^ 34\<close> microseconds apart.
\<close>

lemma isn_clock_difference:
  assumes "t1 \<le> t2" "unat t2 div 4 - unat t1 div 4 < 2 ^ 32"
  shows "unat (isn_generate g t2 la lp ra rp - isn_generate g t1 la lp ra rp) = unat t2 div 4 - unat t1 div 4"
proof -
  have le: "unat t1 div 4 \<le> unat t2 div 4" using assms(1) by (simp add: word_le_nat_alt div_le_mono)
  have u: "ucast (t div 4) = (of_nat (unat t div 4) :: u32)" for t :: u64
  proof -
    have "unat (t div 4) = unat t div 4" by (simp add: unat_div_distrib)
    then show ?thesis by (metis of_nat_unat)
  qed
  have "isn_generate g t2 la lp ra rp - isn_generate g t1 la lp ra rp = of_nat (unat t2 div 4 - unat t1 div 4)"
    using le by (simp add: isn_generate_def u of_nat_diff)
  then show ?thesis using assms(2) by (simp add: unsigned_of_nat take_bit_nat_eq_self)
qed


text \<open>C35. Successive connections on one 4-tuple get ordered sequence numbers: under one key the
  difference of two generated numbers is the number of 4-microsecond ticks between them, as long
  as that is less than \<open>2 ^ 32\<close> (about 4.7 hours).\<close>

theorem isn_rises_with_clock:
  assumes "t1 \<le> t2" "unat t2 div 4 - unat t1 div 4 < 2 ^ 32"
  shows "unat (isn_generate g t2 la lp ra rp - isn_generate g t1 la lp ra rp) = unat t2 div 4 - unat t1 div 4"
  using assms by (rule isn_clock_difference)

theorem isn_rises_with_clock_witness:
  "unat (isn_generate \<lparr>isn_key_low = 1, isn_key_high = 2\<rparr> 4000 (IPv4Address 10 0 0 1) 80 (IPv4Address 10 0 0 2) 4000
      - isn_generate \<lparr>isn_key_low = 1, isn_key_high = 2\<rparr> 1000 (IPv4Address 10 0 0 1) 80 (IPv4Address 10 0 0 2) 4000) = 750"
  by (subst isn_rises_with_clock) simp_all

end
