(* ===== verification/Keyed_Store.thy ===== *)
theory Keyed_Store
  imports Stack_Prelude "HOL-Library.Multiset"
begin

text \<open>
  The two associative containers of the sources. A \<open>std::unordered_map\<close> is an association list updated
  in place; a \<open>std::map\<close> is one kept in key order, which is the order its iterators visit. What clients rely
  on is the same for both and is stated once as the interface \<open>keyed_store\<close>.
\<close>

section \<open>Ordered maps\<close>

fun om_update :: "'k::linorder \<Rightarrow> 'v \<Rightarrow> ('k \<times> 'v) list \<Rightarrow> ('k \<times> 'v) list" where
  "om_update k v [] = [(k, v)]"
| "om_update k v ((k', v') # m) =
     (if k < k' then (k, v) # (k', v') # m
      else if k = k' then (k, v) # m
      else (k', v') # om_update k v m)"

definition ordered_keys :: "('k::linorder \<times> 'v) list \<Rightarrow> bool" where
  "ordered_keys m \<longleftrightarrow> sorted_wrt (<) (map fst m)"

lemma om_update_keys: "fst ` set (om_update k v m) = insert k (fst ` set m)"
  by (induction k v m rule: om_update.induct) (simp_all add: insert_commute)

lemma om_update_ordered: "ordered_keys m \<Longrightarrow> ordered_keys (om_update k v m)"
proof (induction m)
  case (Cons e m)
  obtain k' v' where e: "e = (k', v')" by (cases e)
  have "ordered_keys m" using Cons.prems by (simp add: ordered_keys_def)
  with Cons.IH have "ordered_keys (om_update k v m)" .
  moreover have "\<forall>x \<in> fst ` set (om_update k v m). k' < x" if "k' < k"
    using that Cons.prems unfolding om_update_keys by (auto simp: ordered_keys_def e)
  ultimately show ?case using Cons.prems by (auto simp: ordered_keys_def e)
qed (simp add: ordered_keys_def)

lemma delete_ordered: "ordered_keys m \<Longrightarrow> ordered_keys (AList.delete k m)"
proof (induction m)
  case (Cons e m)
  then show ?case by (cases e) (auto simp: ordered_keys_def dest: set_alist_delete)
qed (simp add: delete_simps)

lemma filter_ordered: "ordered_keys m \<Longrightarrow> ordered_keys (filter P m)"
  by (simp add: ordered_keys_def sorted_wrt_map sorted_wrt_filter)

lemma map_ordered: "(\<And>e. fst (f e) = fst e) \<Longrightarrow> ordered_keys (map f m) = ordered_keys m"
  by (simp add: ordered_keys_def o_def)

lemma om_update_last: "\<forall>e \<in> set m. fst e < k \<Longrightarrow> om_update k v m = m @ [(k, v)]"
  by (induction m) auto

lemma ordered_distinct: "ordered_keys m \<Longrightarrow> distinct (map fst m)"
  unfolding ordered_keys_def by (metis strict_sorted_iff)

lemma om_update_lookup: "ordered_keys m \<Longrightarrow> map_of (om_update k v m) = (map_of m)(k \<mapsto> v)"
proof (induction m)
  case (Cons e m)
  obtain k' v' where e: "e = (k', v')" by (cases e)
  have "map_of m k = None" if "k \<le> k'"
    using that Cons.prems unfolding e ordered_keys_def by (force simp: map_of_eq_None_iff)
  then show ?case using Cons by (auto simp: e ordered_keys_def)
qed simp

section \<open>The interface\<close>

locale keyed_store =
  fixes upd :: "'k \<Rightarrow> 'v \<Rightarrow> ('k \<times> 'v) list \<Rightarrow> ('k \<times> 'v) list"
    and wf :: "('k \<times> 'v) list \<Rightarrow> bool"
  assumes lookup_upd: "wf m \<Longrightarrow> map_of (upd k v m) = (map_of m)(k \<mapsto> v)"
    and wf_upd: "wf m \<Longrightarrow> wf (upd k v m)"
    and wf_delete: "wf m \<Longrightarrow> wf (AList.delete k m)"
    and wf_distinct: "wf m \<Longrightarrow> distinct (map fst m)"
    and wf_empty: "wf []"
begin

lemma in_store: "wf m \<Longrightarrow> (k, v) \<in> set m \<longleftrightarrow> map_of m k = Some v"
  using wf_distinct map_of_eq_Some_iff by fast

lemma set_upd: "wf m \<Longrightarrow> set (upd k v m) = insert (k, v) {e \<in> set m. fst e \<noteq> k}"
  using wf_upd [of m k v] by (auto simp: in_store lookup_upd split: if_splits)

lemma set_delete: "wf m \<Longrightarrow> set (AList.delete k m) = {e \<in> set m. fst e \<noteq> k}"
  using wf_delete [of m k] by (auto simp: in_store delete_conv' split: if_splits)

lemma mset_store: "wf m \<Longrightarrow> mset m = mset_set (set m)"
  using wf_distinct by (simp add: distinct_map mset_set_set)

lemma mset_upd:
  assumes "wf m"
  shows "mset (upd k v m) = add_mset (k, v) (mset (AList.delete k m))"
proof -
  have "set (upd k v m) = insert (k, v) (set (AList.delete k m))" "(k, v) \<notin> set (AList.delete k m)"
    using assms by (auto simp: set_upd set_delete)
  then show ?thesis
    unfolding mset_store [OF wf_upd [OF assms]] mset_store [OF wf_delete [OF assms]] by (simp only: mset_set.insert finite_set simp_thms)
qed

lemma mset_delete:
  assumes "wf m" "map_of m k = Some v"
  shows "mset m = add_mset (k, v) (mset (AList.delete k m))"
proof -
  have "set m = insert (k, v) (set (AList.delete k m))" "(k, v) \<notin> set (AList.delete k m)"
    using assms by (auto simp: set_delete in_store)
  then show ?thesis
    unfolding mset_store [OF assms(1)] mset_store [OF wf_delete [OF assms(1)]] by (simp only: mset_set.insert finite_set simp_thms)
qed

lemma mset_fresh:
  assumes "wf m" "map_of m k = None"
  shows "mset (upd k v m) = add_mset (k, v) (mset m)"
proof -
  have "AList.delete k m = m" using assms(2) by (simp add: delete_id map_of_eq_None_iff)
  then show ?thesis using mset_upd [OF assms(1)] by simp
qed

lemma size_upd:
  assumes "wf m"
  shows "length (upd k v m) = (if map_of m k = None then Suc (length m) else length m)"
proof (cases "map_of m k")
  case None
  then show ?thesis using mset_fresh [OF assms None, of v] by (metis size_add_mset size_mset)
next
  case (Some w)
  then show ?thesis
    using mset_delete [OF assms Some] mset_upd [OF assms, of k v] by (metis option.distinct(1) size_add_mset size_mset)
qed

end

interpretation unordered_store: keyed_store "AList.update" "\<lambda>m. distinct (map fst m)"
  by unfold_locales (simp_all add: update_conv' distinct_update distinct_delete)

interpretation ordered_store: keyed_store "om_update" "ordered_keys"
  by unfold_locales (simp_all add: om_update_lookup om_update_ordered delete_ordered ordered_distinct, simp add: ordered_keys_def)

end
