(* ===== verification/Dhcp_Codec.thy ===== *)
theory Dhcp_Codec
  imports Keyed_Store Net_Addr
begin

text \<open>
  The DHCP message codec (\<open>dhcp.cpp\<close>, \<open>dhcp.h\<close>): the BOOTP fixed header, the magic cookie and the option
  list, kept as a \<open>std::map\<close> from option code to value. A repeated option is appended to the value already
  there, as RFC 3396 asks.
\<close>

section \<open>Messages\<close>

definition DHCP_DISCOVER :: u8 where "DHCP_DISCOVER = 1"
definition DHCP_OFFER :: u8 where "DHCP_OFFER = 2"
definition DHCP_REQUEST :: u8 where "DHCP_REQUEST = 3"
definition DHCP_ACK :: u8 where "DHCP_ACK = 5"
definition DHCP_NAK :: u8 where "DHCP_NAK = 6"
definition DHCP_MESSAGE_TYPE_UNKNOWN :: u8 where "DHCP_MESSAGE_TYPE_UNKNOWN = 0"

definition DHCP_OPTION_PAD :: u8 where "DHCP_OPTION_PAD = 0"
definition DHCP_OPTION_SUBNET_MASK :: u8 where "DHCP_OPTION_SUBNET_MASK = 1"
definition DHCP_OPTION_ROUTER :: u8 where "DHCP_OPTION_ROUTER = 3"
definition DHCP_OPTION_DNS_SERVER :: u8 where "DHCP_OPTION_DNS_SERVER = 6"
definition DHCP_OPTION_INTERFACE_MTU :: u8 where "DHCP_OPTION_INTERFACE_MTU = 26"
definition DHCP_OPTION_REQUESTED_IP :: u8 where "DHCP_OPTION_REQUESTED_IP = 50"
definition DHCP_OPTION_LEASE_TIME :: u8 where "DHCP_OPTION_LEASE_TIME = 51"
definition DHCP_OPTION_MESSAGE_TYPE :: u8 where "DHCP_OPTION_MESSAGE_TYPE = 53"
definition DHCP_OPTION_SERVER_IDENTIFIER :: u8 where "DHCP_OPTION_SERVER_IDENTIFIER = 54"
definition DHCP_OPTION_PARAMETER_REQUEST_LIST :: u8 where "DHCP_OPTION_PARAMETER_REQUEST_LIST = 55"
definition DHCP_OPTION_RENEWAL_TIME :: u8 where "DHCP_OPTION_RENEWAL_TIME = 58"
definition DHCP_OPTION_REBINDING_TIME :: u8 where "DHCP_OPTION_REBINDING_TIME = 59"
definition DHCP_OPTION_CLIENT_IDENTIFIER :: u8 where "DHCP_OPTION_CLIENT_IDENTIFIER = 61"
definition DHCP_OPTION_END :: u8 where "DHCP_OPTION_END = 255"

lemmas dhcp_option_codes =
  DHCP_OPTION_PAD_def DHCP_OPTION_SUBNET_MASK_def DHCP_OPTION_ROUTER_def DHCP_OPTION_DNS_SERVER_def
  DHCP_OPTION_INTERFACE_MTU_def DHCP_OPTION_REQUESTED_IP_def DHCP_OPTION_LEASE_TIME_def DHCP_OPTION_MESSAGE_TYPE_def
  DHCP_OPTION_SERVER_IDENTIFIER_def DHCP_OPTION_PARAMETER_REQUEST_LIST_def DHCP_OPTION_RENEWAL_TIME_def
  DHCP_OPTION_REBINDING_TIME_def DHCP_OPTION_CLIENT_IDENTIFIER_def DHCP_OPTION_END_def

definition FIXED_HEADER_SIZE :: nat where "FIXED_HEADER_SIZE = 236"
definition MAGIC_COOKIE :: u32 where "MAGIC_COOKIE = 0x63825363"
definition OP_BOOTREQUEST :: u8 where "OP_BOOTREQUEST = 1"
definition OP_BOOTREPLY :: u8 where "OP_BOOTREPLY = 2"
definition HTYPE_ETHERNET :: u8 where "HTYPE_ETHERNET = 1"
definition HLEN_ETHERNET :: u8 where "HLEN_ETHERNET = 6"
definition SNAME_AND_FILE_SIZE :: nat where "SNAME_AND_FILE_SIZE = 192"
definition CHADDR_SIZE :: nat where "CHADDR_SIZE = 16"

record dhcp =
  dh_op :: u8
  dh_hardware_type :: u8
  dh_hardware_length :: u8
  dh_hops :: u8
  dh_transaction_id :: u32
  dh_seconds_elapsed :: u16
  dh_flags :: u16
  dh_client_ip :: ipv4
  dh_your_ip :: ipv4
  dh_server_ip :: ipv4
  dh_gateway_ip :: ipv4
  dh_client_mac :: mac
  dh_options :: "(u8 \<times> bytes) list"

definition dhcp_new :: dhcp where
  "dhcp_new =
     \<lparr>dh_op = OP_BOOTREQUEST, dh_hardware_type = HTYPE_ETHERNET, dh_hardware_length = HLEN_ETHERNET, dh_hops = 0,
      dh_transaction_id = 0, dh_seconds_elapsed = 0, dh_flags = 0, dh_client_ip = ipv4_zero, dh_your_ip = ipv4_zero,
      dh_server_ip = ipv4_zero, dh_gateway_ip = ipv4_zero, dh_client_mac = mac_zero, dh_options = []\<rparr>"

definition dhcp_set_broadcast_flag :: "bool \<Rightarrow> dhcp \<Rightarrow> dhcp" where
  "dhcp_set_broadcast_flag broadcast m =
     m\<lparr>dh_flags := (if broadcast then dh_flags m OR 0x8000 else dh_flags m AND 0x7fff)\<rparr>"

definition dhcp_set_option :: "u8 \<Rightarrow> bytes \<Rightarrow> dhcp \<Rightarrow> dhcp" where
  "dhcp_set_option code value m = m\<lparr>dh_options := om_update code value (dh_options m)\<rparr>"

definition dhcp_set_message_type :: "u8 \<Rightarrow> dhcp \<Rightarrow> dhcp" where
  "dhcp_set_message_type type m = m\<lparr>dh_options := om_update DHCP_OPTION_MESSAGE_TYPE (append_int [] type) (dh_options m)\<rparr>"

definition dhcp_get_option :: "u8 \<Rightarrow> dhcp \<Rightarrow> bytes" where
  "dhcp_get_option code m = (case map_of (dh_options m) code of None \<Rightarrow> [] | Some value \<Rightarrow> value)"

definition dhcp_get_message_type :: "dhcp \<Rightarrow> u8" where
  "dhcp_get_message_type m =
     (let value = dhcp_get_option DHCP_OPTION_MESSAGE_TYPE m
      in if length value \<noteq> 1 then DHCP_MESSAGE_TYPE_UNKNOWN else value ! 0)"

definition dhcp_get_option_address :: "u8 \<Rightarrow> dhcp \<Rightarrow> ipv4 result" where
  "dhcp_get_option_address code m =
     (let value = dhcp_get_option code m in if length value = 4 then ipv4_of_bytes value else Inr ipv4_zero)"

function address_list_loop :: "bytes \<Rightarrow> nat \<Rightarrow> ipv4 list result" where
  "address_list_loop value offset =
     (if offset + 4 \<le> length value then
        rbind (rbind (slice value offset 4) ipv4_of_bytes) (\<lambda>a.
        rbind (address_list_loop value (offset + 4)) (\<lambda>rest. Inr (a # rest)))
      else Inr [])"
  by pat_completeness auto
termination
  by (relation "measure (\<lambda>(value, offset). length value - offset)") auto

declare address_list_loop.simps [simp del]

definition dhcp_get_option_address_list :: "u8 \<Rightarrow> dhcp \<Rightarrow> ipv4 list result" where
  "dhcp_get_option_address_list code m = address_list_loop (dhcp_get_option code m) 0"

definition dhcp_get_option_uint32 :: "u8 \<Rightarrow> u32 \<Rightarrow> dhcp \<Rightarrow> u32 result" where
  "dhcp_get_option_uint32 code fallback m =
     (let value = dhcp_get_option code m in if length value = 4 then slice_int value 0 else Inr fallback)"

definition dhcp_get_option_uint16 :: "u8 \<Rightarrow> u16 \<Rightarrow> dhcp \<Rightarrow> u16 result" where
  "dhcp_get_option_uint16 code fallback m =
     (let value = dhcp_get_option code m in if length value = 2 then slice_int value 0 else Inr fallback)"

section \<open>Parsing\<close>

function parse_options_loop :: "bytes \<Rightarrow> nat \<Rightarrow> (u8 \<times> bytes) list \<Rightarrow> (u8 \<times> bytes) list result" where
  "parse_options_loop data position options =
     (if position < length data then
        rbind (byte_at data position) (\<lambda>code.
        if code = DHCP_OPTION_END then Inr options
        else if code = DHCP_OPTION_PAD then parse_options_loop data (position + 1) options
        else if position + 2 > length data then Inl BaseException
        else
          rbind (byte_at data (position + 1)) (\<lambda>len.
          if position + 2 + unat len > length data then Inl BaseException
          else
            rbind (slice data (position + 2) (unat len)) (\<lambda>chunk.
            let value = (case map_of options code of None \<Rightarrow> [] | Some value \<Rightarrow> value)
            in parse_options_loop data (position + 2 + unat len) (om_update code (value @ chunk) options))))
      else Inr options)"
  by pat_completeness auto
termination
  by (relation "measure (\<lambda>(data, position, options). length data - position)") auto

declare parse_options_loop.simps [simp del]

definition parse_dhcp_options :: "bytes \<Rightarrow> (u8 \<times> bytes) list result" where
  "parse_dhcp_options data =
     (if length data < FIXED_HEADER_SIZE + 4 then Inr []
      else rbind (slice_int data FIXED_HEADER_SIZE) (\<lambda>cookie.
        if cookie \<noteq> MAGIC_COOKIE then Inr [] else parse_options_loop data (FIXED_HEADER_SIZE + 4) []))"

definition dhcp_from_bytes :: "bytes \<Rightarrow> dhcp result" where
  "dhcp_from_bytes data =
     (if length data < FIXED_HEADER_SIZE then Inl BaseException
      else
        rbind (slice_int data 0) (\<lambda>op.
        rbind (slice_int data 1) (\<lambda>hardware_type.
        rbind (slice_int data 2) (\<lambda>hardware_length.
        rbind (slice_int data 3) (\<lambda>hops.
        rbind (slice_int data 4) (\<lambda>transaction_id.
        rbind (slice_int data 8) (\<lambda>seconds_elapsed.
        rbind (slice_int data 10) (\<lambda>flags.
        rbind (rbind (slice data 12 4) ipv4_of_bytes) (\<lambda>client_ip.
        rbind (rbind (slice data 16 4) ipv4_of_bytes) (\<lambda>your_ip.
        rbind (rbind (slice data 20 4) ipv4_of_bytes) (\<lambda>server_ip.
        rbind (rbind (slice data 24 4) ipv4_of_bytes) (\<lambda>gateway_ip.
        rbind (if hardware_length = HLEN_ETHERNET then rbind (slice data 28 6) mac_of_bytes else Inr mac_zero) (\<lambda>client_mac.
        rbind (parse_dhcp_options data) (\<lambda>options.
        Inr \<lparr>dh_op = op, dh_hardware_type = hardware_type, dh_hardware_length = hardware_length, dh_hops = hops,
             dh_transaction_id = transaction_id, dh_seconds_elapsed = seconds_elapsed, dh_flags = flags,
             dh_client_ip = client_ip, dh_your_ip = your_ip, dh_server_ip = server_ip, dh_gateway_ip = gateway_ip,
             dh_client_mac = client_mac, dh_options = options\<rparr>))))))))))))))"

section \<open>Writing\<close>

fun write_dhcp_options :: "(u8 \<times> bytes) list \<Rightarrow> bytes \<Rightarrow> bytes result" where
  "write_dhcp_options [] result = Inr result"
| "write_dhcp_options ((code, value) # rest) result =
     (if length value > 255 then Inl BaseException
      else write_dhcp_options rest (append_int (append_int result code) (of_nat (length value) :: u8) @ value))"

definition dhcp_to_bytes :: "dhcp \<Rightarrow> bytes result" where
  "dhcp_to_bytes m =
     (let result = append_int [] (dh_op m);
          result = append_int result (dh_hardware_type m);
          result = append_int result (dh_hardware_length m);
          result = append_int result (dh_hops m);
          result = append_int result (dh_transaction_id m);
          result = append_int result (dh_seconds_elapsed m);
          result = append_int result (dh_flags m);
          result = result @ ipv4_get_address (dh_client_ip m) @ ipv4_get_address (dh_your_ip m)
                     @ ipv4_get_address (dh_server_ip m) @ ipv4_get_address (dh_gateway_ip m);
          mac = mac_get_address (dh_client_mac m);
          result = result @ mac @ replicate (CHADDR_SIZE - length mac) 0 @ replicate SNAME_AND_FILE_SIZE 0;
          result = append_int result MAGIC_COOKIE
      in rbind (write_dhcp_options (dh_options m) result) (\<lambda>result. Inr (append_int result DHCP_OPTION_END)))"


section \<open>No input reaches undefined behaviour\<close>

lemma parse_options_loop_no_ub: "no_ub (parse_options_loop data position options)"
proof (induction "length data - position" arbitrary: position options rule: less_induct)
  case less
  show ?case
    by (subst parse_options_loop.simps)
      (auto intro!: no_ub_rbind no_ub_if no_ub_byte_at no_ub_slice_inside less simp: Let_def)
qed

lemma parse_dhcp_options_no_ub: "no_ub (parse_dhcp_options data)"
  unfolding parse_dhcp_options_def by (intro no_ub_rules parse_options_loop_no_ub) simp_all

lemma dhcp_from_bytes_no_ub: "no_ub (dhcp_from_bytes data)"
  unfolding dhcp_from_bytes_def FIXED_HEADER_SIZE_def
  by (intro no_ub_rbind no_ub_if no_ub_slice_int no_ub_of_bytes no_ub_slice_inside parse_dhcp_options_no_ub) simp_all

text \<open>The typed readers are total.\<close>

lemma ipv4_of_four: "length bs = 4 \<Longrightarrow> \<exists>a. ipv4_of_bytes bs = Inr a"
  by (auto simp: ipv4_of_bytes_def length_Suc_conv eval_nat_numeral)

lemma address_list_loop_total: "\<exists>as. address_list_loop val offset = Inr as \<and> length as = (length val - offset) div 4"
proof (induction val offset rule: address_list_loop.induct)
  case (1 val offset)
  show ?case
  proof (cases "offset + 4 \<le> length val")
    case True
    then obtain a where a: "rbind (slice val offset 4) ipv4_of_bytes = Inr a"
      using ipv4_of_four [of "take 4 (drop offset val)"] by (auto simp: slice_ok)
    obtain as where as: "address_list_loop val (offset + 4) = Inr as" "length as = (length val - (offset + 4)) div 4"
      using 1 [OF True a] by blast
    have "length val - offset = 4 + (length val - (offset + 4))" using True by simp
    then show ?thesis using True a as by (subst address_list_loop.simps) simp
  next
    case False
    then show ?thesis by (subst address_list_loop.simps) simp
  qed
qed

lemma readers_total:
  "\<exists>a. dhcp_get_option_address code m = Inr a" "\<exists>as. dhcp_get_option_address_list code m = Inr as"
  "\<exists>w. dhcp_get_option_uint32 code d m = Inr w" "\<exists>h. dhcp_get_option_uint16 code e m = Inr h"
  using ipv4_of_four address_list_loop_total
  by (simp_all add: dhcp_get_option_address_def dhcp_get_option_address_list_def dhcp_get_option_uint32_def
      dhcp_get_option_uint16_def Let_def slice_int_def) blast

section \<open>Round trip\<close>

definition option_bytes :: "u8 \<times> bytes \<Rightarrow> bytes" where
  "option_bytes e = fst e # (of_nat (length (snd e)) :: u8) # snd e"

lemma option_bytes_pair: "option_bytes (code, val) = code # of_nat (length val) # val"
  by (simp add: option_bytes_def)

definition option_ok :: "u8 \<times> bytes \<Rightarrow> bool" where
  "option_ok e \<longleftrightarrow> fst e \<noteq> DHCP_OPTION_PAD \<and> fst e \<noteq> DHCP_OPTION_END"

lemma write_options_eq:
  "write_dhcp_options es acc = (if \<exists>e \<in> set es. length (snd e) > 255 then Inl BaseException else Inr (acc @ concat (map option_bytes es)))"
proof (induction es arbitrary: acc)
  case (Cons e es)
  then show ?case by (cases e) (simp add: append_int_eq option_bytes_pair)
qed simp

lemma parse_written_options:
  "drop i data = concat (map option_bytes es) @ [DHCP_OPTION_END] \<Longrightarrow> ordered_keys (done @ es) \<Longrightarrow>
     list_all option_ok es \<Longrightarrow> \<forall>e \<in> set es. length (snd e) \<le> 255 \<Longrightarrow> parse_options_loop data i done = Inr (done @ es)"
proof (induction es arbitrary: i "done")
  case Nil
  then show ?case using drop_Cons_nth [of i data] by (subst parse_options_loop.simps) simp
next
  case (Cons e es)
  obtain code val where e: "e = (code, val)" by (cases e)
  have d: "drop i data = code # of_nat (length val) # val @ concat (map option_bytes es) @ [DHCP_OPTION_END]"
    using Cons.prems(1) by (simp add: e option_bytes_pair)
  note a = drop_Cons_nth [OF d]
  then have b: "Suc i < length data" "data ! Suc i = of_nat (length val)"
    "drop (Suc (Suc i)) data = val @ concat (map option_bytes es) @ [DHCP_OPTION_END]"
    using drop_Cons_nth [of "Suc i" data] by auto
  have len: "unat (of_nat (length val) :: u8) = length val" using Cons.prems(4) by (simp add: e unat_of_nat_u8)
  have fits: "Suc (Suc i) + length val \<le> length data" using arg_cong [OF b(3), of length] b(1) by simp
  have next_drop: "drop (Suc (Suc i) + length val) data = concat (map option_bytes es) @ [DHCP_OPTION_END]"
    by (rule drop_append_step [OF b(3)])
  have fresh: "map_of done code = None" and last: "om_update code val done = done @ [(code, val)]"
    using Cons.prems(2) unfolding e
    by (auto simp: ordered_keys_def sorted_wrt_append map_of_eq_None_iff om_update_last)
  have "parse_options_loop data (Suc (Suc i) + length val) (done @ [e]) = Inr ((done @ [e]) @ es)"
    by (rule Cons.IH [OF next_drop]) (use Cons.prems in \<open>simp_all add: e\<close>)
  moreover have "slice data (Suc (Suc i)) (length val) = Inr val" using fits b(3) by (simp add: slice_ok)
  ultimately show ?case
    using a b len fits fresh last Cons.prems(3)
    by (subst parse_options_loop.simps) (simp add: e option_ok_def)
qed


definition fixed_header :: "dhcp \<Rightarrow> bytes" where
  "fixed_header m = [dh_op m, dh_hardware_type m, dh_hardware_length m, dh_hops m] @ int_to_bytes (dh_transaction_id m)
     @ int_to_bytes (dh_seconds_elapsed m) @ int_to_bytes (dh_flags m) @ ipv4_get_address (dh_client_ip m)
     @ ipv4_get_address (dh_your_ip m) @ ipv4_get_address (dh_server_ip m) @ ipv4_get_address (dh_gateway_ip m)
     @ mac_get_address (dh_client_mac m) @ replicate 202 0"

lemma length_addresses [simp]: "length (ipv4_get_address a) = 4" "length (mac_get_address b) = 6"
  by (cases a, simp) (cases b, simp)

lemma fixed_header_length: "length (fixed_header m) = FIXED_HEADER_SIZE"
  by (simp add: fixed_header_def FIXED_HEADER_SIZE_def)

lemma dhcp_to_bytes_eq:
  assumes "\<forall>e \<in> set (dh_options m). length (snd e) \<le> 255"
  shows "dhcp_to_bytes m = Inr (fixed_header m @ int_to_bytes MAGIC_COOKIE
           @ concat (map option_bytes (dh_options m)) @ [DHCP_OPTION_END])"
proof -
  have "\<not> (\<exists>e \<in> set (dh_options m). length (snd e) > 255)" using assms by (auto simp: not_less)
  then show ?thesis
    unfolding dhcp_to_bytes_def Let_def write_options_eq fixed_header_def
    by (simp add: append_int_eq CHADDR_SIZE_def SNAME_AND_FILE_SIZE_def flip: replicate_add)
qed

lemma slice_append_left:
  "i + n \<le> length a \<Longrightarrow> slice (a @ b) i n = slice a i n"
  by (simp add: slice_ok)

lemma slice_int_append_left:
  "i + LENGTH('a) div 8 \<le> length a \<Longrightarrow> slice_int (a @ b) i = (slice_int a i :: 'a::len word result)"
  by (simp add: slice_int_def)

lemma fixed_header_fields:
  "slice_int (fixed_header m) 0 = Inr (dh_op m)" "slice_int (fixed_header m) 1 = Inr (dh_hardware_type m)"
  "slice_int (fixed_header m) 2 = Inr (dh_hardware_length m)" "slice_int (fixed_header m) 3 = Inr (dh_hops m)"
  "slice_int (fixed_header m) 4 = Inr (dh_transaction_id m)" "slice_int (fixed_header m) 8 = Inr (dh_seconds_elapsed m)"
  "slice_int (fixed_header m) 10 = Inr (dh_flags m)"
  "slice (fixed_header m) 12 4 = Inr (ipv4_get_address (dh_client_ip m))"
  "slice (fixed_header m) 16 4 = Inr (ipv4_get_address (dh_your_ip m))"
  "slice (fixed_header m) 20 4 = Inr (ipv4_get_address (dh_server_ip m))"
  "slice (fixed_header m) 24 4 = Inr (ipv4_get_address (dh_gateway_ip m))"
  "slice (fixed_header m) 28 6 = Inr (mac_get_address (dh_client_mac m))"
proof -
  show "slice_int (fixed_header m) 0 = Inr (dh_op m)" "slice_int (fixed_header m) 1 = Inr (dh_hardware_type m)"
    "slice_int (fixed_header m) 2 = Inr (dh_hardware_length m)" "slice_int (fixed_header m) 3 = Inr (dh_hops m)"
    by (simp_all add: fixed_header_def slice_int_u8)
  show "slice_int (fixed_header m) 4 = Inr (dh_transaction_id m)"
    by (rule slice_u32_drop) (simp add: fixed_header_def)
  show "slice_int (fixed_header m) 8 = Inr (dh_seconds_elapsed m)" "slice_int (fixed_header m) 10 = Inr (dh_flags m)"
    by (rule slice_u16_drop, simp add: fixed_header_def)+
qed (simp_all add: slice_ok fixed_header_length FIXED_HEADER_SIZE_def, simp_all add: fixed_header_def)

lemma written_parses:
  assumes "ordered_keys (dh_options m)" "list_all option_ok (dh_options m)" "list_all (\<lambda>e. length (snd e) \<le> 255) (dh_options m)"
    and "dh_hardware_length m = HLEN_ETHERNET"
  shows "\<exists>data. dhcp_to_bytes m = Inr data \<and> dhcp_from_bytes data = Inr m"
proof -
  let ?rest = "int_to_bytes MAGIC_COOKIE @ concat (map option_bytes (dh_options m)) @ [DHCP_OPTION_END]"
  let ?data = "fixed_header m @ ?rest"
  have len: "\<forall>e \<in> set (dh_options m). length (snd e) \<le> 255" using assms(3) by (simp add: list_all_iff)
  have d: "drop FIXED_HEADER_SIZE ?data = ?rest" by (simp add: fixed_header_length)
  have cookie: "slice_int ?data FIXED_HEADER_SIZE = Inr MAGIC_COOKIE" by (rule slice_u32_drop [OF d])
  have "drop (FIXED_HEADER_SIZE + 4) ?data = concat (map option_bytes (dh_options m)) @ [DHCP_OPTION_END]"
    by (rule drop_append_at [OF d]) simp
  from parse_written_options [OF this, of "[]"] have "parse_options_loop ?data (FIXED_HEADER_SIZE + 4) [] = Inr (dh_options m)"
    using assms(1,2) len by simp
  then have opts: "parse_dhcp_options ?data = Inr (dh_options m)"
    using cookie by (simp add: parse_dhcp_options_def fixed_header_length)
  note l = fixed_header_length [of m, unfolded FIXED_HEADER_SIZE_def]
  have "dhcp_from_bytes ?data = Inr m"
    using assms(4) unfolding dhcp_from_bytes_def opts
    by (simp add: slice_append_left slice_int_append_left fixed_header_fields fixed_header_fields(2) [simplified] l FIXED_HEADER_SIZE_def del: append.simps)
  then show ?thesis using dhcp_to_bytes_eq [OF len] by blast
qed


section \<open>Properties\<close>

text \<open>
  The DHCP parser is safe. On every datagram parsing returns a message or throws \<open>BaseException\<close>, and on
  whatever message it returned all typed option readers return a value; the address list has one address for
  every four bytes of the option.
\<close>

lemma dhcp_parser_safe:
  "case dhcp_from_bytes data of
     Inl e \<Rightarrow> e = BaseException
   | Inr m \<Rightarrow> (\<exists>a. dhcp_get_option_address code m = Inr a)
       \<and> (\<exists>as. dhcp_get_option_address_list code m = Inr as \<and> length as = length (dhcp_get_option code m) div 4)
       \<and> (\<exists>w. dhcp_get_option_uint32 code d m = Inr w) \<and> (\<exists>h. dhcp_get_option_uint16 code e16 m = Inr h)"
proof (cases "dhcp_from_bytes data")
  case (Inl e)
  then show ?thesis using dhcp_from_bytes_no_ub [of data] by (cases e) (simp_all add: no_ub_def)
next
  case (Inr m)
  then show ?thesis
    using readers_total(1) [of code m] readers_total(3) [of code d m] readers_total(4) [of code e16 m] address_list_loop_total [of "dhcp_get_option code m" 0]
    by (simp add: dhcp_get_option_address_list_def)
qed

text \<open>
  C34. Round trip. A message for an Ethernet client whose options have codes other than PAD and END and at most
  255 bytes each is written without an error, and parsing the bytes gives the message back.
\<close>

theorem dhcp_roundtrip:
  assumes "ordered_keys (dh_options m)" "list_all option_ok (dh_options m)" "list_all (\<lambda>e. length (snd e) \<le> 255) (dh_options m)"
    and "dh_hardware_length m = HLEN_ETHERNET"
  shows "\<exists>data. dhcp_to_bytes m = Inr data \<and> dhcp_from_bytes data = Inr m"
  by (rule written_parses [OF assms])

theorem dhcp_roundtrip_witness:
  "\<exists>data. dhcp_to_bytes (dhcp_set_option DHCP_OPTION_LEASE_TIME [0, 0, 0, 60] dhcp_new) = Inr data
     \<and> dhcp_from_bytes data = Inr (dhcp_set_option DHCP_OPTION_LEASE_TIME [0, 0, 0, 60] dhcp_new)"
  by (rule dhcp_roundtrip)
    (simp_all add: dhcp_set_option_def dhcp_new_def dhcp_option_codes option_ok_def ordered_keys_def)

end
