(* ===== verification/Dhcp_Client.thy ===== *)
theory Dhcp_Client
  imports Dhcp_Codec
begin

text \<open>
  The DHCP client (\<open>dhcp_client.cpp\<close>, \<open>dhcp_client.h\<close>). What the client hands to its owner (a datagram to
  send, a lease to apply, a lease to drop) is appended to \<open>dc_actions\<close> in the order of the calls. The C
  \<open>int\<close> timers are integers, decremented by the elapsed time read as a signed 32-bit value.
\<close>

section \<open>State\<close>

record dhcp_lease =
  le_ip :: ipv4
  le_subnet_mask :: ipv4
  le_gateway :: ipv4
  le_server :: ipv4
  le_dns_servers :: "ipv4 list"
  le_mtu :: u16
  le_lease_seconds :: u32

definition lease_new :: dhcp_lease where
  "lease_new = \<lparr>le_ip = ipv4_zero, le_subnet_mask = ipv4_zero, le_gateway = ipv4_zero, le_server = ipv4_zero,
     le_dns_servers = [], le_mtu = 1500, le_lease_seconds = 0\<rparr>"

fun leading_ones :: "nat \<Rightarrow> u8 \<Rightarrow> nat" where
  "leading_ones 0 octet = 0"
| "leading_ones (Suc b) octet = (if octet AND push_bit b 1 = 0 then 0 else Suc (leading_ones b octet))"

fun mask_prefix :: "bytes \<Rightarrow> u8 \<Rightarrow> u8" where
  "mask_prefix [] prefix = prefix"
| "mask_prefix (octet # rest) prefix =
     (let n = leading_ones 8 octet in if n < 8 then prefix + of_nat n else mask_prefix rest (prefix + 8))"

definition lease_prefix_length :: "dhcp_lease \<Rightarrow> u8" where
  "lease_prefix_length l = mask_prefix (ipv4_get_address (le_subnet_mask l)) 0"

datatype dhcp_state = INIT | SELECTING | REQUESTING | BOUND | RENEWING | REBINDING

datatype dhcp_action = Dhcp_send ipv4 bytes | Lease_acquired dhcp_lease | Lease_lost

record dhcp_client =
  dc_mac :: mac
  dc_state :: dhcp_state
  dc_transaction_id :: u32
  dc_lease :: dhcp_lease
  dc_offer :: dhcp_lease
  dc_retransmit_ms_remaining :: int
  dc_retransmit_interval_ms :: int
  dc_seconds_elapsed_ms :: u32
  dc_renewal_ms_remaining :: int
  dc_rebinding_ms_remaining :: int
  dc_expiry_ms_remaining :: int
  dc_actions :: "dhcp_action list"

definition RETRANSMIT_BASE_MS :: int where "RETRANSMIT_BASE_MS = 4000"
definition RETRANSMIT_MAX_MS :: int where "RETRANSMIT_MAX_MS = 64000"
definition T1_NUMERATOR :: u32 where "T1_NUMERATOR = 1"
definition T1_DENOMINATOR :: u32 where "T1_DENOMINATOR = 2"
definition T2_NUMERATOR :: u32 where "T2_NUMERATOR = 7"
definition T2_DENOMINATOR :: u32 where "T2_DENOMINATOR = 8"
definition DHCP_MS_PER_SECOND :: u32 where "DHCP_MS_PER_SECOND = 1000"
definition MAX_LEASE_SECONDS :: u32 where "MAX_LEASE_SECONDS = 0x7fffffff div DHCP_MS_PER_SECOND"
definition DHCP_CLIENT_PORT :: u16 where "DHCP_CLIENT_PORT = 68"
definition DHCP_SERVER_PORT :: u16 where "DHCP_SERVER_PORT = 67"

definition lease_seconds_to_ms :: "u32 \<Rightarrow> int" where
  "lease_seconds_to_ms seconds = sint (min seconds MAX_LEASE_SECONDS * DHCP_MS_PER_SECOND)"

definition dhcp_client_new :: "mac \<Rightarrow> u32 \<Rightarrow> dhcp_client" where
  "dhcp_client_new mac random_seed =
     \<lparr>dc_mac = mac, dc_state = INIT, dc_transaction_id = random_seed, dc_lease = lease_new, dc_offer = lease_new,
      dc_retransmit_ms_remaining = 0, dc_retransmit_interval_ms = RETRANSMIT_BASE_MS, dc_seconds_elapsed_ms = 0,
      dc_renewal_ms_remaining = 0, dc_rebinding_ms_remaining = 0, dc_expiry_ms_remaining = 0, dc_actions = []\<rparr>"

definition has_lease :: "dhcp_client \<Rightarrow> bool" where
  "has_lease c \<longleftrightarrow> dc_state c = BOUND \<or> dc_state c = RENEWING \<or> dc_state c = REBINDING"

definition dhcp_act :: "dhcp_action \<Rightarrow> dhcp_client \<Rightarrow> dhcp_client" where
  "dhcp_act a c = c\<lparr>dc_actions := dc_actions c @ [a]\<rparr>"

section \<open>Messages\<close>

definition fill_message :: "u8 \<Rightarrow> dhcp_client \<Rightarrow> dhcp" where
  "fill_message type c =
     (let m = dhcp_new\<lparr>dh_op := OP_BOOTREQUEST, dh_transaction_id := dc_transaction_id c, dh_client_mac := dc_mac c,
                dh_seconds_elapsed := ucast (min (dc_seconds_elapsed_ms c div DHCP_MS_PER_SECOND) 0xffff)\<rparr>;
          m = dhcp_set_message_type type m;
          m = dhcp_set_option DHCP_OPTION_CLIENT_IDENTIFIER (append_int [] HTYPE_ETHERNET @ mac_get_address (dc_mac c)) m
      in dhcp_set_option DHCP_OPTION_PARAMETER_REQUEST_LIST
           [DHCP_OPTION_SUBNET_MASK, DHCP_OPTION_ROUTER, DHCP_OPTION_DNS_SERVER, DHCP_OPTION_INTERFACE_MTU,
            DHCP_OPTION_LEASE_TIME, DHCP_OPTION_RENEWAL_TIME, DHCP_OPTION_REBINDING_TIME] m)"

text \<open>\<open>_send(dest, message.to_bytes())\<close>: an option too long to write would throw before anything is sent.\<close>

definition dhcp_transmit :: "ipv4 \<Rightarrow> dhcp \<Rightarrow> dhcp_client \<Rightarrow> dhcp_client outcome" where
  "dhcp_transmit dest m c =
     (case dhcp_to_bytes m of Inl e \<Rightarrow> (c, Some e) | Inr payload \<Rightarrow> (dhcp_act (Dhcp_send dest payload) c, None))"

definition send_discover :: "dhcp_client \<Rightarrow> dhcp_client outcome" where
  "send_discover c =
     dhcp_transmit limited_broadcast_address (dhcp_set_broadcast_flag True (fill_message DHCP_DISCOVER c)) c"

definition send_request :: "bool \<Rightarrow> dhcp_client \<Rightarrow> dhcp_client outcome" where
  "send_request unicast_to_server c =
     (let m = fill_message DHCP_REQUEST c in
      if unicast_to_server then dhcp_transmit (le_server (dc_lease c)) (m\<lparr>dh_client_ip := le_ip (dc_lease c)\<rparr>) c
      else
        let target = (if dc_state c = REQUESTING then dc_offer c else dc_lease c);
            m = dhcp_set_broadcast_flag True m;
            m = dhcp_set_option DHCP_OPTION_REQUESTED_IP (ipv4_get_address (le_ip target)) m;
            m = (if dc_state c = REQUESTING
                 then dhcp_set_option DHCP_OPTION_SERVER_IDENTIFIER (ipv4_get_address (le_server target)) m
                 else m\<lparr>dh_client_ip := le_ip (dc_lease c)\<rparr>)
        in dhcp_transmit limited_broadcast_address m c)"

definition dhcp_restart :: "dhcp_client \<Rightarrow> dhcp_client outcome" where
  "dhcp_restart c =
     send_discover (c\<lparr>dc_state := SELECTING, dc_transaction_id := dc_transaction_id c + 1, dc_seconds_elapsed_ms := 0,
       dc_retransmit_interval_ms := RETRANSMIT_BASE_MS, dc_retransmit_ms_remaining := RETRANSMIT_BASE_MS,
       dc_renewal_ms_remaining := 0, dc_rebinding_ms_remaining := 0, dc_expiry_ms_remaining := 0\<rparr>)"

definition dhcp_start :: "dhcp_client \<Rightarrow> dhcp_client outcome" where
  "dhcp_start c = dhcp_restart c"

section \<open>Replies\<close>

definition granted_lease :: "dhcp \<Rightarrow> dhcp_client \<Rightarrow> dhcp_lease result" where
  "granted_lease m c =
     rbind (dhcp_get_option_address DHCP_OPTION_SUBNET_MASK m) (\<lambda>mask.
     rbind (dhcp_get_option_address DHCP_OPTION_SERVER_IDENTIFIER m) (\<lambda>server.
     rbind (dhcp_get_option_address_list DHCP_OPTION_DNS_SERVER m) (\<lambda>dns_servers.
     rbind (dhcp_get_option_uint16 DHCP_OPTION_INTERFACE_MTU 1500 m) (\<lambda>mtu.
     rbind (dhcp_get_option_uint32 DHCP_OPTION_LEASE_TIME 0 m) (\<lambda>seconds.
     rbind (dhcp_get_option_address_list DHCP_OPTION_ROUTER m) (\<lambda>routers.
     Inr \<lparr>le_ip = dh_your_ip m, le_subnet_mask = mask,
          le_gateway = (if routers \<noteq> [] then hd routers else ipv4_zero),
          le_server = (if server = ipv4_zero \<and> has_lease c then le_server (dc_lease c) else server),
          le_dns_servers = dns_servers, le_mtu = mtu,
          le_lease_seconds = (if seconds = 0 then 3600 else seconds)\<rparr>))))))"

definition apply_ack :: "dhcp \<Rightarrow> dhcp_client \<Rightarrow> dhcp_client outcome" where
  "apply_ack m c =
     (case granted_lease m c of
        Inl e \<Rightarrow> (c, Some e)
      | Inr granted \<Rightarrow>
          (case rbind (dhcp_get_option_uint32 DHCP_OPTION_RENEWAL_TIME
                         (le_lease_seconds granted * T1_NUMERATOR div T1_DENOMINATOR) m) (\<lambda>t1.
                rbind (dhcp_get_option_uint32 DHCP_OPTION_REBINDING_TIME
                         (le_lease_seconds granted * T2_NUMERATOR div T2_DENOMINATOR) m) (\<lambda>t2. Inr (t1, t2))) of
             Inl e \<Rightarrow> (c, Some e)
           | Inr (t1_seconds, t2_seconds) \<Rightarrow>
               (dhcp_act (Lease_acquired granted)
                  (c\<lparr>dc_lease := granted, dc_state := BOUND, dc_renewal_ms_remaining := lease_seconds_to_ms t1_seconds,
                     dc_rebinding_ms_remaining := lease_seconds_to_ms t2_seconds,
                     dc_expiry_ms_remaining := lease_seconds_to_ms (le_lease_seconds granted),
                     dc_retransmit_ms_remaining := 0\<rparr>), None)))"

definition drop_lease :: "dhcp_client \<Rightarrow> dhcp_client outcome" where
  "drop_lease c =
     dhcp_restart ((if has_lease c then dhcp_act Lease_lost c else c)\<lparr>dc_lease := lease_new\<rparr>)"

definition take_offer :: "dhcp \<Rightarrow> dhcp_client \<Rightarrow> dhcp_client outcome" where
  "take_offer m c =
     (case dhcp_get_option_address DHCP_OPTION_SERVER_IDENTIFIER m of
        Inl e \<Rightarrow> (c, Some e)
      | Inr server \<Rightarrow>
          send_request False
            (c\<lparr>dc_offer := lease_new\<lparr>le_ip := dh_your_ip m, le_server := server\<rparr>, dc_state := REQUESTING,
               dc_retransmit_interval_ms := RETRANSMIT_BASE_MS, dc_retransmit_ms_remaining := RETRANSMIT_BASE_MS\<rparr>))"

definition dhcp_on_datagram :: "bytes \<Rightarrow> dhcp_client \<Rightarrow> dhcp_client outcome" where
  "dhcp_on_datagram payload c =
     (case dhcp_from_bytes payload of
        Inl BaseException \<Rightarrow> (c, None)
      | Inl e \<Rightarrow> (c, Some e)
      | Inr m \<Rightarrow>
          if dh_op m \<noteq> OP_BOOTREPLY then (c, None)
          else if dh_transaction_id m \<noteq> dc_transaction_id c then (c, None)
          else if dh_client_mac m \<noteq> dc_mac c then (c, None)
          else if dhcp_get_message_type m = DHCP_OFFER then
            if dc_state c \<noteq> SELECTING then (c, None) else take_offer m c
          else if dhcp_get_message_type m = DHCP_ACK then
            if dc_state c \<noteq> REQUESTING \<and> dc_state c \<noteq> RENEWING \<and> dc_state c \<noteq> REBINDING then (c, None)
            else apply_ack m c
          else if dhcp_get_message_type m = DHCP_NAK then drop_lease c
          else (c, None))"

section \<open>Time\<close>

definition schedule_retransmit :: "dhcp_client \<Rightarrow> dhcp_client" where
  "schedule_retransmit c =
     (let interval = min (dc_retransmit_interval_ms c * 2) RETRANSMIT_MAX_MS
      in c\<lparr>dc_retransmit_interval_ms := interval, dc_retransmit_ms_remaining := interval\<rparr>)"

definition acquiring_tick :: "u32 \<Rightarrow> dhcp_client \<Rightarrow> dhcp_client outcome" where
  "acquiring_tick elapsed_ms c =
     (let c = c\<lparr>dc_retransmit_ms_remaining := dc_retransmit_ms_remaining c - sint elapsed_ms\<rparr> in
      if dc_retransmit_ms_remaining c \<le> 0 then
        let c = schedule_retransmit c
        in if dc_state c = SELECTING then send_discover c else send_request False c
      else (c, None))"

definition resend_request :: "u32 \<Rightarrow> dhcp_client \<Rightarrow> dhcp_client outcome" where
  "resend_request elapsed_ms c =
     (if dc_state c = RENEWING \<or> dc_state c = REBINDING then
        let c = c\<lparr>dc_retransmit_ms_remaining := dc_retransmit_ms_remaining c - sint elapsed_ms\<rparr>
        in if dc_retransmit_ms_remaining c \<le> 0
           then send_request (dc_state c = RENEWING) (schedule_retransmit c) else (c, None)
      else (c, None))"

definition enter_request :: "dhcp_state \<Rightarrow> dhcp_client \<Rightarrow> dhcp_client outcome" where
  "enter_request s c =
     send_request (s = RENEWING)
       (c\<lparr>dc_state := s, dc_retransmit_interval_ms := RETRANSMIT_BASE_MS, dc_retransmit_ms_remaining := RETRANSMIT_BASE_MS\<rparr>)"

definition leased_tick :: "u32 \<Rightarrow> dhcp_client \<Rightarrow> dhcp_client outcome" where
  "leased_tick elapsed_ms c =
     (let c = c\<lparr>dc_renewal_ms_remaining := dc_renewal_ms_remaining c - sint elapsed_ms,
                dc_rebinding_ms_remaining := dc_rebinding_ms_remaining c - sint elapsed_ms,
                dc_expiry_ms_remaining := dc_expiry_ms_remaining c - sint elapsed_ms\<rparr> in
      if dc_expiry_ms_remaining c \<le> 0 then dhcp_restart ((dhcp_act Lease_lost c)\<lparr>dc_lease := lease_new\<rparr>)
      else if dc_rebinding_ms_remaining c \<le> 0 \<and> dc_state c \<noteq> REBINDING then enter_request REBINDING c
      else if \<not> dc_rebinding_ms_remaining c \<le> 0 \<and> dc_renewal_ms_remaining c \<le> 0 \<and> dc_state c = BOUND
      then enter_request RENEWING c
      else resend_request elapsed_ms c)"

definition dhcp_on_time_passed :: "u32 \<Rightarrow> dhcp_client \<Rightarrow> dhcp_client outcome" where
  "dhcp_on_time_passed elapsed_ms c =
     (if dc_state c = INIT then (c, None)
      else
        let c = c\<lparr>dc_seconds_elapsed_ms := dc_seconds_elapsed_ms c + elapsed_ms\<rparr>
        in if dc_state c = SELECTING \<or> dc_state c = REQUESTING then acquiring_tick elapsed_ms c
           else leased_tick elapsed_ms c)"


section \<open>Nothing the client sends is refused by the codec\<close>

definition short_options :: "dhcp \<Rightarrow> bool" where
  "short_options m \<longleftrightarrow> (\<forall>e \<in> set (dh_options m). length (snd e) \<le> 255)"

lemma set_om_update: "set (om_update k v m) \<subseteq> insert (k, v) (set m)"
  by (induction k v m rule: om_update.induct) auto

lemma short_set_option [simp]: "short_options m \<Longrightarrow> length val \<le> 255 \<Longrightarrow> short_options (dhcp_set_option code val m)"
  using set_om_update [of code val "dh_options m"] by (auto simp: short_options_def dhcp_set_option_def)

lemma short_frame [simp]:
  "short_options (dhcp_set_broadcast_flag b m) = short_options m" "short_options (m\<lparr>dh_client_ip := ip\<rparr>) = short_options m"
  by (simp_all add: short_options_def dhcp_set_broadcast_flag_def)

lemma short_fill_message [simp]: "short_options (fill_message t c)"
proof -
  have "short_options (dhcp_set_message_type t m)" if "dh_options m = []" for m
    using that by (simp add: short_options_def dhcp_set_message_type_def append_int_eq)
  then show ?thesis by (simp add: fill_message_def Let_def dhcp_new_def append_int_eq)
qed

lemma transmit_sends: "short_options m \<Longrightarrow> \<exists>payload. dhcp_transmit dest m c = (dhcp_act (Dhcp_send dest payload) c, None)"
  unfolding short_options_def by (auto simp: dhcp_transmit_def dhcp_to_bytes_eq)

lemma send_discover_sends:
  "\<exists>payload. send_discover c = (dhcp_act (Dhcp_send limited_broadcast_address payload) c, None)"
  unfolding send_discover_def by (rule transmit_sends) simp

definition sends :: "dhcp_client \<Rightarrow> dhcp_client outcome \<Rightarrow> bool" where
  "sends c m \<longleftrightarrow> (\<exists>dest payload. m = (dhcp_act (Dhcp_send dest payload) c, None))"

lemma sends_transmit: "short_options m \<Longrightarrow> sends c (dhcp_transmit dest m c)"
  unfolding sends_def using transmit_sends by blast

lemma send_request_sends: "sends c (send_request unicast c)"
  unfolding send_request_def Let_def by (simp add: sends_transmit)

section \<open>The owner's view of the lease\<close>

fun owner_sees :: "dhcp_lease option \<Rightarrow> dhcp_action \<Rightarrow> dhcp_lease option" where
  "owner_sees l (Lease_acquired lease) = Some lease"
| "owner_sees l Lease_lost = None"
| "owner_sees l (Dhcp_send dest payload) = l"

definition owner_lease :: "dhcp_action list \<Rightarrow> dhcp_lease option" where
  "owner_lease as = foldl owner_sees None as"

definition client_lease :: "dhcp_client \<Rightarrow> dhcp_lease option" where
  "client_lease c = (if has_lease c then Some (dc_lease c) else None)"

definition client_inv :: "dhcp_client \<Rightarrow> bool" where
  "client_inv c \<longleftrightarrow> owner_lease (dc_actions c) = client_lease c
     \<and> RETRANSMIT_BASE_MS \<le> dc_retransmit_interval_ms c \<and> dc_retransmit_interval_ms c \<le> RETRANSMIT_MAX_MS
     \<and> (has_lease c \<longrightarrow> 0 < dc_expiry_ms_remaining c \<and> dc_expiry_ms_remaining c \<le> 2147483000)"

definition client_ok :: "dhcp_client \<Rightarrow> dhcp_client outcome \<Rightarrow> bool" where
  "client_ok c m \<longleftrightarrow> snd m = None \<and> client_inv (fst m)
     \<and> (\<exists>as. dc_actions (fst m) = dc_actions c @ as) \<and> dc_mac (fst m) = dc_mac c"

lemma owner_lease_send [simp]: "owner_lease (as @ [Dhcp_send d p]) = owner_lease as"
  "owner_lease (as @ [Lease_lost]) = None" "owner_lease (as @ [Lease_acquired l]) = Some l"
  by (simp_all add: owner_lease_def)

lemma act_sends [simp]:
  "client_inv (dhcp_act (Dhcp_send d p) c) = client_inv c"
  by (simp add: client_inv_def dhcp_act_def client_lease_def has_lease_def)

lemma act_client [simp]:
  "dc_actions (dhcp_act a c) = dc_actions c @ [a]" "dc_state (dhcp_act a c) = dc_state c" "dc_lease (dhcp_act a c) = dc_lease c"
  "dc_mac (dhcp_act a c) = dc_mac c" "dc_retransmit_interval_ms (dhcp_act a c) = dc_retransmit_interval_ms c"
  "dc_expiry_ms_remaining (dhcp_act a c) = dc_expiry_ms_remaining c" "has_lease (dhcp_act a c) = has_lease c"
  by (simp_all add: dhcp_act_def has_lease_def)

lemma client_ok_done [simp]:
  "client_ok c (d, None) \<longleftrightarrow> client_inv d \<and> (\<exists>as. dc_actions d = dc_actions c @ as) \<and> dc_mac d = dc_mac c"
  by (simp add: client_ok_def)

lemma client_ok_same: "client_inv c \<Longrightarrow> client_ok c (c, None)"
  by simp

lemma discover_ok:
  assumes "client_inv c" "dc_actions c = dc_actions c0 @ as" "dc_mac c = dc_mac c0"
  shows "client_ok c0 (send_discover c)"
  using send_discover_sends [of c] assms by (auto simp: client_ok_def)

lemma request_ok:
  assumes "client_inv c" "dc_actions c = dc_actions c0 @ as" "dc_mac c = dc_mac c0"
  shows "client_ok c0 (send_request u c)"
  using send_request_sends [of c u] assms by (auto simp: client_ok_def sends_def)

lemma restart_ok:
  assumes "owner_lease (dc_actions c) = None" "dc_actions c = dc_actions c0 @ as" "dc_mac c = dc_mac c0"
  shows "client_ok c0 (dhcp_restart c)"
  unfolding dhcp_restart_def
  by (rule discover_ok [where as = as])
    (use assms in \<open>simp_all add: client_inv_def client_lease_def has_lease_def RETRANSMIT_BASE_MS_def RETRANSMIT_MAX_MS_def\<close>)

lemma lease_ms_bounds: "0 \<le> lease_seconds_to_ms s" "lease_seconds_to_ms s \<le> 2147483000" "s \<noteq> 0 \<Longrightarrow> 0 < lease_seconds_to_ms s"
proof -
  have m: "MAX_LEASE_SECONDS = 2147483" by (simp add: MAX_LEASE_SECONDS_def DHCP_MS_PER_SECOND_def)
  have u: "unat (min s 2147483) \<le> 2147483" by (simp add: min_def word_le_nat_alt)
  then have "unat (min s 2147483 * 1000) = unat (min s 2147483) * 1000"
    by (subst unat_word_ariths) simp
  then have e: "lease_seconds_to_ms s = int (unat (min s 2147483) * 1000)"
    unfolding lease_seconds_to_ms_def m DHCP_MS_PER_SECOND_def using u by (subst sint_small) simp_all
  show "0 \<le> lease_seconds_to_ms s" "lease_seconds_to_ms s \<le> 2147483000" using u unfolding e by linarith+
  have "0 < unat (min s 2147483)" if "s \<noteq> 0" using that by (simp add: min_def unat_gt_0)
  then show "s \<noteq> 0 \<Longrightarrow> 0 < lease_seconds_to_ms s" unfolding e by linarith
qed

lemma granted_total: "\<exists>l. granted_lease m c = Inr l \<and> le_lease_seconds l \<noteq> 0"
  using readers_total(1) [of DHCP_OPTION_SUBNET_MASK m] readers_total(1) [of DHCP_OPTION_SERVER_IDENTIFIER m]
    readers_total(2) [of DHCP_OPTION_DNS_SERVER m] readers_total(4) [of DHCP_OPTION_INTERFACE_MTU 1500 m]
    readers_total(3) [of DHCP_OPTION_LEASE_TIME 0 m] readers_total(2) [of DHCP_OPTION_ROUTER m]
  by (auto simp: granted_lease_def)

lemma apply_ack_result:
  "\<exists>l t1 t2. granted_lease m c = Inr l \<and> le_lease_seconds l \<noteq> 0
     \<and> dhcp_get_option_uint32 DHCP_OPTION_RENEWAL_TIME (le_lease_seconds l * T1_NUMERATOR div T1_DENOMINATOR) m = Inr t1
     \<and> dhcp_get_option_uint32 DHCP_OPTION_REBINDING_TIME (le_lease_seconds l * T2_NUMERATOR div T2_DENOMINATOR) m = Inr t2
     \<and> apply_ack m c = (dhcp_act (Lease_acquired l)
                  (c\<lparr>dc_lease := l, dc_state := BOUND, dc_renewal_ms_remaining := lease_seconds_to_ms t1,
                     dc_rebinding_ms_remaining := lease_seconds_to_ms t2,
                     dc_expiry_ms_remaining := lease_seconds_to_ms (le_lease_seconds l),
                     dc_retransmit_ms_remaining := 0\<rparr>), None)"
proof -
  obtain l where l: "granted_lease m c = Inr l" "le_lease_seconds l \<noteq> 0" using granted_total by blast
  obtain t1 t2 where
    "dhcp_get_option_uint32 DHCP_OPTION_RENEWAL_TIME (le_lease_seconds l * T1_NUMERATOR div T1_DENOMINATOR) m = Inr t1"
    "dhcp_get_option_uint32 DHCP_OPTION_REBINDING_TIME (le_lease_seconds l * T2_NUMERATOR div T2_DENOMINATOR) m = Inr t2"
    using readers_total(3) by blast
  then show ?thesis using l by (simp add: apply_ack_def)
qed

lemma apply_ack_ok: "client_inv c \<Longrightarrow> client_ok c (apply_ack m c)"
  using apply_ack_result [of m c] lease_ms_bounds
  by (auto simp: client_ok_def client_inv_def client_lease_def has_lease_def)

lemma drop_lease_ok: "client_inv c \<Longrightarrow> client_ok c (drop_lease c)"
  unfolding drop_lease_def
  by (rule restart_ok [where as = "if has_lease c then [Lease_lost] else []"])
    (auto simp: client_inv_def client_lease_def)

lemma inv_requesting:
  "client_inv c \<Longrightarrow> \<not> has_lease c \<Longrightarrow>
     client_inv (c\<lparr>dc_offer := x, dc_state := REQUESTING, dc_retransmit_interval_ms := RETRANSMIT_BASE_MS, dc_retransmit_ms_remaining := y\<rparr>)"
  by (simp add: client_inv_def client_lease_def has_lease_def RETRANSMIT_BASE_MS_def RETRANSMIT_MAX_MS_def)

lemma take_offer_ok: "client_inv c \<Longrightarrow> dc_state c = SELECTING \<Longrightarrow> client_ok c (take_offer m c)"
  using readers_total(1) [of DHCP_OPTION_SERVER_IDENTIFIER m]
  by (auto simp: take_offer_def has_lease_def intro!: request_ok [where as = "[]"] inv_requesting)

lemma datagram_ok: "client_inv c \<Longrightarrow> client_ok c (dhcp_on_datagram payload c)"
  using dhcp_from_bytes_no_ub [of payload]
  by (auto simp: dhcp_on_datagram_def no_ub_def client_ok_same intro: take_offer_ok apply_ack_ok drop_lease_ok
      split: sum.split cpp_error.split)

lemma schedule_inv: "client_inv c \<Longrightarrow> client_inv (schedule_retransmit c)"
  by (auto simp: client_inv_def client_lease_def has_lease_def schedule_retransmit_def Let_def RETRANSMIT_BASE_MS_def
      RETRANSMIT_MAX_MS_def)

lemma schedule_fields [simp]:
  "dc_actions (schedule_retransmit c) = dc_actions c" "dc_mac (schedule_retransmit c) = dc_mac c"
  "dc_state (schedule_retransmit c) = dc_state c"
  by (simp_all add: schedule_retransmit_def Let_def)

lemma client_inv_frame [simp]:
  "client_inv (c\<lparr>dc_retransmit_ms_remaining := v\<rparr>) = client_inv c" "client_inv (c\<lparr>dc_seconds_elapsed_ms := w\<rparr>) = client_inv c"
  by (simp_all add: client_inv_def client_lease_def has_lease_def)

lemma acquiring_ok: "client_inv c \<Longrightarrow> client_ok c (acquiring_tick ms c)"
  unfolding acquiring_tick_def Let_def
  by (auto intro!: schedule_inv discover_ok [where as = "[]"] request_ok [where as = "[]"])

lemma resend_ok:
  assumes "client_inv c" "dc_actions c = dc_actions c0" "dc_mac c = dc_mac c0"
  shows "client_ok c0 (resend_request ms c)"
  unfolding resend_request_def Let_def using assms by (auto intro!: schedule_inv request_ok [where as = "[]"])

lemma enter_request_ok:
  assumes "client_inv c" "has_lease c" "s = RENEWING \<or> s = REBINDING" "dc_actions c = dc_actions c0" "dc_mac c = dc_mac c0"
  shows "client_ok c0 (enter_request s c)"
  unfolding enter_request_def
  by (rule request_ok [where as = "[]"])
    (use assms in \<open>auto simp: client_inv_def client_lease_def has_lease_def RETRANSMIT_BASE_MS_def RETRANSMIT_MAX_MS_def\<close>)

lemma leased_ok:
  assumes inv: "client_inv c" and l: "has_lease c" and ms: "0 \<le> sint ms"
  shows "client_ok c (leased_tick ms c)"
proof -
  define d where "d = c\<lparr>dc_renewal_ms_remaining := dc_renewal_ms_remaining c - sint ms,
                dc_rebinding_ms_remaining := dc_rebinding_ms_remaining c - sint ms,
                dc_expiry_ms_remaining := dc_expiry_ms_remaining c - sint ms\<rparr>"
  have f: "dc_actions d = dc_actions c" "dc_mac d = dc_mac c" "has_lease d"
    using l by (simp_all add: d_def has_lease_def)
  have "client_ok c (dhcp_restart ((dhcp_act Lease_lost d)\<lparr>dc_lease := lease_new\<rparr>))"
    by (rule restart_ok [where as = "[Lease_lost]"]) (simp_all add: f)
  moreover have d: "client_inv d" if "\<not> dc_expiry_ms_remaining d \<le> 0"
    using inv l ms that by (auto simp: client_inv_def client_lease_def has_lease_def d_def)
  ultimately show ?thesis
    unfolding leased_tick_def Let_def d_def [symmetric] using f by (auto intro!: enter_request_ok resend_ok)
qed

section \<open>Runs\<close>

datatype dhcp_event = Dhcp_datagram bytes | Dhcp_tick u32

fun dhcp_step :: "dhcp_event \<Rightarrow> dhcp_client \<Rightarrow> dhcp_client outcome" where
  "dhcp_step (Dhcp_datagram payload) c = dhcp_on_datagram payload c"
| "dhcp_step (Dhcp_tick ms) c = dhcp_on_time_passed ms c"

fun dhcp_run :: "dhcp_event list \<Rightarrow> dhcp_client \<Rightarrow> dhcp_client outcome" where
  "dhcp_run [] c = (c, None)"
| "dhcp_run (e # es) c = and_then (dhcp_step e c) (dhcp_run es)"

fun dhcp_event_ok :: "dhcp_event \<Rightarrow> bool" where
  "dhcp_event_ok (Dhcp_tick ms) = (unat ms < 2 ^ 31)"
| "dhcp_event_ok (Dhcp_datagram payload) = True"

lemma time_ok:
  assumes "client_inv c" "0 \<le> sint ms"
  shows "client_ok c (dhcp_on_time_passed ms c)"
proof -
  let ?c = "c\<lparr>dc_seconds_elapsed_ms := dc_seconds_elapsed_ms c + ms\<rparr>"
  have "client_ok c m" if "client_ok ?c m" for m using that by (simp add: client_ok_def)
  moreover have "has_lease ?c" if "dc_state c \<notin> {INIT, SELECTING, REQUESTING}"
    using that by (cases "dc_state c") (auto simp: has_lease_def)
  ultimately show ?thesis
    using assms acquiring_ok [of ?c ms] leased_ok [of ?c ms] by (auto simp: dhcp_on_time_passed_def Let_def)
qed

lemma dhcp_step_ok: "client_inv c \<Longrightarrow> dhcp_event_ok e \<Longrightarrow> client_ok c (dhcp_step e c)"
  by (cases e) (auto intro: datagram_ok time_ok simp: sint_small)

lemma client_ok_trans: "client_ok a (b, None) \<Longrightarrow> client_ok b m \<Longrightarrow> client_ok a m"
  by (auto simp: client_ok_def)

lemma dhcp_run_ok: "client_inv c \<Longrightarrow> list_all dhcp_event_ok es \<Longrightarrow> client_ok c (dhcp_run es c)"
proof (induction es arbitrary: c)
  case (Cons e es)
  then obtain d where d: "dhcp_step e c = (d, None)" "client_ok c (d, None)"
    using dhcp_step_ok [of c e] by (cases "dhcp_step e c") (auto simp: client_ok_def)
  then have "client_ok d (dhcp_run es d)" using Cons by simp
  from client_ok_trans [OF d(2) this] show ?case using d(1) by simp
qed simp

lemma start_ok: "client_ok (dhcp_client_new mac seed) (dhcp_start (dhcp_client_new mac seed))"
  unfolding dhcp_start_def by (rule restart_ok [where as = "[]"]) (simp_all add: dhcp_client_new_def owner_lease_def)


section \<open>How long a lease lasts\<close>

lemma sends_fields:
  assumes "sends c m"
  shows "snd m = None" "has_lease (fst m) = has_lease c" "dc_lease (fst m) = dc_lease c"
    "dc_expiry_ms_remaining (fst m) = dc_expiry_ms_remaining c"
  using assms by (auto simp: sends_def)

lemma discover_sends: "sends c (send_discover c)"
  unfolding sends_def using send_discover_sends by blast

lemma restart_unleased: "\<not> has_lease (fst (dhcp_restart c))"
  by (simp add: dhcp_restart_def sends_fields [OF discover_sends]) (simp add: has_lease_def)

lemma schedule_lease [simp]:
  "has_lease (schedule_retransmit c) = has_lease c" "dc_lease (schedule_retransmit c) = dc_lease c"
  "dc_expiry_ms_remaining (schedule_retransmit c) = dc_expiry_ms_remaining c"
  by (simp_all add: schedule_retransmit_def Let_def has_lease_def)

lemma lease_frame [simp]:
  "has_lease (c\<lparr>dc_retransmit_ms_remaining := v\<rparr>) = has_lease c" "has_lease (c\<lparr>dc_seconds_elapsed_ms := w\<rparr>) = has_lease c"
  "has_lease (c\<lparr>dc_renewal_ms_remaining := t1, dc_rebinding_ms_remaining := t2, dc_expiry_ms_remaining := t3\<rparr>) = has_lease c"
  by (simp_all add: has_lease_def)

lemma resend_keeps:
  "has_lease (fst (resend_request ms c)) = has_lease c" "dc_lease (fst (resend_request ms c)) = dc_lease c"
  "dc_expiry_ms_remaining (fst (resend_request ms c)) = dc_expiry_ms_remaining c"
  by (simp_all add: resend_request_def Let_def sends_fields [OF send_request_sends])

lemma enter_request_keeps:
  "s = RENEWING \<or> s = REBINDING \<Longrightarrow> has_lease (fst (enter_request s c))" "dc_lease (fst (enter_request s c)) = dc_lease c"
  "dc_expiry_ms_remaining (fst (enter_request s c)) = dc_expiry_ms_remaining c"
  by (simp_all add: enter_request_def sends_fields [OF send_request_sends]) (auto simp: has_lease_def)

lemma leased_tick_keeps:
  assumes "has_lease c" "sint ms < dc_expiry_ms_remaining c"
  shows "has_lease (fst (leased_tick ms c))" "dc_lease (fst (leased_tick ms c)) = dc_lease c"
    "dc_expiry_ms_remaining (fst (leased_tick ms c)) = dc_expiry_ms_remaining c - sint ms"
  using assms by (auto simp: leased_tick_def Let_def resend_keeps enter_request_keeps)

lemma acquiring_unleased: "has_lease (fst (acquiring_tick ms c)) = has_lease c"
  by (simp add: acquiring_tick_def Let_def sends_fields [OF send_request_sends] sends_fields [OF discover_sends])

lemma leased_state: "has_lease c \<longleftrightarrow> dc_state c \<noteq> INIT \<and> dc_state c \<noteq> SELECTING \<and> dc_state c \<noteq> REQUESTING"
  by (cases "dc_state c") (auto simp: has_lease_def)

lemma tick_keeps:
  assumes "has_lease c" "sint ms < dc_expiry_ms_remaining c"
  shows "has_lease (fst (dhcp_on_time_passed ms c))" "dc_lease (fst (dhcp_on_time_passed ms c)) = dc_lease c"
    "dc_expiry_ms_remaining (fst (dhcp_on_time_passed ms c)) = dc_expiry_ms_remaining c - sint ms"
  using assms leased_tick_keeps [of "c\<lparr>dc_seconds_elapsed_ms := dc_seconds_elapsed_ms c + ms\<rparr>" ms]
  by (simp_all add: dhcp_on_time_passed_def Let_def leased_state)

lemma tick_expires:
  assumes "has_lease c" "dc_expiry_ms_remaining c \<le> sint ms"
  shows "\<not> has_lease (fst (dhcp_on_time_passed ms c))"
  using assms(2) assms(1) [unfolded leased_state]
  by (simp add: dhcp_on_time_passed_def Let_def leased_tick_def restart_unleased)

lemma tick_unleased: "\<not> has_lease c \<Longrightarrow> \<not> has_lease (fst (dhcp_on_time_passed ms c))"
  using leased_state [of c] by (auto simp: dhcp_on_time_passed_def Let_def acquiring_unleased)

lemma tick_returns:
  assumes "client_inv c" "unat ms < 2 ^ 31"
  obtains d where "dhcp_on_time_passed ms c = (d, None)" "client_inv d"
  using time_ok [of c ms] assms by (cases "dhcp_on_time_passed ms c") (auto simp: client_ok_def sint_small)

lemma silent_run_unleased:
  "client_inv c \<Longrightarrow> \<not> has_lease c \<Longrightarrow> list_all (\<lambda>ms. unat ms < 2 ^ 31) mss \<Longrightarrow>
     \<not> has_lease (fst (dhcp_run (map Dhcp_tick mss) c))"
proof (induction mss arbitrary: c)
  case (Cons ms mss)
  obtain d where d: "dhcp_on_time_passed ms c = (d, None)" "client_inv d" using Cons.prems tick_returns [of c ms] by auto
  then have "\<not> has_lease d" using tick_unleased [of c ms] Cons.prems by simp
  then show ?case using Cons d by simp
qed simp

lemma silent_run:
  "client_inv c \<Longrightarrow> has_lease c \<Longrightarrow> list_all (\<lambda>ms. unat ms < 2 ^ 31) mss \<Longrightarrow>
     (case dhcp_run (map Dhcp_tick mss) c of (d, e) \<Rightarrow>
        has_lease d = (int (\<Sum>ms \<leftarrow> mss. unat ms) < dc_expiry_ms_remaining c) \<and> (has_lease d \<longrightarrow> dc_lease d = dc_lease c))"
proof (induction mss arbitrary: c)
  case Nil
  then show ?case by (simp add: client_inv_def)
next
  case (Cons ms mss)
  obtain d where d: "dhcp_on_time_passed ms c = (d, None)" "client_inv d" using Cons.prems tick_returns [of c ms] by auto
  have s: "sint ms = int (unat ms)" using Cons.prems by (simp add: sint_small)
  show ?case
  proof (cases "sint ms < dc_expiry_ms_remaining c")
    case True
    then show ?thesis
      using Cons.IH [of d] Cons.prems d s tick_keeps [OF Cons.prems(2) True] by (auto split: prod.splits)
  next
    case False
    then have "\<not> has_lease d" using tick_expires [of c ms] Cons.prems d by simp
    moreover have "\<not> int (\<Sum>ms \<leftarrow> ms # mss. unat ms) < dc_expiry_ms_remaining c" using False s by simp
    ultimately show ?thesis using silent_run_unleased [of d mss] d Cons.prems by (auto split: prod.splits)
  qed
qed


section \<open>Where a lease comes from\<close>

definition no_lease_announced :: "dhcp_client \<Rightarrow> dhcp_client outcome \<Rightarrow> bool" where
  "no_lease_announced c m \<longleftrightarrow> (\<exists>as. dc_actions (fst m) = dc_actions c @ as \<and> (\<forall>l. Lease_acquired l \<notin> set as))"

lemma sends_announces_nothing:
  assumes "sends d m" "dc_actions d = dc_actions c @ as" "\<forall>l. Lease_acquired l \<notin> set as"
  shows "no_lease_announced c m"
  using assms by (auto simp: sends_def no_lease_announced_def)

lemma restart_announces_nothing:
  "dc_actions d = dc_actions c @ as \<Longrightarrow> \<forall>l. Lease_acquired l \<notin> set as \<Longrightarrow> no_lease_announced c (dhcp_restart d)"
  unfolding dhcp_restart_def by (rule sends_announces_nothing [OF discover_sends]) simp_all

lemma unchanged_announces_nothing: "dc_actions d = dc_actions c \<Longrightarrow> no_lease_announced c (d, e)"
  by (simp add: no_lease_announced_def)

lemmas announces_nothing =
  unchanged_announces_nothing sends_announces_nothing [OF discover_sends, where as = "[]"]
  sends_announces_nothing [OF send_request_sends, where as = "[]"]

lemma leased_tick_announces_nothing: "no_lease_announced c (leased_tick ms c)"
  unfolding leased_tick_def enter_request_def resend_request_def Let_def
  by (auto intro!: announces_nothing restart_announces_nothing [where as = "[Lease_lost]"])

lemma tick_announces_nothing: "no_lease_announced c (dhcp_on_time_passed ms c)"
  using leased_tick_announces_nothing [of "c\<lparr>dc_seconds_elapsed_ms := dc_seconds_elapsed_ms c + ms\<rparr>" ms]
  by (auto simp: dhcp_on_time_passed_def acquiring_tick_def Let_def no_lease_announced_def [of "c\<lparr>dc_seconds_elapsed_ms := v\<rparr>" for v]
      simp flip: no_lease_announced_def intro!: announces_nothing)

lemma drop_announces_nothing: "no_lease_announced c (drop_lease c)"
  unfolding drop_lease_def
  by (rule restart_announces_nothing [where as = "if has_lease c then [Lease_lost] else []"]) auto

lemma offer_announces_nothing: "no_lease_announced c (take_offer m c)"
  unfolding take_offer_def by (auto intro!: announces_nothing split: sum.split)

lemma apply_ack_announces:
  "dc_actions (fst (apply_ack m c)) = dc_actions c @ as \<Longrightarrow> Lease_acquired l \<in> set as \<Longrightarrow> granted_lease m c = Inr l"
  using apply_ack_result [of m c] by auto

lemma announced: "no_lease_announced c m \<Longrightarrow> dc_actions (fst m) = dc_actions c @ as \<Longrightarrow> Lease_acquired l \<notin> set as"
  by (auto simp: no_lease_announced_def)

section \<open>Leases too long for the timers\<close>

text \<open>A bound client whose three timers are equal.\<close>

definition level_timers :: "int \<Rightarrow> dhcp_client \<Rightarrow> bool" where
  "level_timers t c \<longleftrightarrow> dc_state c = BOUND \<and> dc_renewal_ms_remaining c = t \<and> dc_rebinding_ms_remaining c = t
     \<and> dc_expiry_ms_remaining c = t"

lemma level_tick:
  assumes "level_timers t c" "sint ms < t"
  shows "\<exists>d. dhcp_on_time_passed ms c = (d, None) \<and> level_timers (t - sint ms) d \<and> dc_actions d = dc_actions c"
  using assms by (simp add: level_timers_def dhcp_on_time_passed_def leased_tick_def resend_request_def Let_def)

lemma level_run:
  "level_timers t c \<Longrightarrow> list_all (\<lambda>ms. unat ms < 2 ^ 31) mss \<Longrightarrow> int (\<Sum>ms \<leftarrow> mss. unat ms) < t \<Longrightarrow>
     dc_state (fst (dhcp_run (map Dhcp_tick mss) c)) = BOUND \<and> dc_actions (fst (dhcp_run (map Dhcp_tick mss) c)) = dc_actions c"
proof (induction mss arbitrary: t c)
  case Nil
  then show ?case by (simp add: level_timers_def)
next
  case (Cons ms mss)
  have s: "sint ms = int (unat ms)" using Cons.prems by (simp add: sint_small)
  moreover have "sint ms < t" using Cons.prems(3) s by simp
  ultimately obtain d where "dhcp_on_time_passed ms c = (d, None)" "level_timers (t - sint ms) d" "dc_actions d = dc_actions c"
    using level_tick Cons.prems(1) by blast
  then show ?case using Cons.IH [of "t - sint ms" d] Cons.prems s by simp
qed

lemma absent_option: "map_of (dh_options m) code = None \<Longrightarrow> dhcp_get_option_uint32 code v m = Inr v"
  by (simp add: dhcp_get_option_uint32_def dhcp_get_option_def)

lemma lease_ms_clamped:
  assumes "2147483 \<le> unat s"
  shows "lease_seconds_to_ms s = 2147483000"
proof -
  have m: "MAX_LEASE_SECONDS = 2147483" by (simp add: MAX_LEASE_SECONDS_def DHCP_MS_PER_SECOND_def)
  have "(2147483 :: u32) \<le> s" using assms by (simp add: word_le_nat_alt)
  then show ?thesis unfolding lease_seconds_to_ms_def m by (simp add: DHCP_MS_PER_SECOND_def)
qed

lemma long_lease_level:
  assumes "granted_lease m c = Inr l"
    and "map_of (dh_options m) DHCP_OPTION_RENEWAL_TIME = None" "map_of (dh_options m) DHCP_OPTION_REBINDING_TIME = None"
    and "2147483 \<le> unat (le_lease_seconds l div 2)" "2147483 \<le> unat (le_lease_seconds l * 7 div 8)"
  shows "level_timers 2147483000 (fst (apply_ack m c))"
proof -
  have "unat (le_lease_seconds l div 2) \<le> unat (le_lease_seconds l)" by (simp add: unat_div)
  then show ?thesis
    using assms
    by (simp add: apply_ack_def absent_option level_timers_def lease_ms_clamped dhcp_act_def T1_NUMERATOR_def T1_DENOMINATOR_def
        T2_NUMERATOR_def T2_DENOMINATOR_def)
qed

section \<open>Properties\<close>

text \<open>
  C17. The client and its owner never disagree about the lease. From \<open>start()\<close> on, after any sequence of
  datagrams (genuine, forged or malformed) and ticks shorter than \<open>2 ^ 31\<close> ms, no exception has left the client,
  the lease the owner was last told of (and not told to drop) is exactly the lease the client holds, a held
  lease has between 1 ms and 2147483 s left, and the retransmission interval is between 4 and 64 s.
\<close>

theorem dhcp_owner_in_step:
  assumes "list_all dhcp_event_ok es"
  shows "case and_then (dhcp_start (dhcp_client_new mac seed)) (dhcp_run es) of (c, e) \<Rightarrow>
           e = None
           \<and> owner_lease (dc_actions c) = (if has_lease c then Some (dc_lease c) else None)
           \<and> (has_lease c \<longrightarrow> 0 < dc_expiry_ms_remaining c \<and> dc_expiry_ms_remaining c \<le> 2147483000)
           \<and> 4000 \<le> dc_retransmit_interval_ms c \<and> dc_retransmit_interval_ms c \<le> 64000"
proof -
  obtain d where d: "dhcp_start (dhcp_client_new mac seed) = (d, None)" "client_inv d"
    using start_ok [of mac seed] by (cases "dhcp_start (dhcp_client_new mac seed)") (auto simp: client_ok_def)
  then show ?thesis
    using dhcp_run_ok [OF d(2) assms]
    by (auto simp: client_ok_def client_inv_def client_lease_def RETRANSMIT_BASE_MS_def RETRANSMIT_MAX_MS_def split: prod.splits)
qed

theorem dhcp_owner_in_step_witness:
  "snd (and_then (dhcp_start (dhcp_client_new mac_zero 7)) (dhcp_run [Dhcp_datagram [1, 2, 3], Dhcp_tick 5000])) = None"
  using dhcp_owner_in_step [of "[Dhcp_datagram [1, 2, 3], Dhcp_tick 5000]" mac_zero 7]
  by (simp split: prod.splits)

text \<open>
  C18. A lease lasts exactly as long as it was granted. If no further reply arrives, the client holds on to the
  lease while the ticks add up to less than the remaining lifetime, and has given it up as soon as they reach
  it, whatever it did to renew it in between.
\<close>

theorem dhcp_lease_expires:
  assumes "client_inv c" "has_lease c" "list_all (\<lambda>ms. unat ms < 2 ^ 31) mss"
  shows "case dhcp_run (map Dhcp_tick mss) c of (d, e) \<Rightarrow>
           e = None
           \<and> has_lease d = (int (\<Sum>ms \<leftarrow> mss. unat ms) < dc_expiry_ms_remaining c)
           \<and> owner_lease (dc_actions d) = (if has_lease d then Some (dc_lease c) else None)"
proof -
  have "list_all dhcp_event_ok (map Dhcp_tick mss)" using assms(3) by (simp add: list_all_length)
  from dhcp_run_ok [OF assms(1) this] silent_run [OF assms] show ?thesis
    by (auto simp: client_ok_def client_inv_def client_lease_def split: prod.splits)
qed

definition sample_ack :: dhcp where
  "sample_ack = dhcp_new\<lparr>dh_options := [(DHCP_OPTION_LEASE_TIME, [0, 0, 0, 60])]\<rparr>"

definition sample_bound :: dhcp_client where
  "sample_bound = fst (apply_ack sample_ack (fst (dhcp_start (dhcp_client_new mac_zero 7))))"

lemma sample_bound_ok: "client_inv sample_bound"
  using start_ok [of mac_zero 7] apply_ack_ok [of "fst (dhcp_start (dhcp_client_new mac_zero 7))" sample_ack]
  by (simp add: client_ok_def sample_bound_def)

lemma sample_bound_timer: "has_lease sample_bound" "dc_expiry_ms_remaining sample_bound = 60000"
  unfolding sample_bound_def by code_simp+

theorem dhcp_lease_expires_witness:
  "has_lease (fst (dhcp_run (map Dhcp_tick [50000, 9999]) sample_bound))
   \<and> \<not> has_lease (fst (dhcp_run (map Dhcp_tick [50000, 10000]) sample_bound))"
  using dhcp_lease_expires [OF sample_bound_ok sample_bound_timer(1), of "[50000, 9999]"]
    dhcp_lease_expires [OF sample_bound_ok sample_bound_timer(1), of "[50000, 10000]"]
  by (simp add: sample_bound_timer split: prod.splits)

text \<open>
  C19. A lease comes only from an acknowledgement the client asked for. If a step announces a lease to the owner,
  the step handled a datagram that parses as a BOOTREPLY carrying the client's transaction id and hardware
  address and the message type ACK, the client was requesting, renewing or rebinding, and the lease announced
  is the one the message grants.
\<close>

theorem lease_only_by_ack:
  assumes "dc_actions (fst (dhcp_step e c)) = dc_actions c @ as" "Lease_acquired l \<in> set as"
  shows "\<exists>payload m. e = Dhcp_datagram payload \<and> dhcp_from_bytes payload = Inr m \<and> dh_op m = OP_BOOTREPLY
           \<and> dh_transaction_id m = dc_transaction_id c \<and> dh_client_mac m = dc_mac c \<and> dhcp_get_message_type m = DHCP_ACK
           \<and> dc_state c \<in> {REQUESTING, RENEWING, REBINDING} \<and> granted_lease m c = Inr l"
proof (cases e)
  case (Dhcp_tick ms)
  then show ?thesis using assms announced [OF tick_announces_nothing [of c ms]] by simp
next
  case (Dhcp_datagram payload)
  have "no_lease_announced c (c, x)" for x by (simp add: unchanged_announces_nothing)
  note quiet = this drop_announces_nothing [of c] offer_announces_nothing [of c]
  show ?thesis
    using assms Dhcp_datagram quiet [THEN announced] apply_ack_announces [of _ c as l]
    by (auto simp: dhcp_on_datagram_def split: sum.splits cpp_error.splits if_splits)
qed

definition sample_requesting :: dhcp_client where
  "sample_requesting = (dhcp_client_new mac_zero 8)\<lparr>dc_state := REQUESTING\<rparr>"

definition sample_reply :: dhcp where
  "sample_reply = dhcp_new\<lparr>dh_op := OP_BOOTREPLY, dh_transaction_id := 8,
     dh_options := [(DHCP_OPTION_LEASE_TIME, [0, 0, 0, 60]), (DHCP_OPTION_MESSAGE_TYPE, [DHCP_ACK])]\<rparr>"

lemma sample_reply_parses: "\<exists>payload. dhcp_to_bytes sample_reply = Inr payload \<and> dhcp_from_bytes payload = Inr sample_reply"
  by (rule written_parses)
    (simp_all add: sample_reply_def dhcp_new_def dhcp_option_codes option_ok_def ordered_keys_def)

theorem lease_only_by_ack_witness:
  "\<exists>payload l. dc_actions (fst (dhcp_step (Dhcp_datagram payload) sample_requesting))
       = dc_actions sample_requesting @ [Lease_acquired l]
     \<and> (\<exists>m. dhcp_from_bytes payload = Inr m \<and> dhcp_get_message_type m = DHCP_ACK \<and> granted_lease m sample_requesting = Inr l)"
proof -
  let ?c = sample_requesting
  obtain payload where p: "dhcp_from_bytes payload = Inr sample_reply" using sample_reply_parses by blast
  have "dhcp_get_message_type sample_reply = DHCP_ACK" "dc_state ?c = REQUESTING" "dh_op sample_reply = OP_BOOTREPLY"
    "dh_transaction_id sample_reply = dc_transaction_id ?c" "dh_client_mac sample_reply = dc_mac ?c"
    by (simp_all add: sample_reply_def sample_requesting_def dhcp_client_new_def dhcp_new_def dhcp_get_message_type_def
        dhcp_get_option_def dhcp_option_codes)
  then have step: "dhcp_step (Dhcp_datagram payload) ?c = apply_ack sample_reply ?c"
    using p by (simp add: dhcp_on_datagram_def DHCP_OFFER_def DHCP_ACK_def)
  obtain l where a: "dc_actions (fst (dhcp_step (Dhcp_datagram payload) ?c)) = dc_actions ?c @ [Lease_acquired l]"
    unfolding step using apply_ack_result [of sample_reply ?c] by auto
  from lease_only_by_ack [OF this] a show ?thesis by fastforce
qed

text \<open>
  C39. A very long lease is never renewed when its times are left to the client. Let the acknowledgement carry
  neither the renewal nor the rebinding option, and let both times the client computes itself, half the lease and
  \<open>lease * 7 / 8\<close> with the product wrapped to 32 bits, be at least the 2147483 s the timers can hold: the infinite lease
  (\<open>0xffffffff\<close>) is one such. Renewal, rebinding and expiry are then all clamped to the same 2147483 s: the client
  stays silent in BOUND until they are over and then drops the lease. (A lease whose wrapped product is
  small, such as 613566757 s, gets a rebinding time of zero instead and is outside this statement.)
\<close>

theorem long_lease_never_renewed:
  assumes "client_inv c" "granted_lease m c = Inr l"
    and "map_of (dh_options m) DHCP_OPTION_RENEWAL_TIME = None" "map_of (dh_options m) DHCP_OPTION_REBINDING_TIME = None"
    and "2147483 \<le> unat (le_lease_seconds l div 2)" "2147483 \<le> unat (le_lease_seconds l * 7 div 8)"
    and "apply_ack m c = (d, None)" "list_all (\<lambda>ms. unat ms < 2 ^ 31) mss"
  shows "if (\<Sum>ms \<leftarrow> mss. unat ms) < 2147483000
         then dc_state (fst (dhcp_run (map Dhcp_tick mss) d)) = BOUND \<and> dc_actions (fst (dhcp_run (map Dhcp_tick mss) d)) = dc_actions d
         else \<not> has_lease (fst (dhcp_run (map Dhcp_tick mss) d))"
proof -
  have level: "level_timers 2147483000 d" using long_lease_level [OF assms(2-6)] assms(7) by simp
  then have "has_lease d" "dc_expiry_ms_remaining d = 2147483000" by (simp_all add: level_timers_def has_lease_def)
  moreover have "client_inv d" using apply_ack_ok [OF assms(1), of m] assms(7) by simp
  ultimately show ?thesis
    using level_run [OF level assms(8)] silent_run [of d mss] assms(8) by (auto split: prod.splits)
qed

definition infinite_ack :: dhcp where
  "infinite_ack = dhcp_new\<lparr>dh_options := [(DHCP_OPTION_LEASE_TIME, [255, 255, 255, 255])]\<rparr>"

theorem long_lease_never_renewed_witness:
  "\<exists>d. apply_ack infinite_ack sample_bound = (d, None) \<and> dc_state (fst (dhcp_run (map Dhcp_tick [2000000000]) d)) = BOUND
     \<and> \<not> has_lease (fst (dhcp_run (map Dhcp_tick [2000000000, 200000000]) d))"
proof -
  obtain l where l: "granted_lease infinite_ack sample_bound = Inr l" using granted_total by blast
  have "slice_int [255, 255, 255, 255] 0 = Inr (0xffffffff :: u32)" by code_simp
  then have s: "le_lease_seconds l = 0xffffffff"
    using l by (auto simp: granted_lease_def infinite_ack_def dhcp_get_option_address_def dhcp_get_option_address_list_def
        dhcp_get_option_uint16_def dhcp_get_option_uint32_def dhcp_get_option_def dhcp_option_codes address_list_loop.simps)
  obtain d where d: "apply_ack infinite_ack sample_bound = (d, None)" using apply_ack_result [of infinite_ack sample_bound] by blast
  have o: "map_of (dh_options infinite_ack) DHCP_OPTION_RENEWAL_TIME = None"
    "map_of (dh_options infinite_ack) DHCP_OPTION_REBINDING_TIME = None"
    by (simp_all add: infinite_ack_def dhcp_option_codes)
  have t: "2147483 \<le> unat (le_lease_seconds l div 2)" "2147483 \<le> unat (le_lease_seconds l * 7 div 8)" by (simp_all add: s)
  note never = long_lease_never_renewed [OF sample_bound_ok l o t d]
  show ?thesis using d never [of "[2000000000]"] never [of "[2000000000, 200000000]"] by simp
qed

end
