(* ===== verification/Dns_Codec.thy ===== *)
theory Dns_Codec
  imports Net_Addr
begin

text \<open>
  The DNS message codec (\<open>dns.cpp\<close>, \<open>dns.h\<close>): name decompression, questions, resource records and
  the writer. A \<open>std::string\<close> is a \<open>string\<close>; the loop of \<open>_decode_name\<close> is one step function on the
  variables of the loop and its iteration, so that what one turn of the loop does can be stated.
\<close>

section \<open>Messages\<close>

definition DNS_TYPE_A :: u16 where "DNS_TYPE_A = 1"
definition DNS_TYPE_CNAME :: u16 where "DNS_TYPE_CNAME = 5"
definition DNS_CLASS_IN :: u16 where "DNS_CLASS_IN = 1"
definition DNS_RCODE_NO_ERROR :: u8 where "DNS_RCODE_NO_ERROR = 0"
definition DNS_RCODE_NAME_ERROR :: u8 where "DNS_RCODE_NAME_ERROR = 3"

definition MAX_NAME_LENGTH :: nat where "MAX_NAME_LENGTH = 255"
definition MAX_LABEL_LENGTH :: nat where "MAX_LABEL_LENGTH = 63"
definition MAX_COMPRESSION_JUMPS :: nat where "MAX_COMPRESSION_JUMPS = 16"
definition DNS_HEADER_SIZE :: nat where "DNS_HEADER_SIZE = 12"
definition COMPRESSION_MASK :: u8 where "COMPRESSION_MASK = 0xc0"
definition OFFSET_MASK :: u16 where "OFFSET_MASK = 0x3fff"

record dns_question =
  q_name :: string
  q_type :: u16
  q_class :: u16

record dns_record =
  r_name :: string
  r_type :: u16
  r_class :: u16
  r_ttl :: u32
  r_rdata :: bytes
  r_target :: string

record dns =
  dns_id :: u16
  dns_flags :: u16
  dns_questions :: "dns_question list"
  dns_answers :: "dns_record list"
  dns_authority :: "dns_record list"
  dns_additional :: "dns_record list"

definition dns_new :: dns where
  "dns_new = \<lparr>dns_id = 0, dns_flags = 0, dns_questions = [], dns_answers = [], dns_authority = [], dns_additional = []\<rparr>"

definition record_address :: "dns_record \<Rightarrow> ipv4 result" where
  "record_address r = (if r_type r = DNS_TYPE_A \<and> length (r_rdata r) = 4 then ipv4_of_bytes (r_rdata r) else Inr ipv4_zero)"

definition dns_set_response :: "bool \<Rightarrow> dns \<Rightarrow> dns" where
  "dns_set_response response m =
     m\<lparr>dns_flags := (if response then dns_flags m OR 0x8000 else dns_flags m AND 0x7fff)\<rparr>"

definition dns_set_recursion_desired :: "bool \<Rightarrow> dns \<Rightarrow> dns" where
  "dns_set_recursion_desired desired m =
     m\<lparr>dns_flags := (if desired then dns_flags m OR 0x0100 else dns_flags m AND 0xfeff)\<rparr>"

definition dns_is_response :: "dns \<Rightarrow> bool" where
  "dns_is_response m \<longleftrightarrow> dns_flags m AND 0x8000 \<noteq> 0"

definition dns_is_truncated :: "dns \<Rightarrow> bool" where
  "dns_is_truncated m \<longleftrightarrow> dns_flags m AND 0x0200 \<noteq> 0"

definition dns_response_code :: "dns \<Rightarrow> u8" where
  "dns_response_code m = ucast (dns_flags m AND 0x000f)"

definition dns_add_question :: "dns_question \<Rightarrow> dns \<Rightarrow> dns" where
  "dns_add_question q m = m\<lparr>dns_questions := dns_questions m @ [q]\<rparr>"

section \<open>Names\<close>

definition char_of_byte :: "u8 \<Rightarrow> char" where
  "char_of_byte b = char_of (unat b)"

definition byte_of_char :: "char \<Rightarrow> u8" where
  "byte_of_char c = of_nat (of_char c)"

record name_cursor =
  nc_name :: string
  nc_position :: nat
  nc_jumps :: nat
  nc_resume_at :: "nat option"

datatype name_progress = Name_end string nat | Name_more name_cursor

definition follow_pointer :: "bytes \<Rightarrow> u8 \<Rightarrow> name_cursor \<Rightarrow> name_progress result" where
  "follow_pointer data len s =
     (let position = nc_position s in
      if position + 1 \<ge> length data then Inl BaseException
      else
        rbind (byte_at data (position + 1)) (\<lambda>low.
          let target = ((push_bit 8 (ucast len :: u16)) OR ucast low) AND OFFSET_MASK;
              resume_at = (case nc_resume_at s of None \<Rightarrow> position + 2 | Some r \<Rightarrow> r)
          in if unat target \<ge> position then Inl BaseException
             else if nc_jumps s + 1 > MAX_COMPRESSION_JUMPS then Inl BaseException
             else Inr (Name_more (s\<lparr>nc_position := unat target, nc_jumps := nc_jumps s + 1,
                                   nc_resume_at := Some resume_at\<rparr>))))"

text \<open>The bytes of a label, read one by one with the unchecked \<open>operator[]\<close>.\<close>

fun read_label :: "bytes \<Rightarrow> nat \<Rightarrow> nat \<Rightarrow> string result" where
  "read_label data position 0 = Inr []"
| "read_label data position (Suc n) =
     rbind (byte_at data position) (\<lambda>b.
     rbind (read_label data (position + 1) n) (\<lambda>label. Inr (char_of_byte b # label)))"

definition take_label :: "bytes \<Rightarrow> u8 \<Rightarrow> name_cursor \<Rightarrow> name_progress result" where
  "take_label data len s =
     (let position = nc_position s; name = nc_name s in
      if unat len > MAX_LABEL_LENGTH then Inl BaseException
      else if position + 1 + unat len > length data then Inl BaseException
      else if length name + unat len + 1 > MAX_NAME_LENGTH then Inl BaseException
      else
        rbind (read_label data (position + 1) (unat len)) (\<lambda>label.
          Inr (Name_more (s\<lparr>nc_name := (if name \<noteq> [] then name @ ''.'' else name) @ label,
                             nc_position := position + 1 + unat len\<rparr>))))"

definition name_step :: "bytes \<Rightarrow> name_cursor \<Rightarrow> name_progress result" where
  "name_step data s =
     (let position = nc_position s in
      if position \<ge> length data then Inl BaseException
      else
        rbind (byte_at data position) (\<lambda>len.
          if len AND COMPRESSION_MASK = COMPRESSION_MASK then follow_pointer data len s
          else if len AND COMPRESSION_MASK \<noteq> 0 then Inl BaseException
          else if len = 0
          then Inr (Name_end (nc_name s) (case nc_resume_at s of None \<Rightarrow> position + 1 | Some r \<Rightarrow> r))
          else take_label data len s))"

lemma read_label_in_range:
  "position + n \<le> length data \<Longrightarrow> read_label data position n = Inr (map char_of_byte (take n (drop position data)))"
proof (induction n arbitrary: position)
  case (Suc n)
  then have "drop position data = data ! position # drop (position + 1) data" by (simp add: Cons_nth_drop_Suc)
  with Suc show ?case by simp
qed simp

lemma take_label_eq:
  "take_label data len s =
     (let position = nc_position s; name = nc_name s in
      if unat len > MAX_LABEL_LENGTH then Inl BaseException
      else if position + 1 + unat len > length data then Inl BaseException
      else if length name + unat len + 1 > MAX_NAME_LENGTH then Inl BaseException
      else Inr (Name_more (s\<lparr>nc_name := (if name \<noteq> [] then name @ ''.'' else name)
                                          @ map char_of_byte (take (unat len) (drop (position + 1) data)),
                             nc_position := position + 1 + unat len\<rparr>)))"
  by (simp add: take_label_def Let_def read_label_in_range)

text \<open>What bounds the loop: a label makes the name longer, a jump counts, and both are capped.\<close>

lemma name_step_progress:
  assumes "name_step data s = Inr (Name_more s')"
  shows "(MAX_NAME_LENGTH - length (nc_name s')) + (MAX_COMPRESSION_JUMPS - nc_jumps s')
       < (MAX_NAME_LENGTH - length (nc_name s)) + (MAX_COMPRESSION_JUMPS - nc_jumps s)"
  using assms
  by (auto simp: name_step_def follow_pointer_def take_label_eq Let_def rbind_eq_Inr MAX_NAME_LENGTH_def
      MAX_COMPRESSION_JUMPS_def unat_gt_0 split: if_splits)

function decode_name_loop :: "bytes \<Rightarrow> name_cursor \<Rightarrow> (string \<times> nat) result" where
  "decode_name_loop data s =
     rbind (name_step data s) (\<lambda>r. case r of Name_end name offset \<Rightarrow> Inr (name, offset)
                                      | Name_more s' \<Rightarrow> decode_name_loop data s')"
  by pat_completeness auto
termination
  by (relation "measure (\<lambda>(data, s). (MAX_NAME_LENGTH - length (nc_name s)) + (MAX_COMPRESSION_JUMPS - nc_jumps s))")
    (auto dest: name_step_progress)

declare decode_name_loop.simps [simp del]

definition decode_name :: "bytes \<Rightarrow> nat \<Rightarrow> (string \<times> nat) result" where
  "decode_name data offset =
     decode_name_loop data \<lparr>nc_name = [], nc_position = offset, nc_jumps = 0, nc_resume_at = None\<rparr>"

function encode_name_loop :: "string \<Rightarrow> bytes \<Rightarrow> bytes result" where
  "encode_name_loop rest encoded =
     (if rest = [] then Inr encoded
      else
        let label = takeWhile (\<lambda>c. c \<noteq> CHR ''.'') rest in
        if label = [] then Inl BaseException
        else if length label > MAX_LABEL_LENGTH then Inl BaseException
        else
          let encoded = append_int encoded (of_nat (length label) :: u8) @ map byte_of_char label
          in if length label = length rest then Inr encoded
             else encode_name_loop (drop (length label + 1) rest) encoded)"
  by pat_completeness auto
termination
  by (relation "measure (\<lambda>(rest, encoded). length rest)") auto

declare encode_name_loop.simps [simp del]

definition encode_name :: "string \<Rightarrow> bytes result" where
  "encode_name name =
     rbind (encode_name_loop name []) (\<lambda>encoded.
       let encoded = append_int encoded (0 :: u8)
       in if length encoded > MAX_NAME_LENGTH then Inl BaseException else Inr encoded)"

section \<open>Parsing\<close>

fun read_questions :: "nat \<Rightarrow> bytes \<Rightarrow> nat \<Rightarrow> (dns_question list \<times> nat) result" where
  "read_questions 0 data offset = Inr ([], offset)"
| "read_questions (Suc count) data offset =
     rbind (decode_name data offset) (\<lambda>(name, offset).
     if offset + 4 > length data then Inl BaseException
     else
       rbind (slice_int data offset) (\<lambda>type.
       rbind (slice_int data (offset + 2)) (\<lambda>klass.
       rbind (read_questions count data (offset + 4)) (\<lambda>(rest, offset).
       Inr (\<lparr>q_name = name, q_type = type, q_class = klass\<rparr> # rest, offset)))))"

fun read_records :: "nat \<Rightarrow> bytes \<Rightarrow> nat \<Rightarrow> (dns_record list \<times> nat) result" where
  "read_records 0 data offset = Inr ([], offset)"
| "read_records (Suc count) data offset =
     rbind (decode_name data offset) (\<lambda>(name, offset).
     if offset + 10 > length data then Inl BaseException
     else
       rbind (slice_int data offset) (\<lambda>type.
       rbind (slice_int data (offset + 2)) (\<lambda>klass.
       rbind (slice_int data (offset + 4)) (\<lambda>ttl.
       rbind (slice_int data (offset + 8)) (\<lambda>rdlength :: u16.
       if offset + 10 + unat rdlength > length data then Inl BaseException
       else
         rbind (slice data (offset + 10) (unat rdlength)) (\<lambda>rdata.
         rbind (if type = DNS_TYPE_CNAME then decode_name data (offset + 10) else Inr ([], offset + 10))
           (\<lambda>(target, target_offset).
         rbind (read_records count data (offset + 10 + unat rdlength)) (\<lambda>(rest, offset).
         Inr (\<lparr>r_name = name, r_type = type, r_class = klass, r_ttl = ttl, r_rdata = rdata, r_target = target\<rparr> # rest,
              offset)))))))))"

definition dns_from_bytes :: "bytes \<Rightarrow> dns result" where
  "dns_from_bytes data =
     (if length data < DNS_HEADER_SIZE then Inl BaseException
      else
        rbind (slice_int data 0) (\<lambda>i.
        rbind (slice_int data 2) (\<lambda>flags.
        rbind (slice_int data 4) (\<lambda>question_count :: u16.
        rbind (slice_int data 6) (\<lambda>answer_count :: u16.
        rbind (slice_int data 8) (\<lambda>authority_count :: u16.
        rbind (slice_int data 10) (\<lambda>additional_count :: u16.
        rbind (read_questions (unat question_count) data DNS_HEADER_SIZE) (\<lambda>(questions, offset).
        rbind (read_records (unat answer_count) data offset) (\<lambda>(answers, offset).
        rbind (read_records (unat authority_count) data offset) (\<lambda>(authority, offset).
        rbind (read_records (unat additional_count) data offset) (\<lambda>(additional, offset).
        Inr \<lparr>dns_id = i, dns_flags = flags, dns_questions = questions, dns_answers = answers,
             dns_authority = authority, dns_additional = additional\<rparr>)))))))))))"

section \<open>Writing\<close>

fun write_questions :: "dns_question list \<Rightarrow> bytes \<Rightarrow> bytes result" where
  "write_questions [] result = Inr result"
| "write_questions (q # qs) result =
     rbind (encode_name (q_name q)) (\<lambda>name.
       write_questions qs (append_int (append_int (result @ name) (q_type q)) (q_class q)))"

fun write_records :: "dns_record list \<Rightarrow> bytes \<Rightarrow> bytes result" where
  "write_records [] result = Inr result"
| "write_records (r # rs) result =
     rbind (encode_name (r_name r)) (\<lambda>name.
       let result = append_int (result @ name) (r_type r);
           result = append_int result (r_class r);
           result = append_int result (r_ttl r);
           result = append_int result (of_nat (length (r_rdata r)) :: u16)
       in write_records rs (result @ r_rdata r))"

definition dns_to_bytes :: "dns \<Rightarrow> bytes result" where
  "dns_to_bytes m =
     (let result = append_int [] (dns_id m);
          result = append_int result (dns_flags m);
          result = append_int result (of_nat (length (dns_questions m)) :: u16);
          result = append_int result (of_nat (length (dns_answers m)) :: u16);
          result = append_int result (0 :: u16);
          result = append_int result (0 :: u16)
      in rbind (write_questions (dns_questions m) result) (write_records (dns_answers m)))"

section \<open>No input reaches undefined behaviour\<close>

lemma name_step_no_ub: "no_ub (name_step data s)"
  unfolding name_step_def follow_pointer_def take_label_eq Let_def by (intro no_ub_rules) auto

lemma decode_name_loop_no_ub: "no_ub (decode_name_loop data s)"
proof (induction data s rule: decode_name_loop.induct)
  case (1 data s)
  show ?case
    by (subst decode_name_loop.simps, rule no_ub_rbind)
      (use name_step_no_ub 1 in \<open>auto split: name_progress.splits\<close>)
qed

lemma decode_name_no_ub [no_ub_rules]: "no_ub (decode_name data offset)"
  by (simp add: decode_name_def decode_name_loop_no_ub)

lemma read_questions_no_ub [no_ub_rules]: "no_ub (read_questions n data offset)"
  by (induction n arbitrary: offset) (auto intro!: no_ub_rules)

lemma read_records_no_ub [no_ub_rules]: "no_ub (read_records n data offset)"
  by (induction n arbitrary: offset)
    (auto intro!: no_ub_rbind no_ub_if no_ub_prod no_ub_slice_int decode_name_no_ub no_ub_slice_inside)

lemma dns_from_bytes_no_ub: "no_ub (dns_from_bytes data)"
  unfolding dns_from_bytes_def by (intro no_ub_rules) simp_all

lemma dns_from_bytes_safe: "dns_from_bytes data \<noteq> Inl UndefinedBehaviour"
  using dns_from_bytes_no_ub by (simp add: no_ub_def)

section \<open>Bounds on decoded names\<close>

lemma name_step_bounded:
  assumes "name_step data s = Inr (Name_more s')" "length (nc_name s) \<le> MAX_NAME_LENGTH"
  shows "length (nc_name s') \<le> MAX_NAME_LENGTH"
  using assms by (auto simp: name_step_def follow_pointer_def take_label_eq Let_def rbind_eq_Inr split: if_splits)

lemma decode_name_loop_bounded:
  "decode_name_loop data s = Inr (name, offset) \<Longrightarrow> length (nc_name s) \<le> MAX_NAME_LENGTH \<Longrightarrow>
     length name \<le> MAX_NAME_LENGTH"
proof (induction data s rule: decode_name_loop.induct)
  case (1 data s)
  from 1(2) obtain r where r: "name_step data s = Inr r"
    "(case r of Name_end n off \<Rightarrow> Inr (n, off) | Name_more s' \<Rightarrow> decode_name_loop data s') = Inr (name, offset)"
    by (subst (asm) decode_name_loop.simps) (auto elim: rbindE)
  show ?case
  proof (cases r)
    case (Name_end n off)
    then have "n = nc_name s" using r(1) by (auto simp: name_step_def follow_pointer_def take_label_eq Let_def rbind_eq_Inr split: if_splits)
    then show ?thesis using r(2) Name_end 1(3) by simp
  next
    case (Name_more s')
    then show ?thesis using 1(1) [OF r(1) Name_more] r name_step_bounded 1(3) by simp
  qed
qed

lemma decode_name_bounded: "decode_name data i = Inr (name, offset) \<Longrightarrow> length name \<le> MAX_NAME_LENGTH"
  unfolding decode_name_def by (erule decode_name_loop_bounded) simp

lemma read_questions_bounded:
  "read_questions n data i = Inr (qs, offset) \<Longrightarrow> length qs = n \<and> (\<forall>q \<in> set qs. length (q_name q) \<le> MAX_NAME_LENGTH)"
proof (induction n arbitrary: i qs offset)
  case (Suc n)
  then show ?case by (auto simp: rbind_eq_Inr split: if_splits; meson decode_name_bounded)
qed simp

lemma read_records_bounded:
  "read_records n data i = Inr (rs, offset) \<Longrightarrow>
     length rs = n \<and> (\<forall>r \<in> set rs. length (r_name r) \<le> MAX_NAME_LENGTH \<and> length (r_target r) \<le> MAX_NAME_LENGTH)"
proof (induction n arbitrary: i rs offset)
  case (Suc n)
  then show ?case
    by (auto simp: rbind_eq_Inr split: if_splits prod.splits; meson decode_name_bounded le0 list.size(3))
qed simp

section \<open>Progress through the message\<close>

definition cursor_from :: "nat \<Rightarrow> bytes \<Rightarrow> name_cursor \<Rightarrow> bool" where
  "cursor_from i data s \<longleftrightarrow>
     (case nc_resume_at s of None \<Rightarrow> i \<le> nc_position s | Some r \<Rightarrow> i < r \<and> r \<le> length data)"

lemma name_step_cursor:
  assumes "name_step data s = Inr r" "cursor_from i data s"
  shows "case r of Name_end n off \<Rightarrow> i < off \<and> off \<le> length data | Name_more s' \<Rightarrow> cursor_from i data s'"
  using assms
  by (auto simp: name_step_def follow_pointer_def take_label_eq cursor_from_def Let_def rbind_eq_Inr
      split: if_splits option.splits)

lemma decode_name_loop_advances:
  "decode_name_loop data s = Inr (name, offset) \<Longrightarrow> cursor_from i data s \<Longrightarrow> i < offset \<and> offset \<le> length data"
proof (induction data s rule: decode_name_loop.induct)
  case (1 data s)
  from 1(2) obtain r where r: "name_step data s = Inr r"
    "(case r of Name_end n off \<Rightarrow> Inr (n, off) | Name_more s' \<Rightarrow> decode_name_loop data s') = Inr (name, offset)"
    by (subst (asm) decode_name_loop.simps) (auto elim: rbindE)
  with name_step_cursor [OF r(1) 1(3)] 1(1) [OF r(1)] show ?case by (cases r) auto
qed

lemma decode_name_advances: "decode_name data i = Inr (name, offset) \<Longrightarrow> i < offset \<and> offset \<le> length data"
  unfolding decode_name_def by (erule decode_name_loop_advances) (simp add: cursor_from_def)

lemma read_questions_advances:
  "read_questions n data i = Inr (qs, offset) \<Longrightarrow> i \<le> length data \<Longrightarrow> i + 5 * length qs \<le> offset \<and> offset \<le> length data"
proof (induction n arbitrary: i qs offset)
  case (Suc n)
  from Suc.prems(1) obtain name off q qs' where
    d: "decode_name data i = Inr (name, off)" "off + 4 \<le> length data"
    and r: "read_questions n data (off + 4) = Inr (qs', offset)" and q: "qs = q # qs'"
    by (auto simp: rbind_eq_Inr split: if_splits)
  show ?case using Suc.IH [OF r d(2)] decode_name_advances [OF d(1)] q by simp
qed simp

lemma read_records_advances:
  "read_records n data i = Inr (rs, offset) \<Longrightarrow> i \<le> length data \<Longrightarrow> i + 11 * length rs \<le> offset \<and> offset \<le> length data"
proof (induction n arbitrary: i rs offset)
  case (Suc n)
  from Suc.prems(1) obtain name off r rs' len where
    d: "decode_name data i = Inr (name, off)" "off + 10 + len \<le> length data"
    and r: "read_records n data (off + 10 + len) = Inr (rs', offset)" and q: "rs = r # rs'"
    by (auto simp: rbind_eq_Inr not_less split: if_splits prod.splits)
  show ?case using Suc.IH [OF r d(2)] decode_name_advances [OF d(1)] q by simp
qed simp

section \<open>Round trip\<close>

lemma char_byte [simp]: "char_of_byte (byte_of_char c) = c"
  by (simp add: char_of_byte_def byte_of_char_def unsigned_of_nat take_bit_nat_eq_self)

lemma short_label_byte:
  assumes "n \<le> 63"
  shows "(of_nat n :: u8) AND COMPRESSION_MASK = 0" "unat (of_nat n :: u8) = n"
proof -
  have "list_all (\<lambda>n. (of_nat n :: u8) AND 0xc0 = 0) [0..<64]" by code_simp
  then show "(of_nat n :: u8) AND COMPRESSION_MASK = 0"
    using assms unfolding list_all_iff COMPRESSION_MASK_def by simp
  show "unat (of_nat n :: u8) = n" using assms by (simp add: unat_of_nat_u8)
qed

definition joined :: "string \<Rightarrow> string \<Rightarrow> string" where
  "joined name rest = (if rest = [] then name else if name = [] then rest else name @ CHR ''.'' # rest)"

definition label_of :: "string \<Rightarrow> string" where
  "label_of rest = takeWhile (\<lambda>c. c \<noteq> CHR ''.'') rest"

definition label_bytes :: "string \<Rightarrow> bytes" where
  "label_bytes label = (of_nat (length label) :: u8) # map byte_of_char label"

definition label_ok :: "string \<Rightarrow> bool" where
  "label_ok label \<longleftrightarrow> label \<noteq> [] \<and> length label \<le> MAX_LABEL_LENGTH"

lemma encode_name_loop_unfold:
  "encode_name_loop rest acc =
     (if rest = [] then Inr acc
      else if \<not> label_ok (label_of rest) then Inl BaseException
      else encode_name_loop (drop (Suc (length (label_of rest))) rest) (acc @ label_bytes (label_of rest)))"
proof (cases "length (label_of rest) = length rest")
  case True
  then show ?thesis
    by (subst encode_name_loop.simps) (auto simp: Let_def label_of_def label_ok_def label_bytes_def append_int_eq
        encode_name_loop.simps [of "[]"])
next
  case False
  then show ?thesis
    by (subst encode_name_loop.simps) (auto simp: Let_def label_of_def label_ok_def label_bytes_def append_int_eq)
qed

lemma encode_name_loop_acc: "encode_name_loop rest acc = rbind (encode_name_loop rest []) (\<lambda>e. Inr (acc @ e))"
proof (induction "length rest" arbitrary: rest acc rule: less_induct)
  case less
  let ?l = "label_of rest"
  show ?case
  proof (cases "rest = [] \<or> \<not> label_ok ?l")
    case True
    then show ?thesis by (auto simp: encode_name_loop_unfold [of rest])
  next
    case False
    then have "length (drop (Suc (length ?l)) rest) < length rest" by simp
    note ih = less [OF this]
    have "encode_name_loop rest x = rbind (encode_name_loop (drop (Suc (length ?l)) rest) [])
        (\<lambda>e. Inr (x @ label_bytes ?l @ e))" for x
      using False by (subst encode_name_loop_unfold) (simp add: ih [of "x @ label_bytes ?l"])
    then show ?thesis by (cases "encode_name_loop (drop (Suc (length ?l)) rest) []") auto
  qed
qed

lemma encode_name_loop_cons:
  assumes "encode_name_loop rest [] = Inr e" "rest \<noteq> []"
  obtains e' where "label_ok (label_of rest)" "e = label_bytes (label_of rest) @ e'"
    "encode_name_loop (drop (Suc (length (label_of rest))) rest) [] = Inr e'"
  using assms encode_name_loop_acc [of "drop (Suc (length (label_of rest))) rest" "label_bytes (label_of rest)"]
  by (auto simp: encode_name_loop_unfold [of rest] rbind_eq_Inr split: if_splits)

lemma label_split:
  "length (label_of rest) = length rest \<and> label_of rest = rest
   \<or> length (label_of rest) < length rest \<and> label_of rest @ CHR ''.'' # drop (Suc (length (label_of rest))) rest = rest"
proof -
  define tail where "tail = dropWhile (\<lambda>c. c \<noteq> CHR ''.'') rest"
  have split: "label_of rest @ tail = rest" by (simp add: label_of_def tail_def)
  show ?thesis
  proof (cases tail)
    case Nil
    then show ?thesis using split by simp
  next
    case (Cons c r)
    then have "c = CHR ''.''" using hd_dropWhile [of "\<lambda>c. c \<noteq> CHR ''.''" rest] by (simp add: tail_def)
    moreover have "drop (Suc (length (label_of rest))) rest = r"
      using arg_cong [OF split, of "drop (Suc (length (label_of rest)))"] Cons by simp
    moreover have "length (label_of rest) < length rest" using arg_cong [OF split, of length] Cons by simp
    ultimately show ?thesis using split Cons by simp
  qed
qed

lemma name_step_label:
  assumes "label_ok label" "drop (nc_position s) data = label_bytes label @ post"
    and "length (nc_name s) + length label + 1 \<le> MAX_NAME_LENGTH"
  shows "name_step data s = Inr (Name_more (s\<lparr>nc_name := joined (nc_name s) label,
           nc_position := nc_position s + 1 + length label\<rparr>))"
proof -
  have len: "length label \<le> 63" "label \<noteq> []" using assms(1) by (simp_all add: label_ok_def MAX_LABEL_LENGTH_def)
  have at: "nc_position s < length data" "data ! nc_position s = of_nat (length label)"
    and body: "drop (Suc (nc_position s)) data = map byte_of_char label @ post"
    using drop_Cons_nth [of "nc_position s" data] assms(2) by (simp_all add: label_bytes_def)
  have "length data = Suc (nc_position s) + length label + length post"
    using arg_cong [OF body, of length] at(1) by simp
  moreover have "(of_nat (length label) :: u8) \<noteq> 0" using short_label_byte(2) [OF len(1)] len(2)
    by (metis length_0_conv unsigned_0)
  ultimately show ?thesis
    unfolding name_step_def take_label_eq
    using at body short_label_byte [OF len(1)] len assms(3)
    by (simp add: Let_def COMPRESSION_MASK_def joined_def MAX_LABEL_LENGTH_def o_def)
qed

lemma name_step_end:
  assumes "drop (nc_position s) data = 0 # post" "nc_resume_at s = None"
  shows "name_step data s = Inr (Name_end (nc_name s) (nc_position s + 1))"
  using drop_Cons_nth [OF assms(1)] assms(2)
  by (simp add: name_step_def Let_def COMPRESSION_MASK_def)

definition undotted :: "string \<Rightarrow> bool" where
  "undotted rest \<longleftrightarrow> rest = [] \<or> last rest \<noteq> CHR ''.''"

lemma undotted_last_label:
  assumes "undotted rest" "rest \<noteq> []" "drop (Suc (length (label_of rest))) rest = []"
  shows "label_of rest = rest"
proof (rule ccontr)
  assume "label_of rest \<noteq> rest"
  then have "label_of rest @ [CHR ''.''] = rest" using label_split [of rest] assms(3) by auto
  then have "last rest = CHR ''.''" by (metis last_snoc)
  then show False using assms(1,2) by (simp add: undotted_def)
qed

lemma length_joined: "length (joined a b) \<le> length a + 1 + length b"
  by (simp add: joined_def)

lemma joined_assoc: "l \<noteq> [] \<Longrightarrow> r \<noteq> [] \<Longrightarrow> joined (joined n l) r = joined n (l @ CHR ''.'' # r)"
  by (simp add: joined_def)

lemma decode_encoded:
  assumes "encode_name_loop rest [] = Inr e" "drop (nc_position s) data = e @ 0 # post" "nc_resume_at s = None"
    and "undotted rest" "rest \<noteq> [] \<Longrightarrow> length (nc_name s) + length rest + 1 \<le> MAX_NAME_LENGTH"
  shows "decode_name_loop data s = Inr (joined (nc_name s) rest, nc_position s + length e + 1)"
  using assms
proof (induction "length rest" arbitrary: rest e s rule: less_induct)
  case less
  show ?case
  proof (cases "rest = []")
    case True
    then have "e = []" using less.prems(1) by (simp add: encode_name_loop_unfold)
    then show ?thesis
      using less.prems(2,3) True by (subst decode_name_loop.simps) (simp add: name_step_end joined_def)
  next
    case False
    let ?l = "label_of rest" and ?r = "drop (Suc (length (label_of rest))) rest"
    from encode_name_loop_cons [OF less.prems(1) False] obtain e' where
      e': "label_ok ?l" "e = label_bytes ?l @ e'" "encode_name_loop ?r [] = Inr e'" by blast
    define s' where "s' = s\<lparr>nc_name := joined (nc_name s) ?l, nc_position := nc_position s + 1 + length ?l\<rparr>"
    have le: "length ?l \<le> length rest" by (simp add: label_of_def length_takeWhile_le)
    have step: "name_step data s = Inr (Name_more s')"
      unfolding s'_def
      by (rule name_step_label [OF e'(1)]) (use less.prems(2,5) e'(2) le False in auto)
    have "drop (nc_position s') data = e' @ 0 # post"
      using arg_cong [OF less.prems(2), of "drop (1 + length ?l)"]
      by (simp add: s'_def e'(2) label_bytes_def ac_simps)
    moreover have "undotted ?r" using less.prems(4) by (auto simp: undotted_def last_drop)
    moreover have "length (nc_name s') + length ?r + 1 \<le> MAX_NAME_LENGTH" if "?r \<noteq> []"
    proof -
      have "length rest = length ?l + 1 + length ?r" using that by simp
      then show ?thesis using less.prems(5) [OF False] length_joined [of "nc_name s" ?l] unfolding s'_def by simp
    qed
    ultimately have "decode_name_loop data s' = Inr (joined (nc_name s') ?r, nc_position s' + length e' + 1)"
      using e' False less.prems(3) by (intro less.hyps) (simp_all add: s'_def)
    moreover have "joined (nc_name s') ?r = joined (nc_name s) rest"
    proof (cases "?r = []")
      case True
      then have "?l = rest" using undotted_last_label less.prems(4) False by blast
      then show ?thesis using True False by (simp add: s'_def joined_def)
    next
      case r: False
      then have "?l @ CHR ''.'' # ?r = rest" using label_split [of rest] by auto
      then have "joined (joined (nc_name s) ?l) ?r = joined (nc_name s) (?l @ CHR ''.'' # ?r)"
        using r e'(1) unfolding label_ok_def by (intro joined_assoc) auto
      then show ?thesis using \<open>_ = rest\<close> by (simp add: s'_def)
    qed
    ultimately show ?thesis
      using step by (subst decode_name_loop.simps) (simp add: s'_def e'(2) label_bytes_def)
  qed
qed

lemma encode_name_loop_length:
  "encode_name_loop rest [] = Inr e \<Longrightarrow> undotted rest \<Longrightarrow> rest \<noteq> [] \<Longrightarrow> length e = length rest + 1"
proof (induction "length rest" arbitrary: rest e rule: less_induct)
  case less
  let ?l = "label_of rest" and ?r = "drop (Suc (length (label_of rest))) rest"
  from encode_name_loop_cons [OF less.prems(1,3)] obtain e' where
    e': "label_ok ?l" "e = label_bytes ?l @ e'" "encode_name_loop ?r [] = Inr e'" by blast
  show ?case
  proof (cases "?r = []")
    case True
    then have "?l = rest" using undotted_last_label less.prems(2,3) by blast
    then show ?thesis using e' True by (simp add: label_bytes_def encode_name_loop_unfold)
  next
    case False
    moreover have "undotted ?r" using less.prems(2) by (auto simp: undotted_def last_drop)
    ultimately have "length e' = length ?r + 1" using less.hyps [OF _ e'(3)] less.prems(3) by simp
    then show ?thesis using e'(2) False by (simp add: label_bytes_def)
  qed
qed

lemma decode_written:
  assumes "encode_name n = Inr e" "drop i data = e @ post" "undotted n"
  shows "decode_name data i = Inr (n, i + length e)"
proof -
  obtain e' where e': "encode_name_loop n [] = Inr e'" "e = e' @ [0]" "length e' + 1 \<le> MAX_NAME_LENGTH"
    using assms(1) by (auto simp: encode_name_def rbind_eq_Inr Let_def append_int_eq split: if_splits)
  then have "length n + 1 \<le> MAX_NAME_LENGTH" if "n \<noteq> []"
    using encode_name_loop_length [OF e'(1) assms(3) that] by simp
  from decode_encoded [OF e'(1), where data = data and post = post and
      s = "\<lparr>nc_name = [], nc_position = i, nc_jumps = 0, nc_resume_at = None\<rparr>"]
  show ?thesis unfolding decode_name_def using assms(2,3) e'(2) \<open>n \<noteq> [] \<Longrightarrow> _\<close> by (simp add: joined_def)
qed

definition question_bytes :: "bytes \<Rightarrow> dns_question \<Rightarrow> bytes" where
  "question_bytes n q = n @ int_to_bytes (q_type q) @ int_to_bytes (q_class q)"

definition record_bytes :: "bytes \<Rightarrow> dns_record \<Rightarrow> bytes" where
  "record_bytes n r = n @ int_to_bytes (r_type r) @ int_to_bytes (r_class r) @ int_to_bytes (r_ttl r)
     @ int_to_bytes (of_nat (length (r_rdata r)) :: u16) @ r_rdata r"

lemma write_step:
  "encode_name (q_name q) = Inr n \<Longrightarrow> write_questions (q # qs) x = write_questions qs (x @ question_bytes n q)"
  "encode_name (r_name r) = Inr n \<Longrightarrow> write_records (r # rs) x = write_records rs (x @ record_bytes n r)"
  by (simp_all add: append_int_eq question_bytes_def record_bytes_def)

lemma write_questions_acc: "write_questions qs acc = rbind (write_questions qs []) (\<lambda>e. Inr (acc @ e))"
proof (induction qs arbitrary: acc)
  case (Cons q qs)
  show ?case
  proof (cases "encode_name (q_name q)")
    case (Inr n)
    show ?thesis
      unfolding write_step(1) [OF Inr] Cons.IH [of "acc @ question_bytes n q"] Cons.IH [of "[] @ question_bytes n q"]
      by (cases "write_questions qs []") auto
  qed simp
qed simp

lemma write_records_acc: "write_records rs acc = rbind (write_records rs []) (\<lambda>e. Inr (acc @ e))"
proof (induction rs arbitrary: acc)
  case (Cons r rs)
  show ?case
  proof (cases "encode_name (r_name r)")
    case (Inr n)
    show ?thesis
      unfolding write_step(2) [OF Inr] Cons.IH [of "acc @ record_bytes n r"] Cons.IH [of "[] @ record_bytes n r"]
      by (cases "write_records rs []") auto
  qed simp
qed simp

lemma write_questions_cons:
  assumes "write_questions (q # qs) [] = Inr e"
  obtains n e' where "encode_name (q_name q) = Inr n" "write_questions qs [] = Inr e'" "e = question_bytes n q @ e'"
proof (cases "encode_name (q_name q)")
  case (Inr n)
  have "rbind (write_questions qs []) (\<lambda>e'. Inr (question_bytes n q @ e')) = Inr e"
    using assms unfolding write_step(1) [OF Inr] write_questions_acc [of qs "[] @ question_bytes n q"] by simp
  then show ?thesis using that [OF Inr] unfolding rbind_eq_Inr by blast
qed (use assms in simp)

lemma write_records_cons:
  assumes "write_records (r # rs) [] = Inr e"
  obtains n e' where "encode_name (r_name r) = Inr n" "write_records rs [] = Inr e'" "e = record_bytes n r @ e'"
proof (cases "encode_name (r_name r)")
  case (Inr n)
  have "rbind (write_records rs []) (\<lambda>e'. Inr (record_bytes n r @ e')) = Inr e"
    using assms unfolding write_step(2) [OF Inr] write_records_acc [of rs "[] @ record_bytes n r"] by simp
  then show ?thesis using that [OF Inr] unfolding rbind_eq_Inr by blast
qed (use assms in simp)

lemma read_written_questions:
  "write_questions qs [] = Inr e \<Longrightarrow> drop i data = e @ post \<Longrightarrow> list_all (\<lambda>q. undotted (q_name q)) qs \<Longrightarrow>
     read_questions (length qs) data i = Inr (qs, i + length e)"
proof (induction qs arbitrary: e i)
  case (Cons q qs)
  from write_questions_cons [OF Cons.prems(1)] obtain n e' where
    n: "encode_name (q_name q) = Inr n" and e': "write_questions qs [] = Inr e'"
    and e: "e = question_bytes n q @ e'" by blast
  let ?t = "int_to_bytes (q_type q)" and ?c = "int_to_bytes (q_class q)"
  have d0: "drop i data = n @ ?t @ ?c @ e' @ post" using Cons.prems(2) e by (simp add: question_bytes_def)
  have d1: "drop (i + length n) data = ?t @ ?c @ e' @ post" by (rule drop_append_step [OF d0])
  have d2: "drop (i + length n + 2) data = ?c @ e' @ post" using drop_append_step [OF d1] by simp
  have d3: "drop (i + length n + 4) data = e' @ post" using drop_append_step [OF d2] by (simp add: numeral_eq_Suc)
  have "i + length n + 4 \<le> length data" using drop_append_length [of "i + length n" data "?t @ ?c" "e' @ post"] d1 by simp
  then show ?case
    using decode_written [OF n d0] Cons.prems(3) slice_u16_drop [OF d1] slice_u16_drop [OF d2] Cons.IH [OF e' d3] e
    by (simp add: question_bytes_def)
qed simp

definition record_ok :: "dns_record \<Rightarrow> bool" where
  "record_ok r \<longleftrightarrow> undotted (r_name r) \<and> r_type r \<noteq> DNS_TYPE_CNAME \<and> r_target r = [] \<and> length (r_rdata r) < 2 ^ 16"

lemma read_written_records:
  "write_records rs [] = Inr e \<Longrightarrow> drop i data = e @ post \<Longrightarrow> list_all record_ok rs \<Longrightarrow>
     read_records (length rs) data i = Inr (rs, i + length e)"
proof (induction rs arbitrary: e i)
  case (Cons r rs)
  from write_records_cons [OF Cons.prems(1)] obtain n e' where
    n: "encode_name (r_name r) = Inr n" and e': "write_records rs [] = Inr e'" and e: "e = record_bytes n r @ e'" by blast
  let ?t = "int_to_bytes (r_type r)" and ?c = "int_to_bytes (r_class r)" and ?l = "int_to_bytes (r_ttl r)"
    and ?len = "int_to_bytes (of_nat (length (r_rdata r)) :: u16)"
  have ok: "record_ok r" using Cons.prems(3) by simp
  have len: "unat (of_nat (length (r_rdata r)) :: u16) = length (r_rdata r)"
    using ok by (simp add: record_ok_def unsigned_of_nat take_bit_nat_eq_self)
  have d0: "drop i data = n @ ?t @ ?c @ ?l @ ?len @ r_rdata r @ e' @ post"
    using Cons.prems(2) e by (simp add: record_bytes_def)
  have d1: "drop (i + length n) data = ?t @ ?c @ ?l @ ?len @ r_rdata r @ e' @ post" by (rule drop_append_step [OF d0])
  have d2: "drop (i + length n + 2) data = ?c @ ?l @ ?len @ r_rdata r @ e' @ post" using drop_append_step [OF d1] by simp
  have d3: "drop (i + length n + 4) data = ?l @ ?len @ r_rdata r @ e' @ post" using drop_append_step [OF d2] by (simp add: numeral_eq_Suc)
  have d4: "drop (i + length n + 8) data = ?len @ r_rdata r @ e' @ post" using drop_append_step [OF d3] by (simp add: numeral_eq_Suc)
  have d5: "drop (i + length n + 10) data = r_rdata r @ e' @ post" using drop_append_step [OF d4] by (simp add: numeral_eq_Suc)
  have d6: "drop (i + length n + 10 + length (r_rdata r)) data = e' @ post" by (rule drop_append_step [OF d5])
  have fits: "i + length n + 10 + length (r_rdata r) \<le> length data"
    using drop_append_length [of "i + length n" data "?t @ ?c @ ?l @ ?len @ r_rdata r" "e' @ post"] d1 by simp
  then have rdata: "slice data (i + length n + 10) (length (r_rdata r)) = Inr (r_rdata r)"
    using d5 by (simp add: slice_ok)
  have "r\<lparr>r_target := []\<rparr> = r" using ok by (simp add: record_ok_def)
  then show ?case
    using decode_written [OF n d0] ok slice_u16_drop [OF d1] slice_u16_drop [OF d2] slice_u32_drop [OF d3]
      slice_u16_drop [OF d4] rdata len fits Cons.IH [OF e' d6] Cons.prems(3) e
    by (simp add: record_ok_def record_bytes_def)
qed simp

section \<open>Properties\<close>

text \<open>
  C14. The DNS parser is safe on every datagram. Whatever the bytes, parsing returns a message or throws
  (no read outside the buffer, and the decompression loop ends); a returned message has names of at most 255
  characters, and no more questions and records than the bytes can hold, whatever its counts claim.
\<close>

theorem dns_parser_safe:
  "case dns_from_bytes data of
     Inl e \<Rightarrow> e = BaseException
   | Inr m \<Rightarrow> (\<forall>q \<in> set (dns_questions m). length (q_name q) \<le> 255)
       \<and> (\<forall>r \<in> set (dns_answers m @ dns_authority m @ dns_additional m).
            length (r_name r) \<le> 255 \<and> length (r_target r) \<le> 255)
       \<and> 12 + 5 * length (dns_questions m)
          + 11 * (length (dns_answers m) + length (dns_authority m) + length (dns_additional m)) \<le> length data"
proof (cases "dns_from_bytes data")
  case (Inl e)
  then show ?thesis using dns_from_bytes_safe [of data] by (cases e) auto
next
  case (Inr m)
  then obtain nq na nu nd o1 o2 o3 o4 where
    len: "DNS_HEADER_SIZE \<le> length data"
    and q: "read_questions nq data DNS_HEADER_SIZE = Inr (dns_questions m, o1)"
    and a: "read_records na data o1 = Inr (dns_answers m, o2)"
    and u: "read_records nu data o2 = Inr (dns_authority m, o3)"
    and d: "read_records nd data o3 = Inr (dns_additional m, o4)"
    by (auto simp: dns_from_bytes_def rbind_eq_Inr split: if_splits)
  note bounds = read_questions_bounded [OF q] read_records_bounded [OF a] read_records_bounded [OF u] read_records_bounded [OF d]
  have 1: "DNS_HEADER_SIZE + 5 * length (dns_questions m) \<le> o1" "o1 \<le> length data"
    using read_questions_advances [OF q len] by simp_all
  have 2: "o1 + 11 * length (dns_answers m) \<le> o2" "o2 \<le> length data"
    using read_records_advances [OF a 1(2)] by simp_all
  have 3: "o2 + 11 * length (dns_authority m) \<le> o3" "o3 \<le> length data"
    using read_records_advances [OF u 2(2)] by simp_all
  have 4: "o3 + 11 * length (dns_additional m) \<le> o4" "o4 \<le> length data"
    using read_records_advances [OF d 3(2)] by simp_all
  show ?thesis using Inr bounds 1 2 3 4 by (auto simp: MAX_NAME_LENGTH_def DNS_HEADER_SIZE_def)
qed

theorem dns_parser_safe_witness:
  "\<exists>m. dns_from_bytes [0, 7, 1, 0, 0, 1, 0, 0, 0, 0, 0, 0, 1, 97, 0, 0, 1, 0, 1] = Inr m
     \<and> map q_name (dns_questions m) = [''a''] \<and> (\<forall>q \<in> set (dns_questions m). length (q_name q) \<le> 255)"
proof -
  let ?data = "[0, 7, 1, 0, 0, 1, 0, 0, 0, 0, 0, 0, 1, 97, 0, 0, 1, 0, 1]"
  have "case dns_from_bytes ?data of Inl e \<Rightarrow> False | Inr m \<Rightarrow> map q_name (dns_questions m) = [''a'']" by code_simp
  then show ?thesis using dns_parser_safe [of ?data] by (auto split: sum.splits)
qed

text \<open>
  C33. Round trip. A message with questions and answers whose names do not end in a dot, and whose
  answers carry no alias, is parsed back to itself from the bytes \<open>to_bytes\<close> writes.
\<close>

theorem dns_roundtrip:
  assumes "dns_to_bytes m = Inr data"
    and "length (dns_questions m) < 2 ^ 16" "length (dns_answers m) < 2 ^ 16"
    and "list_all (\<lambda>q. undotted (q_name q)) (dns_questions m)" "list_all record_ok (dns_answers m)"
    and "dns_authority m = []" "dns_additional m = []"
  shows "dns_from_bytes data = Inr m"
proof -
  let ?nq = "of_nat (length (dns_questions m)) :: u16" and ?na = "of_nat (length (dns_answers m)) :: u16"
  define header where "header = int_to_bytes (dns_id m) @ int_to_bytes (dns_flags m) @ int_to_bytes ?nq
    @ int_to_bytes ?na @ int_to_bytes (0 :: u16) @ int_to_bytes (0 :: u16)"
  have hl: "length header = DNS_HEADER_SIZE" by (simp add: header_def DNS_HEADER_SIZE_def)
  obtain qe ae where qe: "write_questions (dns_questions m) [] = Inr qe" and ae: "write_records (dns_answers m) [] = Inr ae"
    and data: "data = header @ qe @ ae"
  proof -
    have "rbind (write_questions (dns_questions m) header) (write_records (dns_answers m)) = Inr data"
      using assms(1) unfolding dns_to_bytes_def Let_def append_int_eq header_def by simp
    then obtain r where r: "write_questions (dns_questions m) header = Inr r" "write_records (dns_answers m) r = Inr data"
      by (auto elim: rbindE)
    from r(1) write_questions_acc [of "dns_questions m" header] obtain qe where
      qe: "write_questions (dns_questions m) [] = Inr qe" "r = header @ qe" by (auto simp: rbind_eq_Inr)
    from r(2) write_records_acc [of "dns_answers m" r] obtain ae where
      ae: "write_records (dns_answers m) [] = Inr ae" "data = r @ ae" by (auto simp: rbind_eq_Inr)
    show ?thesis using that [OF qe(1) ae(1)] qe(2) ae(2) by simp
  qed
  have n: "unat ?nq = length (dns_questions m)" "unat ?na = length (dns_answers m)"
    using assms(2,3) by (simp_all add: unsigned_of_nat take_bit_nat_eq_self)
  have "drop DNS_HEADER_SIZE data = qe @ ae" using data hl by simp
  note q = read_written_questions [OF qe this assms(4)]
  have "drop (DNS_HEADER_SIZE + length qe) data = ae @ []" using data hl by simp
  note a = read_written_records [OF ae this assms(5)]
  have h: "slice_int data 0 = Inr (dns_id m)" "slice_int data 2 = Inr (dns_flags m)" "slice_int data 4 = Inr ?nq"
    "slice_int data 6 = Inr ?na" "slice_int data 8 = Inr (0 :: u16)" "slice_int data 10 = Inr (0 :: u16)"
    by (rule slice_u16_drop, simp add: data header_def eval_nat_numeral)+
  show ?thesis
    using hl assms(6,7) a unfolding dns_from_bytes_def h rbind_simps n q by (simp add: data)
qed

text \<open>
  The rule that compression pointers point backwards does not exclude cycles, contrary to the comment
  in \<open>_decode_name\<close>. In the four-byte name below the label at offset 0 is followed by a pointer back to
  offset 0: each turn of the loop is accepted, and after two turns the position is where it was. Only the cap
  on jumps ends the walk, after sixteen rounds.
\<close>

lemma dns_pointer_cycle:
  "\<exists>s1 s2. name_step [1, 97, 0xc0, 0] \<lparr>nc_name = [], nc_position = 0, nc_jumps = 0, nc_resume_at = None\<rparr> = Inr (Name_more s1)
     \<and> name_step [1, 97, 0xc0, 0] s1 = Inr (Name_more s2)
     \<and> nc_position s2 = 0 \<and> nc_jumps s2 = 1"
  by (simp add: name_step_def follow_pointer_def take_label_eq Let_def COMPRESSION_MASK_def OFFSET_MASK_def
      MAX_LABEL_LENGTH_def MAX_NAME_LENGTH_def MAX_COMPRESSION_JUMPS_def)

lemma dns_roundtrip_witness:
  "\<exists>data. dns_to_bytes (dns_new\<lparr>dns_id := 7, dns_questions := [\<lparr>q_name = ''a.bc'', q_type = 1, q_class = 1\<rparr>]\<rparr>) = Inr data
     \<and> dns_from_bytes data = Inr (dns_new\<lparr>dns_id := 7, dns_questions := [\<lparr>q_name = ''a.bc'', q_type = 1, q_class = 1\<rparr>]\<rparr>)"
proof -
  let ?m = "dns_new\<lparr>dns_id := 7, dns_questions := [\<lparr>q_name = ''a.bc'', q_type = 1, q_class = 1\<rparr>]\<rparr>"
  obtain data where "dns_to_bytes ?m = Inr data"
    by (simp add: dns_to_bytes_def dns_new_def encode_name_def encode_name_loop.simps MAX_LABEL_LENGTH_def MAX_NAME_LENGTH_def
        append_int_eq Let_def)
  with dns_roundtrip [OF this] show ?thesis by (simp add: dns_new_def undotted_def)
qed

end
