(* ===== verification/Dns_Resolver.thy ===== *)
theory Dns_Resolver
  imports Keyed_Store Dns_Codec Isn_Generator "HOL-Library.Char_ord" "HOL-Library.List_Lexorder"
begin

text \<open>
  The stub resolver (\<open>dns_resolver.cpp\<close>, \<open>dns_resolver.h\<close>). The two \<open>std::map\<close> members are association
  lists in key order. A \<open>ResolvedFn\<close> is represented by a number; what the resolver hands to its owner (a query
  to send, a port to release, an answer to a callback) is appended to \<open>rs_actions\<close> in the order of the calls.
\<close>

section \<open>State\<close>

record dns_pending =
  pd_name :: string
  pd_transaction_id :: u16
  pd_source_port :: u16
  pd_server_index :: nat
  pd_attempts :: nat
  pd_timeout_ms_remaining :: int
  pd_cname_depth :: nat
  pd_callbacks :: "nat list"

record dns_cache_entry =
  ce_addresses :: "ipv4 list"
  ce_ms_remaining :: int

datatype dns_action = Dns_send ipv4 u16 bytes | Dns_release u16 | Dns_resolved nat string "ipv4 list"

record dns_resolver =
  rs_id_entropy :: u32
  rs_port_entropy :: u32
  rs_servers :: "ipv4 list"
  rs_pending :: "(u16 \<times> dns_pending) list"
  rs_cache :: "(string \<times> dns_cache_entry) list"
  rs_actions :: "dns_action list"

definition QUERY_TIMEOUT_MS :: int where "QUERY_TIMEOUT_MS = 2000"
definition ATTEMPTS_PER_SERVER :: nat where "ATTEMPTS_PER_SERVER = 2"
definition MAX_CNAME_DEPTH :: nat where "MAX_CNAME_DEPTH = 8"
definition MIN_CACHE_MS :: int where "MIN_CACHE_MS = 1000"
definition MAX_CACHE_MS :: int where "MAX_CACHE_MS = 3600000"
definition MAX_CACHE_ENTRIES :: nat where "MAX_CACHE_ENTRIES = 256"
definition DNS_FIRST_EPHEMERAL_PORT :: u16 where "DNS_FIRST_EPHEMERAL_PORT = 49152"
definition DNS_SERVER_PORT :: u16 where "DNS_SERVER_PORT = 53"
definition ID_KEY_LOW :: u64 where "ID_KEY_LOW = 0x5344cafe12345678"
definition ID_KEY_HIGH :: u64 where "ID_KEY_HIGH = 0x4e53beef9abcdef0"
definition PORT_KEY_LOW :: u64 where "PORT_KEY_LOW = 0x504f52541a2b3c4d"
definition PORT_KEY_HIGH :: u64 where "PORT_KEY_HIGH = 0x444e53005e6f7a8b"

definition dns_resolver_new :: "u32 \<Rightarrow> dns_resolver" where
  "dns_resolver_new random_seed =
     \<lparr>rs_id_entropy = random_seed, rs_port_entropy = random_seed XOR 0x9e3779b9, rs_servers = [], rs_pending = [],
      rs_cache = [], rs_actions = []\<rparr>"

definition dns_act :: "dns_action \<Rightarrow> dns_resolver \<Rightarrow> dns_resolver" where
  "dns_act a r = r\<lparr>rs_actions := rs_actions r @ [a]\<rparr>"

definition set_servers :: "ipv4 list \<Rightarrow> dns_resolver \<Rightarrow> dns_resolver" where
  "set_servers servers r = r\<lparr>rs_servers := servers\<rparr>"

section \<open>Names, ids and ports\<close>

definition lower :: "char \<Rightarrow> char" where
  "lower c = (if CHR ''A'' \<le> c \<and> c \<le> CHR ''Z'' then char_of (of_char c - of_char (CHR ''A'') + of_char (CHR ''a'') :: nat) else c)"

definition normalise :: "string \<Rightarrow> string" where
  "normalise name = rev (dropWhile (\<lambda>c. c = CHR ''.'') (rev (map lower name)))"

definition advance :: "u32 \<Rightarrow> u64 \<Rightarrow> u64 \<Rightarrow> u32" where
  "advance state key_low key_high =
     ucast (siphash_2_4 [ucast (drop_bit 24 state), ucast (drop_bit 16 state), ucast (drop_bit 8 state), ucast state]
              key_low key_high)"

definition next_transaction_id :: "dns_resolver \<Rightarrow> u16 \<times> dns_resolver" where
  "next_transaction_id r =
     (let e = advance (rs_id_entropy r) ID_KEY_LOW ID_KEY_HIGH
      in (ucast (drop_bit 16 e), r\<lparr>rs_id_entropy := e\<rparr>))"

fun source_port_loop :: "nat \<Rightarrow> dns_resolver \<Rightarrow> u16 option \<times> dns_resolver" where
  "source_port_loop 0 r = (None, r)"
| "source_port_loop (Suc attempts) r =
     (let e = advance (rs_port_entropy r) PORT_KEY_LOW PORT_KEY_HIGH;
          r = r\<lparr>rs_port_entropy := e\<rparr>;
          port = ucast (ucast DNS_FIRST_EPHEMERAL_PORT + e mod (65536 - ucast DNS_FIRST_EPHEMERAL_PORT))
      in if map_of (rs_pending r) port = None then (Some port, r) else source_port_loop attempts r)"

definition next_source_port :: "dns_resolver \<Rightarrow> u16 option \<times> dns_resolver" where
  "next_source_port r = source_port_loop 64 r"

section \<open>Queries\<close>

definition query_message :: "dns_pending \<Rightarrow> dns" where
  "query_message q =
     (let message = dns_new\<lparr>dns_id := pd_transaction_id q\<rparr>;
          message = dns_set_response False message;
          message = dns_set_recursion_desired True message
      in dns_add_question \<lparr>q_name = pd_name q, q_type = DNS_TYPE_A, q_class = DNS_CLASS_IN\<rparr> message)"

text \<open>
  \<open>_send_query\<close> is given a reference into \<open>_pending\<close>; here it is the entry and the port it is stored under.
  \<open>_servers[i]\<close> is unchecked. A name \<open>to_bytes\<close> refuses is caught and logged, so nothing is sent.
\<close>

definition send_query :: "u16 \<Rightarrow> dns_pending \<Rightarrow> dns_resolver \<Rightarrow> dns_resolver outcome" where
  "send_query port q r =
     (let q = q\<lparr>pd_attempts := pd_attempts q + 1, pd_timeout_ms_remaining := QUERY_TIMEOUT_MS\<rparr>;
          r = r\<lparr>rs_pending := om_update port q (rs_pending r)\<rparr>
      in if pd_server_index q \<ge> length (rs_servers r) then (r, Some UndefinedBehaviour)
         else (case dns_to_bytes (query_message q) of
                 Inl e \<Rightarrow> (r, None)
               | Inr payload \<Rightarrow> (dns_act (Dns_send (rs_servers r ! pd_server_index q) (pd_source_port q) payload) r, None)))"

definition dns_release :: "u16 \<Rightarrow> dns_resolver \<Rightarrow> dns_resolver" where
  "dns_release source_port r = dns_act (Dns_release source_port) (r\<lparr>rs_pending := AList.delete source_port (rs_pending r)\<rparr>)"

definition dns_finish :: "dns_pending \<Rightarrow> ipv4 list \<Rightarrow> dns_resolver \<Rightarrow> dns_resolver" where
  "dns_finish q addresses r =
     fold (\<lambda>callback. dns_act (Dns_resolved callback (pd_name q) addresses)) (pd_callbacks q)
       (dns_release (pd_source_port q) r)"

definition retry_or_fail :: "u16 \<Rightarrow> dns_pending \<Rightarrow> dns_resolver \<Rightarrow> dns_resolver outcome" where
  "retry_or_fail port q r =
     (if pd_attempts q < ATTEMPTS_PER_SERVER then send_query port q r
      else
        let q = q\<lparr>pd_server_index := pd_server_index q + 1, pd_attempts := 0\<rparr>
        in if pd_server_index q < length (rs_servers r) then send_query port q r
           else (dns_finish q [] r, None))"

fun joins :: "string \<Rightarrow> nat \<Rightarrow> (u16 \<times> dns_pending) list \<Rightarrow> (u16 \<times> dns_pending) list option" where
  "joins key callback [] = None"
| "joins key callback ((port, q) # rest) =
     (if pd_name q = key then Some ((port, q\<lparr>pd_callbacks := pd_callbacks q @ [callback]\<rparr>) # rest)
      else map_option ((#) (port, q)) (joins key callback rest))"

definition resolve :: "string \<Rightarrow> nat \<Rightarrow> dns_resolver \<Rightarrow> dns_resolver outcome" where
  "resolve name callback r =
     (let key = normalise name in
      case map_of (rs_cache r) key of
        Some entry \<Rightarrow> (dns_act (Dns_resolved callback name (ce_addresses entry)) r, None)
      | None \<Rightarrow>
        (case joins key callback (rs_pending r) of
           Some pending \<Rightarrow> (r\<lparr>rs_pending := pending\<rparr>, None)
         | None \<Rightarrow>
           if rs_servers r = [] then (dns_act (Dns_resolved callback name []) r, None)
           else
             let (transaction_id, r) = next_transaction_id r in
             (case next_source_port r of
                (None, r) \<Rightarrow> (r, Some BaseException)
              | (Some port, r) \<Rightarrow>
                  send_query port
                    \<lparr>pd_name = key, pd_transaction_id = transaction_id, pd_source_port = port, pd_server_index = 0,
                     pd_attempts = 0, pd_timeout_ms_remaining = QUERY_TIMEOUT_MS, pd_cname_depth = 0,
                     pd_callbacks = [callback]\<rparr> r)))"

section \<open>Replies\<close>

fun collect_answers :: "dns_record list \<Rightarrow> ipv4 list \<Rightarrow> string \<Rightarrow> (ipv4 list \<times> string) result" where
  "collect_answers [] addresses alias = Inr (addresses, alias)"
| "collect_answers (record # rest) addresses alias =
     (if r_class record \<noteq> DNS_CLASS_IN then collect_answers rest addresses alias
      else if r_type record = DNS_TYPE_A \<and> length (r_rdata record) = 4
      then rbind (record_address record) (\<lambda>a. collect_answers rest (addresses @ [a]) alias)
      else if r_type record = DNS_TYPE_CNAME \<and> alias = []
      then collect_answers rest addresses (normalise (r_target record))
      else collect_answers rest addresses alias)"

fun shortest_ttl :: "dns_record list \<Rightarrow> u32 \<Rightarrow> u32" where
  "shortest_ttl [] ttl = ttl"
| "shortest_ttl (record # rest) ttl =
     shortest_ttl rest
       (if r_type record = DNS_TYPE_A then (if ttl = 0 then r_ttl record else min ttl (r_ttl record)) else ttl)"

definition cache_lifetime :: "u32 \<Rightarrow> int" where
  "cache_lifetime ttl = max MIN_CACHE_MS (min MAX_CACHE_MS (sint (min ttl (of_int (MAX_CACHE_MS div 1000)) * 1000)))"

fun soonest :: "(string \<times> dns_cache_entry) list \<Rightarrow> string \<Rightarrow> int \<Rightarrow> string" where
  "soonest [] best ms = best"
| "soonest ((name, entry) # rest) best ms =
     (if ce_ms_remaining entry < ms then soonest rest name (ce_ms_remaining entry) else soonest rest best ms)"

definition evict_soonest :: "(string \<times> dns_cache_entry) list \<Rightarrow> (string \<times> dns_cache_entry) list" where
  "evict_soonest cache =
     (case cache of
        [] \<Rightarrow> []
      | (name, entry) # rest \<Rightarrow> AList.delete (soonest rest name (ce_ms_remaining entry)) cache)"

definition cache_answer :: "string \<Rightarrow> ipv4 list \<Rightarrow> u32 \<Rightarrow> dns_resolver \<Rightarrow> dns_resolver" where
  "cache_answer name addresses ttl r =
     (let cache = (if length (rs_cache r) \<ge> MAX_CACHE_ENTRIES then evict_soonest (rs_cache r) else rs_cache r)
      in r\<lparr>rs_cache := om_update name \<lparr>ce_addresses = addresses, ce_ms_remaining = cache_lifetime ttl\<rparr> cache\<rparr>)"

definition follow_alias :: "string \<Rightarrow> u16 \<Rightarrow> dns_pending \<Rightarrow> dns_resolver \<Rightarrow> dns_resolver outcome" where
  "follow_alias alias destination_port q r =
     (let r = dns_release destination_port r;
          (transaction_id, r) = next_transaction_id r
      in case next_source_port r of
           (None, r) \<Rightarrow> (r, Some BaseException)
         | (Some port, r) \<Rightarrow>
             send_query port
               (q\<lparr>pd_name := alias, pd_transaction_id := transaction_id, pd_source_port := port, pd_server_index := 0,
                  pd_attempts := 0, pd_cname_depth := pd_cname_depth q + 1\<rparr>) r)"

definition accept_answers :: "u16 \<Rightarrow> dns_pending \<Rightarrow> dns \<Rightarrow> dns_resolver \<Rightarrow> dns_resolver outcome" where
  "accept_answers port q message r =
     (case collect_answers (dns_answers message) [] [] of
        Inl e \<Rightarrow> (r, Some e)
      | Inr (addresses, alias) \<Rightarrow>
          if addresses = [] \<and> alias \<noteq> [] then
            if pd_cname_depth q \<ge> MAX_CNAME_DEPTH then (dns_finish q [] r, None)
            else follow_alias alias port q r
          else
            let r = (if addresses \<noteq> [] then cache_answer (pd_name q) addresses (shortest_ttl (dns_answers message) 0) r else r)
            in (dns_finish q addresses r, None))"

definition dns_on_datagram :: "ipv4 \<Rightarrow> u16 \<Rightarrow> u16 \<Rightarrow> bytes \<Rightarrow> dns_resolver \<Rightarrow> dns_resolver outcome" where
  "dns_on_datagram source source_port destination_port payload r =
     (case map_of (rs_pending r) destination_port of
        None \<Rightarrow> (r, None)
      | Some q \<Rightarrow>
          if source_port \<noteq> DNS_SERVER_PORT then (r, None)
          else if pd_server_index q \<ge> length (rs_servers r) then (r, Some UndefinedBehaviour)
          else if source \<noteq> rs_servers r ! pd_server_index q then (r, None)
          else
            (case dns_from_bytes payload of
               Inl BaseException \<Rightarrow> (r, None)
             | Inl e \<Rightarrow> (r, Some e)
             | Inr message \<Rightarrow>
                 if \<not> dns_is_response message \<or> dns_id message \<noteq> pd_transaction_id q then (r, None)
                 else if dns_questions message = [] \<or> normalise (q_name (hd (dns_questions message))) \<noteq> pd_name q then (r, None)
                 else if dns_is_truncated message then (dns_finish q [] r, None)
                 else if dns_response_code message \<noteq> DNS_RCODE_NO_ERROR then
                   if dns_response_code message = DNS_RCODE_NAME_ERROR then (dns_finish q [] r, None)
                   else retry_or_fail destination_port q r
                 else accept_answers destination_port q message r))"

section \<open>Time\<close>

definition age_cache :: "u32 \<Rightarrow> (string \<times> dns_cache_entry) list \<Rightarrow> (string \<times> dns_cache_entry) list" where
  "age_cache elapsed_ms cache =
     filter (\<lambda>(name, entry). ce_ms_remaining entry > 0)
       (map (\<lambda>(name, entry). (name, entry\<lparr>ce_ms_remaining := ce_ms_remaining entry - sint elapsed_ms\<rparr>)) cache)"

definition age_pending :: "u32 \<Rightarrow> (u16 \<times> dns_pending) list \<Rightarrow> (u16 \<times> dns_pending) list" where
  "age_pending elapsed_ms =
     map (\<lambda>(port, q). (port, q\<lparr>pd_timeout_ms_remaining := pd_timeout_ms_remaining q - sint elapsed_ms\<rparr>))"

fun expire_queries :: "u16 list \<Rightarrow> dns_resolver \<Rightarrow> dns_resolver outcome" where
  "expire_queries [] r = (r, None)"
| "expire_queries (port # ports) r =
     (case map_of (rs_pending r) port of
        None \<Rightarrow> expire_queries ports r
      | Some q \<Rightarrow> and_then (retry_or_fail port q r) (expire_queries ports))"

definition dns_on_time_passed :: "u32 \<Rightarrow> dns_resolver \<Rightarrow> dns_resolver outcome" where
  "dns_on_time_passed elapsed_ms r =
     (let pending = age_pending elapsed_ms (rs_pending r);
          r = r\<lparr>rs_cache := age_cache elapsed_ms (rs_cache r), rs_pending := pending\<rparr>
      in expire_queries (map fst (filter (\<lambda>(port, q). pd_timeout_ms_remaining q \<le> 0) pending)) r)"

section \<open>Invariant\<close>

definition query_ok :: "u16 \<times> dns_pending \<Rightarrow> bool" where
  "query_ok e \<longleftrightarrow> pd_source_port (snd e) = fst e \<and> fst e \<ge> DNS_FIRST_EPHEMERAL_PORT \<and> pd_callbacks (snd e) \<noteq> []
     \<and> 0 < pd_attempts (snd e) \<and> pd_attempts (snd e) \<le> ATTEMPTS_PER_SERVER \<and> pd_cname_depth (snd e) \<le> MAX_CNAME_DEPTH
     \<and> pd_timeout_ms_remaining (snd e) \<le> QUERY_TIMEOUT_MS"

definition cached_ok :: "string \<times> dns_cache_entry \<Rightarrow> bool" where
  "cached_ok e \<longleftrightarrow> ce_addresses (snd e) \<noteq> [] \<and> 0 < ce_ms_remaining (snd e) \<and> ce_ms_remaining (snd e) \<le> MAX_CACHE_MS"

definition cache_inv :: "(string \<times> dns_cache_entry) list \<Rightarrow> bool" where
  "cache_inv cache \<longleftrightarrow> ordered_keys cache \<and> list_all cached_ok cache \<and> length cache \<le> MAX_CACHE_ENTRIES"

definition pending_inv :: "(u16 \<times> dns_pending) list \<Rightarrow> bool" where
  "pending_inv pending \<longleftrightarrow> ordered_keys pending \<and> list_all query_ok pending"

definition resolver_inv :: "dns_resolver \<Rightarrow> bool" where
  "resolver_inv r \<longleftrightarrow> pending_inv (rs_pending r) \<and> cache_inv (rs_cache r)"

definition outstanding :: "dns_resolver \<Rightarrow> nat multiset" where
  "outstanding r = sum_list (map (\<lambda>e. mset (pd_callbacks (snd e))) (rs_pending r))"

fun callback_of :: "dns_action \<Rightarrow> nat list" where
  "callback_of (Dns_resolved callback name addresses) = [callback]"
| "callback_of (Dns_send server port payload) = []"
| "callback_of (Dns_release port) = []"

definition answered :: "dns_resolver \<Rightarrow> nat multiset" where
  "answered r = mset (concat (map callback_of (rs_actions r)))"

text \<open>Every callback the resolver was given and has not lost.\<close>

definition held_callbacks :: "dns_resolver \<Rightarrow> nat multiset" where
  "held_callbacks r = answered r + outstanding r"

lemma act_fields [simp]:
  "rs_pending (dns_act a r) = rs_pending r" "rs_cache (dns_act a r) = rs_cache r" "rs_servers (dns_act a r) = rs_servers r"
  "outstanding (dns_act a r) = outstanding r" "answered (dns_act a r) = answered r + mset (callback_of a)"
  by (simp_all add: dns_act_def outstanding_def answered_def)

lemma act_fold_fields [simp]:
  "rs_pending (fold (\<lambda>c. dns_act (f c)) cs r) = rs_pending r" "rs_cache (fold (\<lambda>c. dns_act (f c)) cs r) = rs_cache r"
  "rs_servers (fold (\<lambda>c. dns_act (f c)) cs r) = rs_servers r" "outstanding (fold (\<lambda>c. dns_act (f c)) cs r) = outstanding r"
  by (induction cs arbitrary: r) simp_all

lemma answered_fold: "answered (fold (\<lambda>c. dns_act (Dns_resolved c n a)) cs r) = answered r + mset cs"
  by (induction cs arbitrary: r) simp_all

lemma resolver_frame [simp]:
  "answered (r\<lparr>rs_pending := p\<rparr>) = answered r" "answered (r\<lparr>rs_cache := x\<rparr>) = answered r"
  "answered (r\<lparr>rs_id_entropy := i\<rparr>) = answered r" "answered (r\<lparr>rs_port_entropy := i\<rparr>) = answered r"
  "answered (r\<lparr>rs_servers := s\<rparr>) = answered r"
  "outstanding (r\<lparr>rs_cache := x\<rparr>) = outstanding r" "outstanding (r\<lparr>rs_id_entropy := i\<rparr>) = outstanding r"
  "outstanding (r\<lparr>rs_port_entropy := i\<rparr>) = outstanding r" "outstanding (r\<lparr>rs_servers := s\<rparr>) = outstanding r"
  by (simp_all add: answered_def outstanding_def)

lemma outstanding_mset: "outstanding r = \<Sum>\<^sub># (image_mset (\<lambda>e. mset (pd_callbacks (snd e))) (mset (rs_pending r)))"
  unfolding outstanding_def by (simp only: sum_mset_sum_list flip: mset_map)

lemma outstanding_delete:
  assumes "ordered_keys (rs_pending r)" "map_of (rs_pending r) p = Some q"
  shows "outstanding r = outstanding (r\<lparr>rs_pending := AList.delete p (rs_pending r)\<rparr>) + mset (pd_callbacks q)"
  unfolding outstanding_mset by (simp add: ordered_store.mset_delete [OF assms])

lemma outstanding_update:
  assumes "ordered_keys (rs_pending r)"
  shows "outstanding (r\<lparr>rs_pending := om_update p q (rs_pending r)\<rparr>)
       = outstanding (r\<lparr>rs_pending := AList.delete p (rs_pending r)\<rparr>) + mset (pd_callbacks q)"
  unfolding outstanding_mset by (simp add: ordered_store.mset_upd [OF assms])

lemma pending_delete: "pending_inv m \<Longrightarrow> pending_inv (AList.delete p m)"
  by (auto simp: pending_inv_def list_all_iff delete_ordered dest: set_alist_delete)

lemma pending_update: "pending_inv m \<Longrightarrow> query_ok (p, q) \<Longrightarrow> pending_inv (om_update p q m)"
  by (auto simp: pending_inv_def list_all_iff om_update_ordered ordered_store.set_upd)

lemma pending_found: "pending_inv m \<Longrightarrow> map_of m p = Some q \<Longrightarrow> query_ok (p, q)"
  by (auto simp: pending_inv_def list_all_iff dest: map_of_SomeD)

section \<open>Every operation keeps the invariant and every callback\<close>

text \<open>A step that keeps the invariant and hands over or keeps every callback it was given.\<close>

definition keeps :: "nat multiset \<Rightarrow> dns_resolver \<Rightarrow> dns_resolver \<Rightarrow> bool" where
  "keeps given r r' \<longleftrightarrow> resolver_inv r' \<and> held_callbacks r' = held_callbacks r + given \<and> rs_servers r' = rs_servers r"

lemma keeps_trans: "keeps a r s \<Longrightarrow> keeps b s t \<Longrightarrow> keeps (a + b) r t"
  by (simp add: keeps_def ac_simps)

text \<open>Putting a query into the table and sending it, when its callbacks are not in the table already.\<close>

lemma send_query_keeps:
  assumes r: "resolver_inv r"
    and q: "pd_source_port q = port" "port \<ge> DNS_FIRST_EPHEMERAL_PORT" "pd_callbacks q \<noteq> []"
      "pd_attempts q < ATTEMPTS_PER_SERVER" "pd_cname_depth q \<le> MAX_CNAME_DEPTH"
    and send: "send_query port q r = (r', None)"
  shows "resolver_inv r' \<and> rs_servers r' = rs_servers r
    \<and> held_callbacks r' = held_callbacks (r\<lparr>rs_pending := AList.delete port (rs_pending r)\<rparr>) + mset (pd_callbacks q)"
proof -
  define q' where "q' = q\<lparr>pd_attempts := pd_attempts q + 1, pd_timeout_ms_remaining := QUERY_TIMEOUT_MS\<rparr>"
  define s where "s = r\<lparr>rs_pending := om_update port q' (rs_pending r)\<rparr>"
  have ok: "query_ok (port, q')" using q by (simp add: query_ok_def q'_def)
  have ord: "ordered_keys (rs_pending r)" using r by (simp add: resolver_inv_def pending_inv_def)
  have inv: "resolver_inv s" using r pending_update [OF _ ok] by (simp add: resolver_inv_def s_def)
  have "held_callbacks s = held_callbacks (r\<lparr>rs_pending := AList.delete port (rs_pending r)\<rparr>) + mset (pd_callbacks q)"
    unfolding held_callbacks_def s_def outstanding_update [OF ord] by (simp add: q'_def)
  moreover have "r' = s \<or> (\<exists>x y z. r' = dns_act (Dns_send x y z) s)"
    using send unfolding send_query_def Let_def q'_def [symmetric] s_def [symmetric]
    by (auto split: if_splits sum.splits)
  moreover have "rs_servers s = rs_servers r" by (simp add: s_def)
  ultimately show ?thesis using inv by (auto simp: resolver_inv_def held_callbacks_def)
qed

lemma finish_keeps:
  assumes "resolver_inv r" "map_of (rs_pending r) port = Some q" "pd_source_port q' = port" "pd_callbacks q' = pd_callbacks q"
  shows "keeps {#} r (dns_finish q' addresses r)"
proof -
  have "ordered_keys (rs_pending r)" using assms(1) by (simp add: resolver_inv_def pending_inv_def)
  from outstanding_delete [OF this assms(2)] show ?thesis
    using assms(1) pending_delete assms(3,4)
    by (simp add: keeps_def resolver_inv_def held_callbacks_def dns_finish_def dns_release_def answered_fold)
qed

lemma retry_keeps:
  assumes r: "resolver_inv r" and q: "map_of (rs_pending r) port = Some q" and run: "retry_or_fail port q r = (r', None)"
  shows "keeps {#} r r'"
proof -
  have inv: "pending_inv (rs_pending r)" and ord: "ordered_keys (rs_pending r)"
    using r by (simp_all add: resolver_inv_def pending_inv_def)
  have ok: "query_ok (port, q)" by (rule pending_found [OF inv q])
  have same: "held_callbacks r = held_callbacks (r\<lparr>rs_pending := AList.delete port (rs_pending r)\<rparr>) + mset (pd_callbacks q)"
    unfolding held_callbacks_def outstanding_delete [OF ord q] by simp
  define q2 where "q2 = q\<lparr>pd_server_index := pd_server_index q + 1, pd_attempts := 0\<rparr>"
  have "pd_attempts q < ATTEMPTS_PER_SERVER \<and> send_query port q r = (r', None)
      \<or> send_query port q2 r = (r', None) \<or> dns_finish q2 [] r = r'"
    using run unfolding retry_or_fail_def Let_def q2_def [symmetric] by (simp split: if_splits)
  then consider "pd_attempts q < ATTEMPTS_PER_SERVER" "send_query port q r = (r', None)"
    | "send_query port q2 r = (r', None)" | "dns_finish q2 [] r = r'" by blast
  then show ?thesis
  proof cases
    case 1
    from send_query_keeps [OF r _ _ _ 1(1) _ 1(2)] ok same show ?thesis by (simp add: query_ok_def keeps_def)
  next
    case 2
    from send_query_keeps [OF r _ _ _ _ _ 2] ok same show ?thesis
      by (simp add: query_ok_def keeps_def q2_def ATTEMPTS_PER_SERVER_def)
  next
    case 3
    have "keeps {#} r (dns_finish q2 [] r)" by (rule finish_keeps [OF r q]) (use ok in \<open>simp_all add: q2_def query_ok_def\<close>)
    then show ?thesis using 3 by simp
  qed
qed

lemma ephemeral_port:
  "(ucast (ucast DNS_FIRST_EPHEMERAL_PORT + e mod (65536 - ucast DNS_FIRST_EPHEMERAL_PORT) :: u32) :: u16) \<ge> DNS_FIRST_EPHEMERAL_PORT"
proof -
  have "unat (e mod 16384 :: u32) < 16384" by (simp add: unat_mod_distrib)
  then have "unat (49152 + e mod 16384 :: u32) = 49152 + unat (e mod 16384)"
    by (subst unat_numeral_add_less) simp_all
  then have "unat (ucast (49152 + e mod 16384 :: u32) :: u16) = 49152 + unat (e mod 16384)"
    using \<open>_ < 16384\<close> by (simp add: unsigned_ucast_eq take_bit_nat_eq_self)
  then show ?thesis unfolding word_le_nat_alt by (simp add: DNS_FIRST_EPHEMERAL_PORT_def)
qed

lemma source_port_loop_ok:
  "source_port_loop n r = (p, r') \<Longrightarrow> \<exists>e. r' = r\<lparr>rs_port_entropy := e\<rparr> \<and>
     (\<forall>port. p = Some port \<longrightarrow> map_of (rs_pending r) port = None \<and> port \<ge> DNS_FIRST_EPHEMERAL_PORT)"
proof (induction n arbitrary: r)
  case 0
  then show ?case by (auto intro: exI [of _ "rs_port_entropy r"])
next
  case (Suc n)
  define e where "e = advance (rs_port_entropy r) PORT_KEY_LOW PORT_KEY_HIGH"
  define port :: u16 where "port = ucast (ucast DNS_FIRST_EPHEMERAL_PORT + e mod (65536 - ucast DNS_FIRST_EPHEMERAL_PORT))"
  have "port \<ge> DNS_FIRST_EPHEMERAL_PORT" unfolding port_def by (rule ephemeral_port)
  moreover have "(if map_of (rs_pending r) port = None then (Some port, r\<lparr>rs_port_entropy := e\<rparr>)
      else source_port_loop n (r\<lparr>rs_port_entropy := e\<rparr>)) = (p, r')"
    using Suc.prems unfolding source_port_loop.simps Let_def e_def [symmetric] port_def [symmetric] by simp
  ultimately show ?case using Suc.IH [of "r\<lparr>rs_port_entropy := e\<rparr>"] by (auto split: if_splits)
qed

lemma next_source_port_ok:
  assumes "next_source_port r = (Some port, r')"
  shows "\<exists>e. r' = r\<lparr>rs_port_entropy := e\<rparr>" "map_of (rs_pending r) port = None" "port \<ge> DNS_FIRST_EPHEMERAL_PORT"
  using source_port_loop_ok [of 64 r "Some port" r'] assms by (auto simp: next_source_port_def)

lemma resolver_inv_frame [simp]:
  "resolver_inv (r\<lparr>rs_port_entropy := e\<rparr>) = resolver_inv r" "resolver_inv (r\<lparr>rs_id_entropy := e\<rparr>) = resolver_inv r"
  "resolver_inv (dns_act a r) = resolver_inv r" "resolver_inv (r\<lparr>rs_servers := s\<rparr>) = resolver_inv r"
  "held_callbacks (r\<lparr>rs_port_entropy := e\<rparr>) = held_callbacks r" "held_callbacks (r\<lparr>rs_id_entropy := e\<rparr>) = held_callbacks r"
  "held_callbacks (r\<lparr>rs_servers := s\<rparr>) = held_callbacks r" "held_callbacks (r\<lparr>rs_cache := x\<rparr>) = held_callbacks r"
  by (simp_all add: resolver_inv_def held_callbacks_def)

text \<open>A fresh query on a fresh port.\<close>

lemma fresh_query_keeps:
  assumes r: "resolver_inv r" and port: "next_source_port r = (Some port, r1)"
    and q: "pd_source_port q = port" "pd_callbacks q \<noteq> []" "pd_attempts q = 0" "pd_cname_depth q \<le> MAX_CNAME_DEPTH"
    and send: "send_query port q r1 = (r', None)"
  shows "keeps (mset (pd_callbacks q)) r r'"
proof -
  obtain e where r1: "r1 = r\<lparr>rs_port_entropy := e\<rparr>" using next_source_port_ok(1) [OF port] by blast
  have "AList.delete port (rs_pending r1) = rs_pending r1"
    using next_source_port_ok(2) [OF port] by (simp add: delete_id map_of_eq_None_iff r1)
  moreover have "resolver_inv r1" using r by (simp add: r1)
  moreover have "held_callbacks r1 = held_callbacks r" "rs_servers r1 = rs_servers r" by (simp_all add: r1)
  moreover have "r1\<lparr>rs_pending := rs_pending r1\<rparr> = r1" by simp
  ultimately show ?thesis
    using send_query_keeps [OF _ q(1) next_source_port_ok(3) [OF port] q(2) _ q(4) send] q(3)
    by (simp add: keeps_def ATTEMPTS_PER_SERVER_def)
qed

lemma joins_keeps:
  assumes "joins key callback m = Some m'" "pending_inv m"
  shows "pending_inv m' \<and> sum_list (map (\<lambda>e. mset (pd_callbacks (snd e))) m')
    = sum_list (map (\<lambda>e. mset (pd_callbacks (snd e))) m) + {#callback#} \<and> map fst m' = map fst m"
  using assms
proof (induction m arbitrary: m')
  case (Cons e m)
  obtain p q where e: "e = (p, q)" by (cases e)
  have inv: "query_ok (p, q)" "pending_inv m" using Cons.prems(2) by (simp_all add: pending_inv_def ordered_keys_def e)
  show ?case
  proof (cases "pd_name q = key")
    case True
    then show ?thesis using Cons.prems inv by (auto simp: e pending_inv_def ordered_keys_def query_ok_def)
  next
    case False
    then obtain m2 where m2: "joins key callback m = Some m2" "m' = (p, q) # m2" using Cons.prems by (auto simp: e)
    from Cons.IH [OF m2(1) inv(2)] show ?thesis
      using Cons.prems(2) inv(1) by (simp add: m2(2) e pending_inv_def ordered_keys_def)
  qed
qed simp

lemma resolve_keeps:
  assumes r: "resolver_inv r" and run: "resolve name callback r = (r', None)"
  shows "keeps {#callback#} r r'"
proof -
  let ?key = "normalise name"
  show ?thesis
  proof (cases "map_of (rs_cache r) ?key")
    case (Some entry)
    then have "r' = dns_act (Dns_resolved callback name (ce_addresses entry)) r"
      using run by (simp add: resolve_def)
    then show ?thesis using r by (simp add: keeps_def held_callbacks_def)
  next
    case not_cached: None
    show ?thesis
    proof (cases "joins ?key callback (rs_pending r)")
      case (Some pending)
      then have "r' = r\<lparr>rs_pending := pending\<rparr>" using run not_cached by (simp add: resolve_def)
      then show ?thesis
        using joins_keeps [OF Some] r by (simp add: keeps_def resolver_inv_def held_callbacks_def outstanding_def)
    next
      case None
      show ?thesis
      proof (cases "rs_servers r = []")
        case True
        then have "r' = dns_act (Dns_resolved callback name []) r" using run not_cached None by (simp add: resolve_def)
        then show ?thesis using r by (simp add: keeps_def held_callbacks_def)
      next
        case False
        obtain i r0 where i: "next_transaction_id r = (i, r0)" by (cases "next_transaction_id r")
        then obtain e where r0: "r0 = r\<lparr>rs_id_entropy := e\<rparr>" by (auto simp: next_transaction_id_def Let_def)
        have "\<exists>port r1. next_source_port r0 = (Some port, r1)
            \<and> send_query port \<lparr>pd_name = ?key, pd_transaction_id = i, pd_source_port = port, pd_server_index = 0,
                     pd_attempts = 0, pd_timeout_ms_remaining = QUERY_TIMEOUT_MS, pd_cname_depth = 0,
                     pd_callbacks = [callback]\<rparr> r1 = (r', None)"
          using run not_cached None False i by (auto simp: resolve_def split: prod.splits option.splits)
        then obtain port r1 where p: "next_source_port r0 = (Some port, r1)"
          and s: "send_query port \<lparr>pd_name = ?key, pd_transaction_id = i, pd_source_port = port, pd_server_index = 0,
                     pd_attempts = 0, pd_timeout_ms_remaining = QUERY_TIMEOUT_MS, pd_cname_depth = 0,
                     pd_callbacks = [callback]\<rparr> r1 = (r', None)" by blast
        have "resolver_inv r0" using r by (simp add: r0)
        from fresh_query_keeps [OF this p _ _ _ _ s] have "keeps {#callback#} r0 r'" by simp
        then show ?thesis by (simp add: keeps_def r0)
      qed
    qed
  qed
qed

lemma follow_alias_keeps:
  assumes r: "resolver_inv r" and q: "map_of (rs_pending r) port = Some q" "pd_cname_depth q < MAX_CNAME_DEPTH"
    and run: "follow_alias alias port q r = (r', None)"
  shows "keeps {#} r r'"
proof -
  have inv: "pending_inv (rs_pending r)" and ord: "ordered_keys (rs_pending r)"
    using r by (simp_all add: resolver_inv_def pending_inv_def)
  have ok: "query_ok (port, q)" by (rule pending_found [OF inv q(1)])
  let ?s = "dns_release port r"
  have rel: "resolver_inv ?s" "held_callbacks r = held_callbacks ?s + mset (pd_callbacks q)" "rs_servers ?s = rs_servers r"
    using r pending_delete outstanding_delete [OF ord q(1)]
    by (simp_all add: dns_release_def resolver_inv_def held_callbacks_def)
  obtain i r0 where i: "next_transaction_id ?s = (i, r0)" by (cases "next_transaction_id ?s")
  then obtain e where r0: "r0 = ?s\<lparr>rs_id_entropy := e\<rparr>" by (auto simp: next_transaction_id_def Let_def)
  have "\<exists>p r1. next_source_port r0 = (Some p, r1)
      \<and> send_query p (q\<lparr>pd_name := alias, pd_transaction_id := i, pd_source_port := p, pd_server_index := 0,
                  pd_attempts := 0, pd_cname_depth := pd_cname_depth q + 1\<rparr>) r1 = (r', None)"
    using run i by (auto simp: follow_alias_def Let_def split: prod.splits option.splits)
  then obtain p r1 where p: "next_source_port r0 = (Some p, r1)"
    and s: "send_query p (q\<lparr>pd_name := alias, pd_transaction_id := i, pd_source_port := p, pd_server_index := 0,
                  pd_attempts := 0, pd_cname_depth := pd_cname_depth q + 1\<rparr>) r1 = (r', None)" by blast
  have "resolver_inv r0" using rel(1) by (simp add: r0)
  from fresh_query_keeps [OF this p _ _ _ _ s] have "keeps (mset (pd_callbacks q)) r0 r'"
    using ok q(2) by (simp add: query_ok_def)
  then show ?thesis using rel by (simp add: keeps_def r0)
qed

lemma soonest_in: "soonest rest best ms \<in> insert best (fst ` set rest)"
  by (induction rest best ms rule: soonest.induct) auto

lemma evict_shrinks:
  assumes "ordered_keys cache" "cache \<noteq> []"
  shows "length (evict_soonest cache) < length cache"
proof -
  obtain name entry rest where c: "cache = (name, entry) # rest" using assms(2) by (cases cache) auto
  let ?k = "soonest rest name (ce_ms_remaining entry)"
  have "?k \<in> fst ` set cache" using soonest_in [of rest name] by (auto simp: c)
  then obtain v where "map_of cache ?k = Some v" by (metis map_of_eq_None_iff not_None_eq)
  from ordered_store.mset_delete [OF assms(1) this] have "length cache = Suc (length (AList.delete ?k cache))"
    by (metis size_add_mset size_mset)
  then show ?thesis by (simp add: evict_soonest_def c)
qed

lemma evict_inv: "cache_inv cache \<Longrightarrow> cache_inv (evict_soonest cache)"
proof -
  assume inv: "cache_inv cache"
  have "\<exists>k. evict_soonest cache = AList.delete k cache" by (cases cache) (auto simp: evict_soonest_def)
  then obtain k where k: "evict_soonest cache = AList.delete k cache" by blast
  have "length (AList.delete k cache) \<le> length cache" by (rule length_delete_le)
  then show ?thesis using inv unfolding k by (auto simp: cache_inv_def delete_ordered list_all_iff dest: set_alist_delete)
qed

lemma cache_lifetime_bounds: "MIN_CACHE_MS \<le> cache_lifetime ttl" "cache_lifetime ttl \<le> MAX_CACHE_MS"
  by (simp_all add: cache_lifetime_def MIN_CACHE_MS_def MAX_CACHE_MS_def)

lemma cache_answer_inv:
  assumes "cache_inv (rs_cache r)" "addresses \<noteq> []"
  shows "cache_inv (rs_cache (cache_answer name addresses ttl r))"
proof -
  define cache where "cache = (if length (rs_cache r) \<ge> MAX_CACHE_ENTRIES then evict_soonest (rs_cache r) else rs_cache r)"
  have inv: "cache_inv cache" using assms(1) evict_inv by (simp add: cache_def)
  have "rs_cache r \<noteq> []" if "length (rs_cache r) \<ge> MAX_CACHE_ENTRIES" using that by (auto simp: MAX_CACHE_ENTRIES_def)
  then have room: "length cache < MAX_CACHE_ENTRIES"
    using assms(1) evict_shrinks [of "rs_cache r"] by (auto simp: cache_def cache_inv_def)
  let ?e = "\<lparr>ce_addresses = addresses, ce_ms_remaining = cache_lifetime ttl\<rparr>"
  have "cached_ok (name, ?e)"
    using assms(2) cache_lifetime_bounds [of ttl] by (simp add: cached_ok_def MIN_CACHE_MS_def)
  then have "cache_inv (om_update name ?e cache)"
    using inv room by (auto simp: cache_inv_def om_update_ordered list_all_iff ordered_store.set_upd ordered_store.size_upd)
  then show ?thesis by (simp add: cache_answer_def cache_def Let_def)
qed

lemma cache_answer_fields [simp]:
  "rs_pending (cache_answer n a t r) = rs_pending r" "rs_servers (cache_answer n a t r) = rs_servers r"
  "held_callbacks (cache_answer n a t r) = held_callbacks r"
  by (simp_all add: cache_answer_def Let_def)

lemma accept_answers_keeps:
  assumes r: "resolver_inv r" and q: "map_of (rs_pending r) port = Some q"
    and run: "accept_answers port q message r = (r', None)"
  shows "keeps {#} r r'"
proof -
  have src: "pd_source_port q = port"
    using pending_found [OF _ q] r by (simp add: resolver_inv_def query_ok_def)
  obtain addresses al where c: "collect_answers (dns_answers message) [] [] = Inr (addresses, al)"
    using run by (auto simp: accept_answers_def split: sum.splits)
  define s where "s = (if addresses \<noteq> [] then cache_answer (pd_name q) addresses (shortest_ttl (dns_answers message) 0) r else r)"
  have s: "resolver_inv s" "map_of (rs_pending s) port = Some q" "held_callbacks s = held_callbacks r" "rs_servers s = rs_servers r"
    using r q cache_answer_inv by (simp_all add: s_def resolver_inv_def)
  have fin: "keeps {#} s (dns_finish q x s)" for x by (rule finish_keeps [OF s(1,2) src refl])
  show ?thesis
  proof (cases "addresses = [] \<and> al \<noteq> []")
    case True
    then show ?thesis
      using run c finish_keeps [OF r q src refl, of "[]"] follow_alias_keeps [OF r q, of al r']
      by (auto simp: accept_answers_def split: if_splits)
  next
    case False
    then have "r' = dns_finish q addresses s" using run c by (auto simp: accept_answers_def s_def Let_def split: if_splits)
    then show ?thesis using fin [of addresses] s by (simp add: keeps_def)
  qed
qed

lemma keeps_refl: "resolver_inv r \<Longrightarrow> keeps {#} r r"
  by (simp add: keeps_def)

lemma on_datagram_keeps:
  assumes r: "resolver_inv r" and run: "dns_on_datagram source sport dport payload r = (r', None)"
  shows "keeps {#} r r'"
proof (cases "map_of (rs_pending r) dport")
  case None
  then show ?thesis using run keeps_refl [OF r] by (simp add: dns_on_datagram_def)
next
  case (Some q)
  have src: "pd_source_port q = dport"
    using pending_found [OF _ Some] r by (simp add: resolver_inv_def query_ok_def)
  note steps = keeps_refl finish_keeps [OF r Some src refl] retry_keeps [OF r Some] accept_answers_keeps [OF r Some]
  from run Some r show ?thesis
    unfolding dns_on_datagram_def by (auto intro: steps split: if_splits sum.splits cpp_error.splits)
qed

lemma age_cache_inv: "cache_inv cache \<Longrightarrow> 0 \<le> sint ms \<Longrightarrow> cache_inv (age_cache ms cache)"
proof -
  assume inv: "cache_inv cache" and ms: "0 \<le> sint ms"
  have "ordered_keys (age_cache ms cache)"
    using inv unfolding cache_inv_def age_cache_def by (intro filter_ordered) (simp add: map_ordered case_prod_unfold)
  then show ?thesis using inv ms
    by (auto simp: cache_inv_def age_cache_def list_all_iff cached_ok_def intro!: order_trans [OF length_filter_le])
qed

lemma age_pending_inv: "pending_inv pending \<Longrightarrow> 0 \<le> sint ms \<Longrightarrow> pending_inv (age_pending ms pending)"
  by (auto simp: pending_inv_def age_pending_def map_ordered list_all_iff query_ok_def case_prod_unfold)

lemma age_pending_callbacks:
  "sum_list (map (\<lambda>e. mset (pd_callbacks (snd e))) (age_pending ms pending))
   = sum_list (map (\<lambda>e. mset (pd_callbacks (snd e))) pending)"
  by (simp add: age_pending_def o_def case_prod_unfold)

lemma expire_keeps: "resolver_inv r \<Longrightarrow> expire_queries ports r = (r', None) \<Longrightarrow> keeps {#} r r'"
proof (induction ports arbitrary: r)
  case (Cons port ports)
  show ?case
  proof (cases "map_of (rs_pending r) port")
    case None
    then show ?thesis using Cons by simp
  next
    case (Some q)
    then obtain s where s: "retry_or_fail port q r = (s, None)" "expire_queries ports s = (r', None)"
      using Cons.prems(2) by (auto simp: and_then_None)
    have k: "keeps {#} r s" by (rule retry_keeps [OF Cons.prems(1) Some s(1)])
    then have "resolver_inv s" by (simp add: keeps_def)
    from keeps_trans [OF k Cons.IH [OF this s(2)]] show ?thesis by simp
  qed
qed (simp add: keeps_refl)

lemma on_time_keeps:
  assumes r: "resolver_inv r" and ms: "0 \<le> sint ms" and run: "dns_on_time_passed ms r = (r', None)"
  shows "keeps {#} r r'"
proof -
  let ?s = "r\<lparr>rs_cache := age_cache ms (rs_cache r), rs_pending := age_pending ms (rs_pending r)\<rparr>"
  have "resolver_inv ?s" using r ms age_cache_inv age_pending_inv by (simp add: resolver_inv_def)
  from expire_keeps [OF this] run have "keeps {#} ?s r'" by (simp add: dns_on_time_passed_def Let_def)
  then show ?thesis by (simp add: keeps_def held_callbacks_def outstanding_def age_pending_callbacks)
qed

section \<open>Runs\<close>

datatype dns_event = Resolve string nat | Datagram ipv4 u16 u16 bytes | Time_passed u32 | Servers "ipv4 list"

fun dns_step :: "dns_event \<Rightarrow> dns_resolver \<Rightarrow> dns_resolver outcome" where
  "dns_step (Resolve name callback) r = resolve name callback r"
| "dns_step (Datagram source sport dport payload) r = dns_on_datagram source sport dport payload r"
| "dns_step (Time_passed ms) r = dns_on_time_passed ms r"
| "dns_step (Servers servers) r = (set_servers servers r, None)"

fun dns_run :: "dns_event list \<Rightarrow> dns_resolver \<Rightarrow> dns_resolver outcome" where
  "dns_run [] r = (r, None)"
| "dns_run (e # es) r = and_then (dns_step e r) (dns_run es)"

fun event_callback :: "dns_event \<Rightarrow> nat multiset" where
  "event_callback (Resolve name callback) = {#callback#}"
| "event_callback (Datagram source sport dport payload) = {#}"
| "event_callback (Time_passed ms) = {#}"
| "event_callback (Servers servers) = {#}"

fun dns_event_ok :: "dns_event \<Rightarrow> bool" where
  "dns_event_ok (Time_passed ms) = (unat ms < 2 ^ 31)"
| "dns_event_ok (Resolve name callback) = True"
| "dns_event_ok (Datagram source sport dport payload) = True"
| "dns_event_ok (Servers servers) = True"

lemma dns_step_keeps:
  assumes "resolver_inv r" "dns_event_ok e" "dns_step e r = (r', None)"
  shows "resolver_inv r' \<and> held_callbacks r' = held_callbacks r + event_callback e"
proof (cases e)
  case (Resolve n c)
  then show ?thesis using resolve_keeps assms by (simp add: keeps_def)
next
  case (Datagram s p d b)
  then show ?thesis using on_datagram_keeps assms by (fastforce simp: keeps_def)
next
  case (Time_passed ms)
  then have "0 \<le> sint ms" using assms(2) by (simp add: sint_small)
  then show ?thesis using Time_passed on_time_keeps [OF assms(1)] assms(3) by (simp add: keeps_def)
next
  case (Servers s)
  then show ?thesis using assms by (auto simp: set_servers_def)
qed

text \<open>
  The source port search gives up after 64 draws and throws. In \<open>resolve()\<close> the callback has not been stored
  yet; in the alias branch of \<open>on_datagram()\<close> the query has already been moved out of the table, and its
  callbacks go with it. These are the callbacks of a throwing step that nobody will call.
\<close>

definition no_free_port :: "dns_resolver \<Rightarrow> bool" where
  "no_free_port r \<longleftrightarrow> fst (next_source_port (snd (next_transaction_id r))) = None"

fun dns_lost :: "dns_event \<Rightarrow> dns_resolver \<Rightarrow> nat multiset" where
  "dns_lost (Resolve name callback) r = (if no_free_port r then {#callback#} else {#})"
| "dns_lost (Datagram source sport dport payload) r =
     (case map_of (rs_pending r) dport of
        Some q \<Rightarrow> if no_free_port (dns_release dport r) then mset (pd_callbacks q) else {#}
      | None \<Rightarrow> {#})"
| "dns_lost (Time_passed ms) r = {#}"
| "dns_lost (Servers servers) r = {#}"

text \<open>
  The resolver in service: its owner catches a \<open>BaseException\<close> and goes on with the next event, and only
  undefined behaviour ends the run. The first result collects the callbacks of the throwing steps.
\<close>

fun dns_serve :: "dns_event list \<Rightarrow> dns_resolver \<Rightarrow> nat multiset \<times> dns_resolver outcome" where
  "dns_serve [] r = ({#}, r, None)"
| "dns_serve (e # es) r =
     (case dns_step e r of
        (s, None) \<Rightarrow> dns_serve es s
      | (s, Some BaseException) \<Rightarrow> (let (lost, m) = dns_serve es s in (dns_lost e r + lost, m))
      | (s, Some UndefinedBehaviour) \<Rightarrow> ({#}, s, Some UndefinedBehaviour))"

lemma send_query_throws: "send_query port q r \<noteq> (r', Some BaseException)"
  by (simp add: send_query_def Let_def split: sum.split)

lemma retry_throws: "retry_or_fail port q r \<noteq> (r', Some BaseException)"
  by (simp add: retry_or_fail_def Let_def send_query_throws)

lemma expire_throws: "expire_queries ports r \<noteq> (r', Some BaseException)"
proof (induction ports arbitrary: r)
  case (Cons port ports)
  then show ?case using retry_throws by (auto simp: and_then_def split: option.split prod.split)
qed simp

lemma transaction_id_frame: "\<exists>e. snd (next_transaction_id r) = r\<lparr>rs_id_entropy := e\<rparr>"
  by (auto simp: next_transaction_id_def Let_def)

lemma no_port_frame:
  assumes "next_transaction_id r = (i, r0)" "next_source_port r0 = (None, r')"
  shows "no_free_port r" "\<exists>e e'. r' = r\<lparr>rs_id_entropy := e, rs_port_entropy := e'\<rparr>"
proof -
  show "no_free_port r" using assms by (simp add: no_free_port_def)
  obtain e where r0: "r0 = r\<lparr>rs_id_entropy := e\<rparr>" using transaction_id_frame [of r] assms(1) by auto
  obtain e' where "r' = r0\<lparr>rs_port_entropy := e'\<rparr>"
    using source_port_loop_ok [of 64 r0 None r'] assms(2) by (auto simp: next_source_port_def)
  then show "\<exists>e e'. r' = r\<lparr>rs_id_entropy := e, rs_port_entropy := e'\<rparr>" by (auto simp: r0)
qed

lemma resolve_throws:
  assumes "resolve name callback r = (r', Some BaseException)"
  shows "no_free_port r \<and> (\<exists>e e'. r' = r\<lparr>rs_id_entropy := e, rs_port_entropy := e'\<rparr>)"
proof -
  obtain i r0 where i: "next_transaction_id r = (i, r0)" by (cases "next_transaction_id r")
  have "next_source_port r0 = (None, r')"
    using assms i send_query_throws
    by (auto simp: resolve_def Let_def split: option.splits if_splits prod.splits)
  then show ?thesis using no_port_frame [OF i] by blast
qed

text \<open>An alias that finds no free port takes the waiting callbacks with it.\<close>

lemma follow_alias_throws:
  assumes r: "resolver_inv r" and q: "map_of (rs_pending r) port = Some q"
    and run: "follow_alias al port q r = (r', Some BaseException)"
  shows "no_free_port (dns_release port r) \<and> resolver_inv r' \<and> held_callbacks r = held_callbacks r' + mset (pd_callbacks q)"
proof -
  have ord: "ordered_keys (rs_pending r)" using r by (simp add: resolver_inv_def pending_inv_def)
  let ?s = "dns_release port r"
  have rel: "resolver_inv ?s" "held_callbacks r = held_callbacks ?s + mset (pd_callbacks q)"
    using r pending_delete outstanding_delete [OF ord q] by (simp_all add: dns_release_def resolver_inv_def held_callbacks_def)
  obtain i r0 where i: "next_transaction_id ?s = (i, r0)" by (cases "next_transaction_id ?s")
  have "next_source_port r0 = (None, r')"
    using run i send_query_throws by (auto simp: follow_alias_def Let_def split: option.splits prod.splits)
  from no_port_frame [OF i this] rel show ?thesis by auto
qed

lemma collect_total: "\<exists>x. collect_answers rs a al = Inr x"
proof (induction rs a al rule: collect_answers.induct)
  case (2 rec rest addresses al)
  have "\<exists>x. record_address rec = Inr x" if "length (r_rdata rec) = 4"
    using that by (auto simp: record_address_def ipv4_of_bytes_def length_Suc_conv eval_nat_numeral)
  then show ?case using 2 by (fastforce split: if_splits)
qed simp

lemma datagram_throws:
  assumes r: "resolver_inv r" and run: "dns_on_datagram source sport dport payload r = (r', Some BaseException)"
  shows "\<exists>q. map_of (rs_pending r) dport = Some q \<and> no_free_port (dns_release dport r) \<and> resolver_inv r'
    \<and> held_callbacks r = held_callbacks r' + mset (pd_callbacks q)"
proof -
  obtain q where q: "map_of (rs_pending r) dport = Some q"
    using run by (cases "map_of (rs_pending r) dport") (auto simp: dns_on_datagram_def)
  obtain m where "accept_answers dport q m r = (r', Some BaseException)"
    using run q retry_throws unfolding dns_on_datagram_def by (auto split: if_splits sum.splits cpp_error.splits)
  moreover obtain x where "collect_answers (dns_answers m) [] [] = Inr x" using collect_total by blast
  ultimately obtain al where "follow_alias al dport q r = (r', Some BaseException)"
    by (cases x) (auto simp: accept_answers_def Let_def split: if_splits)
  from follow_alias_throws [OF r q this] q show ?thesis by blast
qed

lemma dns_step_throws:
  assumes "resolver_inv r" "dns_step e r = (r', Some BaseException)"
  shows "resolver_inv r' \<and> held_callbacks r' + dns_lost e r = held_callbacks r + event_callback e"
proof (cases e)
  case (Resolve n c)
  then show ?thesis using resolve_throws [of n c r r'] assms by auto
next
  case (Datagram s p d b)
  then show ?thesis using datagram_throws [of r s p d b r'] assms by auto
next
  case (Time_passed ms)
  then show ?thesis using assms expire_throws by (auto simp: dns_on_time_passed_def Let_def)
next
  case (Servers s)
  then show ?thesis using assms by simp
qed

lemma dns_serve_keeps:
  "dns_serve es r = (lost, r', None) \<Longrightarrow> resolver_inv r \<Longrightarrow> list_all dns_event_ok es \<Longrightarrow>
     resolver_inv r' \<and> held_callbacks r' + lost = held_callbacks r + sum_list (map event_callback es)"
proof (induction es arbitrary: r lost)
  case (Cons e es)
  obtain s x where s: "dns_step e r = (s, x)" by (cases "dns_step e r")
  consider "x = None" | "x = Some BaseException" | "x = Some UndefinedBehaviour" by (cases x) (auto intro: cpp_error.exhaust)
  then show ?case
  proof cases
    case 1
    with dns_step_keeps [OF Cons.prems(2), of e s] Cons.IH [of s lost] Cons.prems s show ?thesis by (simp add: ac_simps)
  next
    case 2
    obtain l m where lm: "dns_serve es s = (l, m)" by (cases "dns_serve es s")
    then have "m = (r', None)" "lost = dns_lost e r + l" using Cons.prems(1) s 2 by simp_all
    with dns_step_throws [OF Cons.prems(2), of e s] Cons.IH [of s l] Cons.prems(3) s 2 lm show ?thesis
      by (simp add: ac_simps) (metis add.assoc add.commute)
  next
    case 3
    then show ?thesis using Cons.prems(1) s by simp
  qed
qed simp

lemma dns_run_serve: "dns_run es r = (r', None) \<Longrightarrow> dns_serve es r = ({#}, r', None)"
  by (induction es arbitrary: r) (auto simp: and_then_None)

lemma resolver_inv_new: "resolver_inv (dns_resolver_new seed)" "held_callbacks (dns_resolver_new seed) = {#}"
  by (simp_all add: dns_resolver_new_def resolver_inv_def pending_inv_def cache_inv_def ordered_keys_def held_callbacks_def
      answered_def outstanding_def)

section \<open>Giving up\<close>

text \<open>
  The time a query can still take when no clock tick is longer than \<open>m\<close> ms: the running timeout, two seconds
  for each transmission still to come, and for each of them the part of a tick by which its end is noticed late.
\<close>

definition sends_left :: "nat \<Rightarrow> dns_pending \<Rightarrow> nat" where
  "sends_left n q = 2 * (n - 1 - pd_server_index q) + (2 - pd_attempts q)"

definition later_ms :: "nat \<Rightarrow> nat \<Rightarrow> dns_pending \<Rightarrow> nat" where
  "later_ms n m q = (2000 + m) * sends_left n q"

definition sent_ok :: "nat \<Rightarrow> dns_pending \<Rightarrow> bool" where
  "sent_ok n q \<longleftrightarrow> pd_server_index q < n \<and> 0 < pd_attempts q \<and> pd_attempts q \<le> 2"

definition live :: "nat \<Rightarrow> dns_pending \<Rightarrow> bool" where
  "live n q \<longleftrightarrow> sent_ok n q \<and> 0 < pd_timeout_ms_remaining q"

definition waits :: "nat \<Rightarrow> nat \<Rightarrow> nat \<Rightarrow> dns_pending \<Rightarrow> bool" where
  "waits n m k q \<longleftrightarrow> live n q \<and> later_ms n m q + nat (pd_timeout_ms_remaining q) + m \<le> k"

lemma sent_waits:
  assumes "sent_ok n q'" "sends_left n q = Suc (sends_left n q')" "later_ms n m q \<le> k"
    and "pd_timeout_ms_remaining q' = QUERY_TIMEOUT_MS"
  shows "waits n m k q'"
  using assms by (simp add: waits_def live_def later_ms_def QUERY_TIMEOUT_MS_def)

lemma send_query_table:
  assumes "pd_server_index q < length (rs_servers r)"
  shows "\<exists>r'. send_query port q r = (r', None) \<and> rs_servers r' = rs_servers r
    \<and> rs_pending r' = om_update port (q\<lparr>pd_attempts := pd_attempts q + 1, pd_timeout_ms_remaining := QUERY_TIMEOUT_MS\<rparr>) (rs_pending r)"
  using assms by (auto simp: send_query_def Let_def split: sum.splits)

lemma retry_table:
  assumes "sent_ok (length (rs_servers r)) q" "later_ms (length (rs_servers r)) m q \<le> k" "pd_source_port q = port"
  shows "\<exists>r'. retry_or_fail port q r = (r', None) \<and> rs_servers r' = rs_servers r
    \<and> (rs_pending r' = AList.delete port (rs_pending r)
       \<or> (\<exists>q'. rs_pending r' = om_update port q' (rs_pending r) \<and> waits (length (rs_servers r)) m k q' \<and> pd_source_port q' = port))"
proof -
  let ?n = "length (rs_servers r)"
  let ?q2 = "q\<lparr>pd_server_index := pd_server_index q + 1, pd_attempts := 0\<rparr>"
  let ?sent = "\<lambda>q. q\<lparr>pd_attempts := pd_attempts q + 1, pd_timeout_ms_remaining := QUERY_TIMEOUT_MS\<rparr>"
  have "pd_attempts q = 1 \<or> pd_attempts q = 2" using assms(1) by (auto simp: sent_ok_def)
  then consider "pd_attempts q = 1" | "pd_attempts q = 2" "pd_server_index ?q2 < ?n" | "pd_attempts q = 2" "\<not> pd_server_index ?q2 < ?n" by blast
  then show ?thesis
  proof cases
    case 1
    then have "waits ?n m k (?sent q)" using assms(1) by (intro sent_waits [OF _ _ assms(2)]) (simp_all add: sent_ok_def sends_left_def)
    moreover obtain r' where "send_query port q r = (r', None)" "rs_servers r' = rs_servers r"
      "rs_pending r' = om_update port (?sent q) (rs_pending r)"
      using send_query_table [of q r port] assms(1) by (auto simp: sent_ok_def)
    ultimately show ?thesis
      using 1 assms(3) by (intro exI [of _ r'] conjI disjI2 exI [of _ "?sent q"]) (simp_all add: retry_or_fail_def ATTEMPTS_PER_SERVER_def)
  next
    case 2
    then have "waits ?n m k (?sent ?q2)"
      by (intro sent_waits [OF _ _ assms(2)]) (auto simp: sent_ok_def sends_left_def)
    moreover obtain r' where "send_query port ?q2 r = (r', None)" "rs_servers r' = rs_servers r"
      "rs_pending r' = om_update port (?sent ?q2) (rs_pending r)"
      using send_query_table [of ?q2 r port] 2(2) by auto
    ultimately show ?thesis
      using 2 assms(3) by (intro exI [of _ r'] conjI disjI2 exI [of _ "?sent ?q2"]) (simp_all add: retry_or_fail_def ATTEMPTS_PER_SERVER_def)
  next
    case 3
    then show ?thesis
      using assms(3) by (simp add: retry_or_fail_def ATTEMPTS_PER_SERVER_def dns_finish_def dns_release_def)
  qed
qed

lemma expire_table:
  assumes "ordered_keys (rs_pending r)" "distinct ports"
    and "\<forall>(p, q) \<in> set (rs_pending r). pd_source_port q = p
      \<and> (p \<in> set ports \<longrightarrow> sent_ok n q \<and> later_ms n m q \<le> k) \<and> (p \<notin> set ports \<longrightarrow> waits n m k q)"
    and "length (rs_servers r) = n"
  shows "\<exists>r'. expire_queries ports r = (r', None) \<and> rs_servers r' = rs_servers r
    \<and> (\<forall>(p, q) \<in> set (rs_pending r'). waits n m k q)"
  using assms
proof (induction ports arbitrary: r)
  case (Cons port ports)
  show ?case
  proof (cases "map_of (rs_pending r) port")
    case None
    then have "\<forall>(p, q) \<in> set (rs_pending r). p \<noteq> port" by (force simp: map_of_eq_None_iff)
    then show ?thesis using Cons None by (fastforce intro!: Cons.IH)
  next
    case (Some q)
    then have q: "sent_ok n q" "later_ms n m q \<le> k" "pd_source_port q = port"
      using Cons.prems(3) map_of_SomeD [OF Some] by auto
    from retry_table [of r q m k port] obtain s where s: "retry_or_fail port q r = (s, None)" "rs_servers s = rs_servers r"
      and t: "rs_pending s = AList.delete port (rs_pending r)
       \<or> (\<exists>q'. rs_pending s = om_update port q' (rs_pending r) \<and> waits n m k q' \<and> pd_source_port q' = port)"
      using q Cons.prems(4) by auto
    have ord: "ordered_keys (rs_pending s)"
      using t Cons.prems(1) by (auto simp: delete_ordered om_update_ordered)
    have "\<forall>(p, q) \<in> set (rs_pending s). pd_source_port q = p
      \<and> (p \<in> set ports \<longrightarrow> sent_ok n q \<and> later_ms n m q \<le> k) \<and> (p \<notin> set ports \<longrightarrow> waits n m k q)"
      using t Cons.prems(1-3) by (auto simp: ordered_store.set_upd ordered_store.set_delete)
    with Cons.IH [OF ord] Cons.prems(2,4) s obtain r' where
      "expire_queries ports s = (r', None)" "rs_servers r' = rs_servers s" "\<forall>(p, q) \<in> set (rs_pending r'). waits n m k q"
      by auto
    then show ?thesis using Some s by auto
  qed
qed auto

lemma tick_table:
  assumes inv: "resolver_inv r" and w: "\<forall>(p, q) \<in> set (rs_pending r). waits n m (k + unat ms) q"
    and n: "length (rs_servers r) = n" and ms: "unat ms \<le> m" "m < 2 ^ 31"
  shows "\<exists>r'. dns_on_time_passed ms r = (r', None) \<and> rs_servers r' = rs_servers r
    \<and> (\<forall>(p, q) \<in> set (rs_pending r'). waits n m k q)"
proof -
  let ?pending = "age_pending ms (rs_pending r)"
  let ?s = "r\<lparr>rs_cache := age_cache ms (rs_cache r), rs_pending := ?pending\<rparr>"
  let ?ports = "map fst (filter (\<lambda>(port, q). pd_timeout_ms_remaining q \<le> 0) ?pending)"
  have t: "sint ms = int (unat ms)" using ms by (intro sint_small) simp
  have "ordered_keys (rs_pending r)" using inv by (simp add: resolver_inv_def pending_inv_def)
  then have ord: "ordered_keys ?pending" by (simp add: age_pending_def map_ordered case_prod_unfold)
  have keys: "distinct (map fst ?pending)" by (rule ordered_distinct [OF ord])
  have "distinct ?ports" using keys by (simp add: distinct_map_filter)
  moreover have "p \<in> set ?ports \<longleftrightarrow> pd_timeout_ms_remaining q \<le> 0" if "(p, q) \<in> set ?pending" for p q
    using that keys by (auto simp: image_iff dest: eq_key_imp_eq_value)
  moreover have "pd_source_port q = p \<and> sent_ok n q \<and> later_ms n m q \<le> k
      \<and> (0 < pd_timeout_ms_remaining q \<longrightarrow> waits n m k q)" if "(p, q) \<in> set ?pending" for p q
  proof -
    from that obtain q0 where q0: "(p, q0) \<in> set (rs_pending r)"
      "q = q0\<lparr>pd_timeout_ms_remaining := pd_timeout_ms_remaining q0 - sint ms\<rparr>" by (auto simp: age_pending_def)
    define d where "d = unat ms"
    have "waits n m (k + d) q0" using w q0(1) by (auto simp: d_def)
    moreover have "pd_source_port q0 = p" using inv q0(1) by (auto simp: resolver_inv_def pending_inv_def list_all_iff query_ok_def)
    moreover have "later_ms n m q = later_ms n m q0" "sent_ok n q = sent_ok n q0" by (simp_all add: q0(2) later_ms_def sends_left_def sent_ok_def)
    moreover have "pd_timeout_ms_remaining q = pd_timeout_ms_remaining q0 - int d" by (simp add: q0(2) t d_def)
    moreover have "pd_source_port q = pd_source_port q0" by (simp add: q0(2))
    moreover have "d \<le> m" using ms(1) by (simp add: d_def)
    ultimately show ?thesis unfolding waits_def live_def by auto
  qed
  ultimately have "\<exists>r'. expire_queries ?ports ?s = (r', None) \<and> rs_servers r' = rs_servers ?s
      \<and> (\<forall>(p, q) \<in> set (rs_pending r'). waits n m k q)"
    using ord n by (intro expire_table) (auto simp: not_le)
  then show ?thesis by (simp add: dns_on_time_passed_def Let_def)
qed

lemma ticks_table:
  assumes "resolver_inv r" "\<forall>(p, q) \<in> set (rs_pending r). waits (length (rs_servers r)) m (sum_list (map unat ts)) q"
    and "list_all (\<lambda>ms. unat ms \<le> m) ts" "m < 2 ^ 31"
  shows "\<exists>r'. dns_run (map Time_passed ts) r = (r', None) \<and> resolver_inv r' \<and> held_callbacks r' = held_callbacks r
    \<and> rs_pending r' = []"
  using assms
proof (induction ts arbitrary: r)
  case Nil
  have "rs_pending r = []" using Nil.prems(2) by (cases "rs_pending r") (auto simp: waits_def live_def)
  then show ?case using Nil.prems(1) by simp
next
  case (Cons ms ts)
  then obtain s where s: "dns_on_time_passed ms r = (s, None)" "rs_servers s = rs_servers r"
    "\<forall>(p, q) \<in> set (rs_pending s). waits (length (rs_servers s)) m (sum_list (map unat ts)) q"
    using tick_table [of r "length (rs_servers r)" m "sum_list (map unat ts)" ms] by (auto simp: add.commute)
  have "0 \<le> sint ms" using Cons.prems(3,4) by (simp add: sint_small)
  from on_time_keeps [OF Cons.prems(1) this s(1)] have k: "resolver_inv s" "held_callbacks s = held_callbacks r"
    by (simp_all add: keeps_def)
  with Cons.IH [OF k(1) s(3)] Cons.prems(3,4) s(1) show ?case by auto
qed

section \<open>A list of servers that never shrinks\<close>

definition table_inv :: "nat \<Rightarrow> dns_resolver \<Rightarrow> bool" where
  "table_inv n r \<longleftrightarrow> length (rs_servers r) = n \<and> ordered_keys (rs_pending r)
     \<and> (\<forall>(p, q) \<in> set (rs_pending r). live n q \<and> pd_source_port q = p)"

definition stays :: "nat \<Rightarrow> dns_resolver outcome \<Rightarrow> bool" where
  "stays n m \<longleftrightarrow> table_inv n (fst m) \<and> snd m \<noteq> Some UndefinedBehaviour"

lemma stays_simps [simp]:
  "stays n (r, None) = table_inv n r" "stays n (r, Some BaseException) = table_inv n r"
  by (simp_all add: stays_def)

lemma table_frame [simp]:
  "table_inv n (dns_act a r) = table_inv n r" "table_inv n (r\<lparr>rs_port_entropy := e\<rparr>) = table_inv n r"
  "table_inv n (r\<lparr>rs_id_entropy := e\<rparr>) = table_inv n r" "table_inv n (r\<lparr>rs_cache := x\<rparr>) = table_inv n r"
  by (simp_all add: table_inv_def)

lemma table_act_fold [simp]: "table_inv n (fold (\<lambda>c. dns_act (f c)) cs r) = table_inv n r"
  by (simp add: table_inv_def)

lemma live_waits:
  assumes "live n q" "pd_timeout_ms_remaining q \<le> QUERY_TIMEOUT_MS" "2 * n * (2000 + m) \<le> k"
  shows "waits n m k q"
proof -
  let ?c = "2 * (n - 1 - pd_server_index q) + (2 - pd_attempts q)"
  have "?c + 1 \<le> 2 * n" using assms(1) by (auto simp: live_def sent_ok_def)
  then have "(2000 + m) * (?c + 1) \<le> (2000 + m) * (2 * n)" by (rule mult_le_mono2)
  moreover have "nat (pd_timeout_ms_remaining q) \<le> 2000" using assms(2) by (simp add: QUERY_TIMEOUT_MS_def)
  ultimately show ?thesis using assms(1,3) by (simp add: waits_def later_ms_def sends_left_def algebra_simps)
qed

lemma live_more_servers: "live n q \<Longrightarrow> n \<le> m \<Longrightarrow> live m q"
  by (simp add: live_def sent_ok_def)

lemma table_waits:
  assumes "table_inv n r" "resolver_inv r" "2 * n * (2000 + m) \<le> k"
  shows "\<forall>(p, q) \<in> set (rs_pending r). waits n m k q"
  using assms by (auto simp: table_inv_def resolver_inv_def pending_inv_def list_all_iff query_ok_def intro!: live_waits)

lemma table_servers: "table_inv n r \<Longrightarrow> n \<le> length servers \<Longrightarrow> table_inv (length servers) (set_servers servers r)"
  by (auto simp: table_inv_def set_servers_def intro: live_more_servers)

lemma table_release: "table_inv n r \<Longrightarrow> table_inv n (dns_release p r)"
  by (auto simp: dns_release_def table_inv_def delete_ordered dest: set_alist_delete)

lemma table_finish: "table_inv n r \<Longrightarrow> table_inv n (dns_finish q a r)"
  by (simp add: dns_finish_def table_release)

lemma send_query_stays:
  assumes "table_inv n r" "pd_server_index q < n" "pd_attempts q < 2" "pd_source_port q = port"
  shows "stays n (send_query port q r)"
proof -
  let ?q = "q\<lparr>pd_attempts := pd_attempts q + 1, pd_timeout_ms_remaining := QUERY_TIMEOUT_MS\<rparr>"
  have "live n ?q"
    using assms(2,3) by (auto simp: live_def sent_ok_def QUERY_TIMEOUT_MS_def)
  then have "table_inv n (r\<lparr>rs_pending := om_update port ?q (rs_pending r)\<rparr>)"
    using assms(1,4) by (auto simp: table_inv_def om_update_ordered ordered_store.set_upd)
  moreover have "\<not> length (rs_servers r) \<le> pd_server_index q" using assms(1,2) by (simp add: table_inv_def)
  ultimately show ?thesis by (auto simp: stays_def send_query_def Let_def split: sum.splits)
qed

lemma retry_stays:
  assumes "table_inv n r" "map_of (rs_pending r) port = Some q"
  shows "stays n (retry_or_fail port q r)"
proof -
  have "pd_server_index q < n" "pd_source_port q = port" "length (rs_servers r) = n"
    using assms map_of_SomeD [OF assms(2)] by (auto simp: table_inv_def live_def sent_ok_def)
  then show ?thesis
    unfolding retry_or_fail_def Let_def using assms(1)
    by (auto intro: send_query_stays simp: ATTEMPTS_PER_SERVER_def table_finish)
qed

lemma source_port_stays:
  assumes "table_inv n r" "\<And>port e. stays n (f port (r\<lparr>rs_port_entropy := e\<rparr>))"
  shows "stays n (case next_source_port r of (None, s) \<Rightarrow> (s, Some BaseException) | (Some port, s) \<Rightarrow> f port s)"
proof -
  obtain p s where ps: "next_source_port r = (p, s)" by (cases "next_source_port r")
  then obtain e where "s = r\<lparr>rs_port_entropy := e\<rparr>" using source_port_loop_ok [of 64 r p s] by (auto simp: next_source_port_def)
  then show ?thesis using ps assms by (cases p) (auto simp: stays_def)
qed

lemma joins_table:
  "joins key callback m = Some m' \<Longrightarrow> (\<forall>(p, q) \<in> set m. live n q \<and> pd_source_port q = p) \<Longrightarrow>
     (\<forall>(p, q) \<in> set m'. live n q \<and> pd_source_port q = p) \<and> map fst m' = map fst m"
proof (induction m arbitrary: m')
  case (Cons e m)
  then show ?case by (cases e) (auto simp: live_def sent_ok_def split: if_splits)
qed simp

lemma resolve_stays:
  assumes "table_inv n r"
  shows "stays n (resolve name callback r)"
proof -
  have "stays n (r\<lparr>rs_pending := m\<rparr>, None)" if "joins key callback (rs_pending r) = Some m" for key m
    using joins_table [OF that, of n] assms by (simp add: stays_def table_inv_def ordered_keys_def)
  moreover have "0 < n" if "rs_servers r \<noteq> []" using assms that by (auto simp: table_inv_def)
  ultimately show ?thesis
    using assms unfolding resolve_def next_transaction_id_def Let_def case_prod_conv
    by (auto split: option.split intro!: source_port_stays send_query_stays)
qed

lemma follow_alias_stays:
  assumes "table_inv n r" "0 < n"
  shows "stays n (follow_alias alias port q r)"
  unfolding follow_alias_def next_transaction_id_def Let_def case_prod_conv
  by (intro source_port_stays send_query_stays) (simp_all add: table_release assms)

lemma collect_safe: "collect_answers rs a al \<noteq> Inl UndefinedBehaviour"
proof (induction rs a al rule: collect_answers.induct)
  case (2 rec rest addresses al)
  have "record_address rec \<noteq> Inl UndefinedBehaviour"
    using no_ub_of_bytes(2) [of "r_rdata rec"] by (simp add: record_address_def no_ub_def)
  then show ?case using 2 by (cases "record_address rec") auto
qed simp

lemma datagram_stays:
  assumes "table_inv n r"
  shows "stays n (dns_on_datagram source sport dport payload r)"
proof (cases "map_of (rs_pending r) dport")
  case None
  then show ?thesis using assms by (simp add: dns_on_datagram_def stays_def)
next
  case (Some q)
  have n: "0 < n" "pd_server_index q < length (rs_servers r)"
    using assms map_of_SomeD [OF Some] by (auto simp: table_inv_def live_def sent_ok_def)
  have "stays n (accept_answers dport q m r)" for m
    using collect_safe [of "dns_answers m" "[]" "[]"] follow_alias_stays [OF assms n(1)] assms
    unfolding accept_answers_def Let_def
    by (auto simp: table_finish cache_answer_def Let_def split: sum.split prod.split) (metis cpp_error.exhaust stays_simps(2))
  then show ?thesis
    using Some n(2) assms retry_stays [OF assms Some] dns_from_bytes_safe [of payload]
    by (auto simp: dns_on_datagram_def table_finish split: sum.split cpp_error.split)
qed

lemma time_stays:
  assumes "table_inv n r" "resolver_inv r" "unat ms < 2 ^ 31"
  shows "stays n (dns_on_time_passed ms r)"
proof -
  let ?m = "unat ms"
  have n: "length (rs_servers r) = n" using assms(1) by (simp add: table_inv_def)
  obtain r' where r': "dns_on_time_passed ms r = (r', None)" "rs_servers r' = rs_servers r"
    "\<forall>(p, q) \<in> set (rs_pending r'). waits n ?m (2 * n * (2000 + ?m)) q"
    using tick_table [OF assms(2) table_waits [OF assms(1,2)] n, of ?m "2 * n * (2000 + ?m)"] assms(3) by auto
  have "0 \<le> sint ms" using assms(3) by (simp add: sint_small)
  from on_time_keeps [OF assms(2) this r'(1)] have "resolver_inv r'" by (simp add: keeps_def)
  then have "table_inv n r'"
    using r' n by (auto simp: table_inv_def waits_def resolver_inv_def pending_inv_def list_all_iff query_ok_def)
  then show ?thesis using r'(1) by simp
qed

fun servers_grow :: "nat \<Rightarrow> dns_event list \<Rightarrow> bool" where
  "servers_grow n [] = True"
| "servers_grow n (Servers servers # es) = (n \<le> length servers \<and> servers_grow (length servers) es)"
| "servers_grow n (e # es) = servers_grow n es"

lemma dns_step_stays:
  assumes "table_inv n r" "resolver_inv r" "dns_event_ok e" "servers_grow n (e # es)"
  shows "\<exists>m. stays m (dns_step e r) \<and> servers_grow m es"
proof (cases e)
  case (Servers servers)
  then show ?thesis using assms(4) table_servers [OF assms(1)] by auto
qed (use assms in \<open>auto intro!: exI [of _ n] resolve_stays datagram_stays time_stays\<close>)

lemma dns_serve_stays:
  "table_inv n r \<Longrightarrow> resolver_inv r \<Longrightarrow> list_all dns_event_ok es \<Longrightarrow> servers_grow n es \<Longrightarrow>
     \<exists>lost r'. dns_serve es r = (lost, r', None) \<and> table_inv (length (rs_servers r')) r'"
proof (induction es arbitrary: r n)
  case Nil
  then show ?case by (auto simp: table_inv_def)
next
  case (Cons e es)
  obtain s x where s: "dns_step e r = (s, x)" by (cases "dns_step e r")
  obtain m where m: "stays m (s, x)" "servers_grow m es"
    using dns_step_stays [OF Cons.prems(1,2) _ Cons.prems(4)] Cons.prems(3) s by auto
  have x: "x = None \<or> x = Some BaseException" using m(1) by (cases x) (auto simp: stays_def intro: cpp_error.exhaust)
  then have "resolver_inv s"
    using dns_step_keeps [OF Cons.prems(2), of e s] dns_step_throws [OF Cons.prems(2), of e s] Cons.prems(3) s by auto
  moreover have "table_inv m s" using m(1) by (simp add: stays_def)
  ultimately obtain lost r' where "dns_serve es s = (lost, r', None)" "table_inv (length (rs_servers r')) r'"
    using Cons.IH [of m s] Cons.prems(3) m(2) by auto
  then show ?case using x s by auto
qed

lemma table_new: "table_inv 0 (dns_resolver_new seed)"
  by (simp add: table_inv_def dns_resolver_new_def ordered_keys_def)

section \<open>A single query\<close>

definition single_query :: "u16 \<Rightarrow> string \<Rightarrow> nat \<Rightarrow> nat \<Rightarrow> nat \<Rightarrow> ipv4 list \<Rightarrow> dns_resolver \<Rightarrow> bool" where
  "single_query port name callback i n servers r \<longleftrightarrow>
     rs_servers r = servers \<and> (\<exists>x. rs_pending r = [(port, \<lparr>pd_name = name, pd_transaction_id = x, pd_source_port = port,
       pd_server_index = i, pd_attempts = n, pd_timeout_ms_remaining = QUERY_TIMEOUT_MS, pd_cname_depth = 0, pd_callbacks = [callback]\<rparr>)])"

lemma resolve_single:
  assumes "rs_pending r = []" "rs_cache r = []" "rs_servers r \<noteq> []"
  shows "\<exists>r' port. resolve name callback r = (r', None) \<and> single_query port (normalise name) callback 0 1 (rs_servers r) r'"
proof -
  obtain x r0 where x: "next_transaction_id r = (x, r0)" by (cases "next_transaction_id r")
  then obtain e where r0: "r0 = r\<lparr>rs_id_entropy := e\<rparr>" by (auto simp: next_transaction_id_def Let_def)
  obtain port e' where port: "next_source_port r0 = (Some port, r0\<lparr>rs_port_entropy := e'\<rparr>)"
    using assms(1) by (auto simp: next_source_port_def r0 eval_nat_numeral Let_def)
  define q where "q = \<lparr>pd_name = normalise name, pd_transaction_id = x, pd_source_port = port, pd_server_index = 0,
    pd_attempts = 0, pd_timeout_ms_remaining = QUERY_TIMEOUT_MS, pd_cname_depth = 0, pd_callbacks = [callback]\<rparr>"
  obtain r' where r': "send_query port q (r0\<lparr>rs_port_entropy := e'\<rparr>) = (r', None)" "rs_servers r' = rs_servers r"
    "rs_pending r' = [(port, q\<lparr>pd_attempts := 1, pd_timeout_ms_remaining := QUERY_TIMEOUT_MS\<rparr>)]"
    using send_query_table [of q "r0\<lparr>rs_port_entropy := e'\<rparr>" port] assms by (auto simp: r0 q_def)
  have "resolve name callback r = (r', None)"
    using assms r'(1) by (simp add: resolve_def x port q_def)
  then show ?thesis using r' by (auto simp: single_query_def q_def)
qed

lemma tick_single:
  assumes "single_query port name callback i n servers r" "i < length servers"
    "n < 2 \<or> n = 2 \<and> Suc i < length servers"
  shows "\<exists>r'. dns_on_time_passed 2000 r = (r', None)
    \<and> single_query port name callback (if n < 2 then i else Suc i) (if n < 2 then Suc n else 1) servers r'"
proof -
  obtain x where s: "rs_servers r = servers" and p: "rs_pending r = [(port, \<lparr>pd_name = name, pd_transaction_id = x, pd_source_port = port,
       pd_server_index = i, pd_attempts = n, pd_timeout_ms_remaining = QUERY_TIMEOUT_MS, pd_cname_depth = 0, pd_callbacks = [callback]\<rparr>)]"
    using assms(1) by (auto simp: single_query_def)
  define q where "q = \<lparr>pd_name = name, pd_transaction_id = x, pd_source_port = port, pd_server_index = i, pd_attempts = n,
    pd_timeout_ms_remaining = 0, pd_cname_depth = 0, pd_callbacks = [callback]\<rparr>"
  let ?s = "r\<lparr>rs_cache := age_cache 2000 (rs_cache r), rs_pending := [(port, q)]\<rparr>"
  have "dns_on_time_passed 2000 r = and_then (retry_or_fail port q ?s) (expire_queries [])"
    by (simp add: dns_on_time_passed_def age_pending_def p q_def QUERY_TIMEOUT_MS_def)
  moreover have "\<exists>r' q'. retry_or_fail port q ?s = (r', None) \<and> rs_servers r' = servers
      \<and> rs_pending r' = [(port, q'\<lparr>pd_timeout_ms_remaining := QUERY_TIMEOUT_MS\<rparr>)]
      \<and> q' = q\<lparr>pd_server_index := (if n < 2 then i else Suc i), pd_attempts := (if n < 2 then Suc n else 1)\<rparr>"
  proof (cases "n < 2")
    case True
    then show ?thesis using assms(2) s send_query_table [of q ?s port]
      by (auto simp: retry_or_fail_def ATTEMPTS_PER_SERVER_def q_def)
  next
    case False
    then show ?thesis using assms(3) s send_query_table [of "q\<lparr>pd_server_index := Suc i, pd_attempts := 0\<rparr>" ?s port]
      by (auto simp: retry_or_fail_def ATTEMPTS_PER_SERVER_def q_def)
  qed
  ultimately show ?thesis by (auto simp: single_query_def q_def)
qed

lemma tick_past_servers:
  assumes "single_query port name callback i 1 servers r" "length servers \<le> i"
  shows "snd (dns_on_time_passed 2000 r) = Some UndefinedBehaviour"
  using assms
  by (auto simp: single_query_def dns_on_time_passed_def age_pending_def QUERY_TIMEOUT_MS_def retry_or_fail_def
      ATTEMPTS_PER_SERVER_def send_query_def Let_def)

section \<open>Properties\<close>

text \<open>
  C15. Every \<open>resolve()\<close> is answered at most once, and exactly once unless the source port search failed. After
  any sequence of lookups, datagrams (genuine or forged), clock ticks and server changes, with every thrown
  exception caught by the caller, the callbacks called so far, those of the queries still outstanding and those
  of the steps that threw because 64 drawn ports were all taken are together exactly the callbacks registered.
  None is called twice, and none is lost when no step throws. The run reaches its end, without undefined
  behaviour, as long as the server list is never replaced by a shorter one. The tables stay bounded: at most 256
  cached names, each with at least one address and for at most an hour.
\<close>

theorem resolver_answers_once:
  assumes "dns_serve es (dns_resolver_new seed) = (lost, r, e)" "list_all dns_event_ok es"
  shows "(e = None \<longrightarrow> answered r + outstanding r + lost = sum_list (map event_callback es) \<and> resolver_inv r)
    \<and> (snd (dns_run es (dns_resolver_new seed)) = None \<longrightarrow> lost = {#})
    \<and> (servers_grow 0 es \<longrightarrow> e = None)"
proof (intro conjI impI)
  assume "e = None"
  then show "answered r + outstanding r + lost = sum_list (map event_callback es)" "resolver_inv r"
    using dns_serve_keeps [of es "dns_resolver_new seed" lost r] assms resolver_inv_new by (simp_all add: held_callbacks_def)
next
  assume "snd (dns_run es (dns_resolver_new seed)) = None"
  then show "lost = {#}"
    using dns_run_serve [of es "dns_resolver_new seed" "fst (dns_run es (dns_resolver_new seed))"] assms(1) by (metis fst_conv prod.collapse)
next
  assume "servers_grow 0 es"
  then show "e = None" using dns_serve_stays [OF table_new resolver_inv_new(1) assms(2), of seed] assms(1) by auto
qed

text \<open>
  C16. A query that nobody answers is given up in time. In any state the resolver can reach without its server
  list being shortened, let no clock tick be longer than \<open>m\<close> ms and no datagram arrive: once the ticks add up to two
  attempts per server of two seconds each, plus one tick for each attempt, no query is outstanding and every
  callback ever registered, those of throwing steps apart, has been called.
\<close>

theorem resolver_gives_up:
  assumes "dns_serve es (dns_resolver_new seed) = (lost, r, None)" "list_all dns_event_ok es" "servers_grow 0 es"
    and "list_all (\<lambda>ms. unat ms \<le> m) ticks" "m < 2 ^ 31"
    and "2 * length (rs_servers r) * (2000 + m) \<le> sum_list (map unat ticks)"
  shows "\<exists>r'. dns_run (map Time_passed ticks) r = (r', None) \<and> rs_pending r' = []
    \<and> answered r' + lost = sum_list (map event_callback es)"
proof -
  have r: "resolver_inv r" "held_callbacks r + lost = sum_list (map event_callback es)"
    using dns_serve_keeps [OF assms(1) resolver_inv_new(1) assms(2)] resolver_inv_new(2) by simp_all
  have "table_inv (length (rs_servers r)) r"
    using dns_serve_stays [OF table_new resolver_inv_new(1) assms(2,3), of seed] assms(1) by auto
  from ticks_table [OF r(1) table_waits [OF this r(1) assms(6)] assms(4,5)] obtain r' where
    "dns_run (map Time_passed ticks) r = (r', None)" "rs_pending r' = []" "held_callbacks r' = held_callbacks r" by blast
  then show ?thesis using r(2) by (auto simp: held_callbacks_def outstanding_def)
qed

text \<open>
  C32. A forged reply does not disturb the query. A datagram that does not come from port 53 of the server that
  was asked, does not parse, is not a response, has another transaction id or does not echo the question leaves
  the resolver exactly as it was.
\<close>

theorem forged_reply_ignored:
  assumes "map_of (rs_pending r) dport = Some q" "pd_server_index q < length (rs_servers r)"
    and "sport \<noteq> 53 \<or> source \<noteq> rs_servers r ! pd_server_index q
      \<or> (\<forall>m. dns_from_bytes payload = Inr m \<longrightarrow> \<not> dns_is_response m \<or> dns_id m \<noteq> pd_transaction_id q
              \<or> dns_questions m = [] \<or> normalise (q_name (hd (dns_questions m))) \<noteq> pd_name q)"
  shows "dns_on_datagram source sport dport payload r = (r, None)"
  using assms dns_from_bytes_safe [of payload]
  by (auto simp: dns_on_datagram_def DNS_SERVER_PORT_def split: sum.split cpp_error.split)

text \<open>
  C38. Replacing the server list under an outstanding query can make the resolver index past the end of
  \<open>_servers\<close>. With two servers, a query that has moved on to the second one and is then left with a list of one
  (a DHCP renewal that names fewer DNS servers), the next timeout reads \<open>_servers[1]\<close> of a one-element vector.
\<close>

theorem server_list_shrinks_under_query:
  "snd (dns_run [Servers [s1, s2], Resolve name callback, Time_passed 2000, Time_passed 2000,
                 Servers [s1], Time_passed 2000] (dns_resolver_new seed)) = Some UndefinedBehaviour"
proof -
  let ?r0 = "set_servers [s1, s2] (dns_resolver_new seed)"
  have "rs_pending ?r0 = []" "rs_cache ?r0 = []" "rs_servers ?r0 \<noteq> []" "rs_servers ?r0 = [s1, s2]"
    by (simp_all add: set_servers_def dns_resolver_new_def)
  from resolve_single [OF this(1-3), unfolded this(4)] obtain r1 port where
    1: "resolve name callback ?r0 = (r1, None)" "single_query port (normalise name) callback 0 1 [s1, s2] r1" by blast
  from tick_single [OF 1(2)] obtain r2 where
    2: "dns_on_time_passed 2000 r1 = (r2, None)" "single_query port (normalise name) callback 0 2 [s1, s2] r2"
    by (auto simp: eval_nat_numeral)
  from tick_single [OF 2(2)] obtain r3 where
    3: "dns_on_time_passed 2000 r2 = (r3, None)" "single_query port (normalise name) callback 1 1 [s1, s2] r3" by auto
  have "single_query port (normalise name) callback 1 1 [s1] (set_servers [s1] r3)"
    using 3(2) by (auto simp: single_query_def set_servers_def)
  from tick_past_servers [OF this] show ?thesis using 1(1) 2(1) 3(1) by (auto simp: and_then_def split: prod.splits option.splits)
qed

text \<open>
  A zero TTL is not the shortest. The code means the shortest TTL of the answers to govern the cached set, but
  uses zero as the mark for no TTL seen yet: an answer that must not be cached, followed by one with five
  minutes, is cached for five minutes.
\<close>

lemma zero_ttl_is_ignored:
  "cache_lifetime (shortest_ttl [\<lparr>r_name = ''a'', r_type = DNS_TYPE_A, r_class = 1, r_ttl = 0, r_rdata = [10, 0, 0, 1], r_target = []\<rparr>,
                                 \<lparr>r_name = ''a'', r_type = DNS_TYPE_A, r_class = 1, r_ttl = 300, r_rdata = [10, 0, 0, 2], r_target = []\<rparr>] 0)
   = 300000"
  by code_simp

section \<open>Witnesses\<close>

lemma demo_lookup:
  "\<exists>r. dns_run [Servers [IPv4Address 10 0 0 1], Resolve ''a.example'' 7] (dns_resolver_new 1) = (r, None)
     \<and> dns_serve [Servers [IPv4Address 10 0 0 1], Resolve ''a.example'' 7] (dns_resolver_new 1) = ({#}, r, None)
     \<and> length (rs_servers r) = 1"
  using resolve_single [of "set_servers [IPv4Address 10 0 0 1] (dns_resolver_new 1)" "''a.example''" 7]
  by (auto simp: set_servers_def dns_resolver_new_def single_query_def)

lemma resolver_answers_once_witness:
  "\<exists>r. dns_serve [Servers [IPv4Address 10 0 0 1], Resolve ''a.example'' 7] (dns_resolver_new 1) = ({#}, r, None)
     \<and> answered r + outstanding r = {#7#} \<and> resolver_inv r"
proof -
  obtain r where r: "dns_serve [Servers [IPv4Address 10 0 0 1], Resolve ''a.example'' 7] (dns_resolver_new 1) = ({#}, r, None)"
    using demo_lookup by blast
  from resolver_answers_once [OF this] r show ?thesis by simp
qed

text \<open>One server and ticks of at most a second: six of them are enough.\<close>

lemma resolver_gives_up_witness:
  "\<exists>r r'. dns_serve [Servers [IPv4Address 10 0 0 1], Resolve ''a.example'' 7] (dns_resolver_new 1) = ({#}, r, None)
     \<and> dns_run (map Time_passed (replicate 6 1000)) r = (r', None) \<and> rs_pending r' = [] \<and> answered r' = {#7#}"
proof -
  obtain r where r: "dns_serve [Servers [IPv4Address 10 0 0 1], Resolve ''a.example'' 7] (dns_resolver_new 1) = ({#}, r, None)"
    "length (rs_servers r) = 1"
    using demo_lookup by blast
  have "list_all (\<lambda>ms :: u32. unat ms \<le> 1000) (replicate 6 1000)" by (simp add: list_all_iff)
  moreover have "2 * length (rs_servers r) * (2000 + 1000) \<le> sum_list (map unat (replicate 6 (1000 :: u32)))"
    using r(2) by (simp add: sum_list_replicate)
  ultimately have "\<exists>r'. dns_run (map Time_passed (replicate 6 1000)) r = (r', None) \<and> rs_pending r' = [] \<and> answered r' + {#} = {#7#}"
    using resolver_gives_up [OF r(1), of 1000 "replicate 6 1000"] by simp
  then show ?thesis using r(1) by auto
qed

definition demo_query :: dns_pending where
  "demo_query = \<lparr>pd_name = ''a'', pd_transaction_id = 9, pd_source_port = 50000, pd_server_index = 0,
     pd_attempts = 1, pd_timeout_ms_remaining = 2000, pd_cname_depth = 0, pd_callbacks = [1]\<rparr>"

definition demo_resolver :: dns_resolver where
  "demo_resolver = (dns_resolver_new 1)\<lparr>rs_servers := [IPv4Address 10 0 0 1], rs_pending := [(50000, demo_query)]\<rparr>"

lemma forged_reply_ignored_witness:
  "map_of (rs_pending demo_resolver) 50000 = Some demo_query
   \<and> dns_on_datagram (IPv4Address 6 6 6 6) 53 50000 [1, 2, 3] demo_resolver = (demo_resolver, None)"
  using forged_reply_ignored [of demo_resolver 50000 demo_query 53 "IPv4Address 6 6 6 6" "[1, 2, 3]"]
  by (simp add: demo_resolver_def demo_query_def)

end
