(* ===== verification/Stack_State.thy ===== *)
theory Stack_State
  imports Tcp_Path Ip_Codec Arp_Table Route_Table Ip_Reassembler Isn_Generator Dhcp_Client Dns_Resolver
begin

text \<open>
  The state of the network stack (\<open>network_stack.h\<close>, \<open>udp_socket.h\<close>) and the operations that configure it.

  Every operation returns the stack as the call leaves it and the exception that left the call, if any.
  \<open>std::vector::at\<close> throws \<open>std::out_of_range\<close>, which is not a \<open>BaseException\<close>; a call that never returns
  is the error \<open>Diverges\<close>. Frames handed to a channel are appended to \<open>ni_written\<close>, frames a channel has
  queued for \<open>read\<close> are \<open>ni_incoming\<close>. Calls of application callbacks are appended to \<open>ns_app\<close>.

  Three fields are not state of the code. \<open>ns_clock\<close> is what the system clock reads. \<open>ns_torn_connection\<close>
  and \<open>ns_torn_resolver\<close> stand for the state an object is left in when a callback throws in the middle of
  one of its handlers: they are arbitrary functions of the number of the throw, counted in \<open>ns_throws\<close>, and
  of the object before the handler, so that a theorem about every stack covers whatever that state is.
\<close>

section \<open>Constants\<close>

definition FIRST_EPHEMERAL_PORT :: u16 where "FIRST_EPHEMERAL_PORT = 49152"
definition ARP_MAX_RETRIES :: int where "ARP_MAX_RETRIES = 3"
definition ARP_RETRY_MS :: int where "ARP_RETRY_MS = 2000"
definition FRAGMENT_TIMEOUT_MS :: int where "FRAGMENT_TIMEOUT_MS = 15000"
definition ARP_ENTRY_TTL_MS :: int where "ARP_ENTRY_TTL_MS = 60000"
definition ICMP_ERROR_BURST :: int where "ICMP_ERROR_BURST = 10"
definition ICMP_ERROR_REFILL_PER_SECOND :: int where "ICMP_ERROR_REFILL_PER_SECOND = 4"
definition MS_PER_SECOND :: int where "MS_PER_SECOND = 1000"
definition ETHERNET_HEADER_SIZE :: nat where "ETHERNET_HEADER_SIZE = 14"
definition IP_HEADER_SIZE :: nat where "IP_HEADER_SIZE = 20"
definition TTL_OFFSET :: nat where "TTL_OFFSET = 8"
definition CHECKSUM_OFFSET :: nat where "CHECKSUM_OFFSET = 10"
definition ICMP_QUOTED_BYTES :: nat where "ICMP_QUOTED_BYTES = 28"
definition POLL_FRAME_BUDGET :: nat where "POLL_FRAME_BUDGET = 64"
definition DEFAULT_LISTEN_BACKLOG :: nat where "DEFAULT_LISTEN_BACKLOG = 128"
definition ICMP_CODE_NONE :: u8 where "ICMP_CODE_NONE = 0"
definition ICMP_CODE_NET_UNREACHABLE :: u8 where "ICMP_CODE_NET_UNREACHABLE = 0"
definition ICMP_CODE_PORT_UNREACHABLE :: u8 where "ICMP_CODE_PORT_UNREACHABLE = 3"
definition ICMP_CODE_FRAGMENTATION_NEEDED :: u8 where "ICMP_CODE_FRAGMENTATION_NEEDED = 4"
definition ICMP_CODE_TTL_EXCEEDED :: u8 where "ICMP_CODE_TTL_EXCEEDED = 0"
definition ICMP_CODE_FRAGMENT_REASSEMBLY_TIME_EXCEEDED :: u8 where
  "ICMP_CODE_FRAGMENT_REASSEMBLY_TIME_EXCEEDED = 1"

section \<open>State\<close>

datatype stack_error = Thrown cpp_error | Std_out_of_range | Diverges

record connection_key =
  ck_remote_ip :: ipv4
  ck_remote_port :: u16
  ck_local_port :: u16

record arp_request_state =
  ar_retries_remaining :: int
  ar_ms_until_retry :: int

record pending_datagram =
  pg_destination :: ipv4
  pg_src_port :: u16
  pg_dest_port :: u16
  pg_payload :: bytes

record net_interface =
  ni_config :: iface_config
  ni_arp_table :: arp_table
  ni_arp_requests :: "(ipv4 \<times> arp_request_state) list"
  ni_pending_connects :: "(ipv4 \<times> connection_key list) list"
  ni_pending_datagrams :: "(ipv4 \<times> pending_datagram list) list"
  ni_incoming :: "bytes list"
  ni_written :: "bytes list"

text \<open>Who \<open>_on_datagram_received\<close> of a \<open>UdpSocket\<close> calls: nobody yet, the application, or one of the two lambdas of the stack.\<close>

datatype udp_receiver = Nobody | Application | To_dhcp | To_dns u16

record udp_socket =
  us_local_port :: u16
  us_receiver :: udp_receiver

datatype app_event = App_datagram u16 ipv4 u16 bytes | App_echo_reply ipv4 u16 u16 bytes
  | App_resolved nat string "ipv4 list"

record network_stack =
  ns_interfaces :: "net_interface list"
  ns_routes :: route_table
  ns_forwarding :: bool
  ns_next_ephemeral_port :: u16
  ns_next_ip_id :: u16
  ns_reassembler :: reassembler
  ns_isn :: isn_generator
  ns_dhcp :: "dhcp_client option"
  ns_dns :: "dns_resolver option"
  ns_icmp_tokens :: int
  ns_echo_callback :: bool
  ns_listening :: "(u16 \<times> nat) list"
  ns_pending_accepts :: "(u16 \<times> connection_key list) list"
  ns_udp_sockets :: "(u16 \<times> udp_socket) list"
  ns_connections :: "(connection_key \<times> tcp_connection) list"
  ns_by_id :: "(u64 \<times> connection_key) list"
  ns_pending_reap :: "u64 list"
  ns_next_connection_id :: u64
  ns_app :: "app_event list"
  ns_clock :: u64
  ns_throws :: nat
  ns_torn_connection :: "nat \<Rightarrow> tcp_connection \<Rightarrow> tcp_connection"
  ns_torn_resolver :: "nat \<Rightarrow> dns_resolver \<Rightarrow> dns_resolver"

type_synonym stack_outcome = "network_stack \<times> stack_error option"

definition interface_new :: "iface_config \<Rightarrow> net_interface" where
  "interface_new config =
     \<lparr>ni_config = config, ni_arp_table = arp_table_new ARP_ENTRY_TTL_MS, ni_arp_requests = [], ni_pending_connects = [],
      ni_pending_datagrams = [], ni_incoming = [], ni_written = []\<rparr>"

definition primary :: "network_stack \<Rightarrow> net_interface" where
  "primary s = hd (ns_interfaces s)"

definition update_interface :: "nat \<Rightarrow> (net_interface \<Rightarrow> net_interface) \<Rightarrow> network_stack \<Rightarrow> network_stack" where
  "update_interface i f s = s\<lparr>ns_interfaces := (ns_interfaces s)[i := f (ns_interfaces s ! i)]\<rparr>"

text \<open>\<open>_interfaces.at(i)\<close> for the rest of a call, and a callee that returns a value or throws.\<close>

definition with_interface :: "nat \<Rightarrow> network_stack \<Rightarrow> (net_interface \<Rightarrow> stack_outcome) \<Rightarrow> stack_outcome" where
  "with_interface i s f = (if i < length (ns_interfaces s) then f (ns_interfaces s ! i) else (s, Some Std_out_of_range))"

definition with_value :: "stack_error + 'a \<Rightarrow> network_stack \<Rightarrow> ('a \<Rightarrow> stack_outcome) \<Rightarrow> stack_outcome" where
  "with_value m s f = (case m of Inl e \<Rightarrow> (s, Some e) | Inr x \<Rightarrow> f x)"

definition thrown :: "'a result \<Rightarrow> stack_error + 'a" where
  "thrown m = (case m of Inl e \<Rightarrow> Inl (Thrown e) | Inr x \<Rightarrow> Inr x)"

definition catching_base :: "stack_outcome \<Rightarrow> stack_outcome" where
  "catching_base m = (case m of (s, Some (Thrown BaseException)) \<Rightarrow> (s, None) | _ \<Rightarrow> m)"

text \<open>\<open>catch (const std::exception&)\<close>.\<close>

definition catching_std :: "stack_outcome \<Rightarrow> stack_outcome" where
  "catching_std m =
     (case m of (s, Some (Thrown BaseException)) \<Rightarrow> (s, None) | (s, Some Std_out_of_range) \<Rightarrow> (s, None) | _ \<Rightarrow> m)"

section \<open>Configuration\<close>

fun connected_routes :: "nat \<Rightarrow> net_interface list \<Rightarrow> route_table \<Rightarrow> route_table" where
  "connected_routes index [] routes = routes"
| "connected_routes index (i # rest) routes =
     connected_routes (index + 1) rest
       (if has_address (ni_config i)
        then route_add (ic_ip (ni_config i)) (ic_prefix_length (ni_config i)) ipv4_zero index routes else routes)"

definition configure_interface :: "iface_config \<Rightarrow> network_stack \<Rightarrow> network_stack" where
  "configure_interface config s =
     (let s = update_interface 0 (\<lambda>i. i\<lparr>ni_config := config\<rparr>) s;
          routes = route_clear (ns_routes s);
          routes = (if has_address config then route_add (ic_ip config) (ic_prefix_length config) ipv4_zero 0 routes else routes);
          routes = (if has_gateway config then route_add ipv4_zero 0 (ic_gateway config) 0 routes else routes)
      in s\<lparr>ns_routes := connected_routes 1 (tl (ns_interfaces s)) routes\<rparr>)"

definition stack_new :: "isn_generator \<Rightarrow> u64 \<Rightarrow> u64 \<Rightarrow> (nat \<Rightarrow> tcp_connection \<Rightarrow> tcp_connection)
    \<Rightarrow> (nat \<Rightarrow> dns_resolver \<Rightarrow> dns_resolver) \<Rightarrow> iface_config \<Rightarrow> network_stack" where
  "stack_new isn next_id clock torn_connection torn_resolver config =
     configure_interface config
       \<lparr>ns_interfaces = [interface_new config], ns_routes = [], ns_forwarding = False,
        ns_next_ephemeral_port = FIRST_EPHEMERAL_PORT, ns_next_ip_id = 1,
        ns_reassembler = reassembler_new FRAGMENT_TIMEOUT_MS, ns_isn = isn, ns_dhcp = None, ns_dns = None,
        ns_icmp_tokens = ICMP_ERROR_BURST * MS_PER_SECOND, ns_echo_callback = False, ns_listening = [],
        ns_pending_accepts = [], ns_udp_sockets = [], ns_connections = [], ns_by_id = [], ns_pending_reap = [],
        ns_next_connection_id = next_id, ns_app = [], ns_clock = clock, ns_throws = 0,
        ns_torn_connection = torn_connection, ns_torn_resolver = torn_resolver\<rparr>"

definition single_segment_config :: "mac \<Rightarrow> ipv4 \<Rightarrow> iface_config" where
  "single_segment_config mac ip =
     \<lparr>ic_mac = mac, ic_ip = ip, ic_prefix_length = 24, ic_gateway = ipv4_zero, ic_mtu = 1500\<rparr>"

definition add_interface :: "iface_config \<Rightarrow> network_stack \<Rightarrow> nat \<times> network_stack" where
  "add_interface config s =
     (let s = s\<lparr>ns_interfaces := ns_interfaces s @ [interface_new config]\<rparr>;
          index = length (ns_interfaces s) - 1
      in (index,
          if has_address config
          then s\<lparr>ns_routes := route_add (ic_ip config) (ic_prefix_length config) ipv4_zero index (ns_routes s)\<rparr> else s))"

definition add_route :: "ipv4 \<Rightarrow> u8 \<Rightarrow> ipv4 \<Rightarrow> nat \<Rightarrow> network_stack \<Rightarrow> network_stack" where
  "add_route destination prefix_length next_hop interface_index s =
     s\<lparr>ns_routes := route_add destination prefix_length next_hop interface_index (ns_routes s)\<rparr>"

definition set_forwarding :: "bool \<Rightarrow> network_stack \<Rightarrow> network_stack" where
  "set_forwarding enabled s = s\<lparr>ns_forwarding := enabled\<rparr>"

definition stack_listen :: "u16 \<Rightarrow> nat \<Rightarrow> network_stack \<Rightarrow> network_stack" where
  "stack_listen port backlog s = s\<lparr>ns_listening := AList.update port backlog (ns_listening s)\<rparr>"

definition set_echo_reply_callback :: "bool \<Rightarrow> network_stack \<Rightarrow> network_stack" where
  "set_echo_reply_callback callback s = s\<lparr>ns_echo_callback := callback\<rparr>"

definition add_static_arp_entry :: "ipv4 \<Rightarrow> mac \<Rightarrow> network_stack \<Rightarrow> network_stack" where
  "add_static_arp_entry ip mac s =
     update_interface 0 (\<lambda>i. i\<lparr>ni_arp_table := arp_add_static ip mac (ni_arp_table i)\<rparr>) s"

definition allocate_ephemeral_port :: "network_stack \<Rightarrow> u16 \<times> network_stack" where
  "allocate_ephemeral_port s =
     (let port = ns_next_ephemeral_port s
      in (port, s\<lparr>ns_next_ephemeral_port := (if port = 65535 then FIRST_EPHEMERAL_PORT else port + 1)\<rparr>))"

text \<open>
  \<open>bind_udp\<close> returns the socket of the port, made on the first call; \<open>set_datagram_received_callback\<close> is
  the receiver of that socket.
\<close>

definition bind_udp :: "u16 \<Rightarrow> network_stack \<Rightarrow> network_stack" where
  "bind_udp port s =
     (case map_of (ns_udp_sockets s) port of
        Some socket \<Rightarrow> s
      | None \<Rightarrow> s\<lparr>ns_udp_sockets := AList.update port \<lparr>us_local_port = port, us_receiver = Nobody\<rparr> (ns_udp_sockets s)\<rparr>)"

definition set_receiver :: "u16 \<Rightarrow> udp_receiver \<Rightarrow> network_stack \<Rightarrow> network_stack" where
  "set_receiver port r s =
     s\<lparr>ns_udp_sockets := AList.map_entry port (\<lambda>socket. socket\<lparr>us_receiver := r\<rparr>) (ns_udp_sockets s)\<rparr>"

definition unbind_udp :: "u16 \<Rightarrow> network_stack \<Rightarrow> bool \<times> network_stack" where
  "unbind_udp port s =
     (map_of (ns_udp_sockets s) port \<noteq> None, s\<lparr>ns_udp_sockets := AList.delete port (ns_udp_sockets s)\<rparr>)"

definition find_connection :: "u64 \<Rightarrow> network_stack \<Rightarrow> tcp_connection option" where
  "find_connection conn_id s =
     (case map_of (ns_by_id s) conn_id of None \<Rightarrow> None | Some key \<Rightarrow> map_of (ns_connections s) key)"

text \<open>\<open>accept\<close>: keys are popped until one names a connection that is still there.\<close>

fun accept_loop :: "(connection_key \<times> tcp_connection) list \<Rightarrow> connection_key list \<Rightarrow> connection_key option \<times> connection_key list" where
  "accept_loop connections [] = (None, [])"
| "accept_loop connections (key # queue) =
     (if map_of connections key \<noteq> None then (Some key, queue) else accept_loop connections queue)"

definition stack_accept :: "u16 \<Rightarrow> network_stack \<Rightarrow> connection_key option \<times> network_stack" where
  "stack_accept port s =
     (case map_of (ns_pending_accepts s) port of
        None \<Rightarrow> (None, s)
      | Some queue \<Rightarrow>
          if queue = [] then (None, s)
          else let (key, rest) = accept_loop (ns_connections s) queue
               in (key, s\<lparr>ns_pending_accepts := AList.update port rest (ns_pending_accepts s)\<rparr>))"

fun reap_loop :: "u64 list \<Rightarrow> network_stack \<Rightarrow> network_stack" where
  "reap_loop [] s = s"
| "reap_loop (conn_id # rest) s =
     (case map_of (ns_by_id s) conn_id of
        None \<Rightarrow> reap_loop rest s
      | Some key \<Rightarrow>
          reap_loop rest (s\<lparr>ns_connections := AList.delete key (ns_connections s),
                            ns_by_id := AList.delete conn_id (ns_by_id s)\<rparr>))"

definition reap_closed_connections :: "network_stack \<Rightarrow> network_stack" where
  "reap_closed_connections s = (reap_loop (ns_pending_reap s) s)\<lparr>ns_pending_reap := []\<rparr>"

end
