(* ===== verification/Stack_Output.thy ===== *)
theory Stack_Output
  imports Stack_State
begin

text \<open>
  Everything the network stack sends (\<open>network_stack.cpp\<close>): next-hop selection, ARP requests, IP packets
  with fragmentation, and TCP, UDP and ICMP messages on top of them.
\<close>

section \<open>Where a packet goes\<close>

definition is_broadcast_for_any_interface :: "ipv4 \<Rightarrow> network_stack \<Rightarrow> bool" where
  "is_broadcast_for_any_interface ip s = list_ex (\<lambda>i. is_broadcast_address ip (ni_config i)) (ns_interfaces s)"

definition next_hop_for :: "ipv4 \<Rightarrow> network_stack \<Rightarrow> ipv4" where
  "next_hop_for destination s =
     (if is_broadcast_for_any_interface destination s then destination
      else case route_lookup_next_hop destination (ns_routes s) of None \<Rightarrow> destination | Some next_hop \<Rightarrow> next_hop)"

definition route_for :: "ipv4 \<Rightarrow> network_stack \<Rightarrow> (ipv4 \<times> nat) option" where
  "route_for destination s =
     (if is_broadcast_for_any_interface destination s then Some (destination, 0)
      else case route_lookup destination (ns_routes s) of
          Some found \<Rightarrow> Some found
        | None \<Rightarrow> if length (ns_interfaces s) = 1 then Some (destination, 0) else None)"

definition source_address_for :: "ipv4 \<Rightarrow> network_stack \<Rightarrow> stack_error + ipv4" where
  "source_address_for dest_ip s =
     (case route_for dest_ip s of
        None \<Rightarrow> Inr (ic_ip (ni_config (primary s)))
      | Some (next_hop, egress) \<Rightarrow>
          if egress < length (ns_interfaces s) then Inr (ic_ip (ni_config (ns_interfaces s ! egress)))
          else Inl Std_out_of_range)"

definition resolve_mac :: "nat \<Rightarrow> ipv4 \<Rightarrow> network_stack \<Rightarrow> stack_error + mac" where
  "resolve_mac interface_index ip s =
     (if interface_index < length (ns_interfaces s) then
        let i = ns_interfaces s ! interface_index in
        if is_broadcast_address ip (ni_config i) then Inr MAC_BROADCAST
        else case arp_lookup ip (ni_arp_table i) of None \<Rightarrow> Inl (Thrown BaseException) | Some mac \<Rightarrow> Inr mac
      else Inl Std_out_of_range)"

section \<open>ARP requests\<close>

definition write_frame :: "nat \<Rightarrow> bytes \<Rightarrow> network_stack \<Rightarrow> network_stack" where
  "write_frame i frame s = update_interface i (\<lambda>i. i\<lparr>ni_written := ni_written i @ [frame]\<rparr>) s"

definition arp_frame :: "mac \<Rightarrow> mac \<Rightarrow> arp \<Rightarrow> bytes" where
  "arp_frame src dest a = ethernet_to_bytes ((ethernet_new src dest ETHERTYPE_ARP)\<lparr>eth_next_layer := Some (ArpFrame a)\<rparr>)"

definition send_arp_request :: "nat \<Rightarrow> ipv4 \<Rightarrow> network_stack \<Rightarrow> stack_outcome" where
  "send_arp_request interface_index target_ip s =
     with_interface interface_index s (\<lambda>i.
       (write_frame interface_index
          (arp_frame (ic_mac (ni_config i)) MAC_BROADCAST
             (arp_request (ic_mac (ni_config i)) (ic_ip (ni_config i)) target_ip)) s, None))"

definition ensure_arp_resolution :: "nat \<Rightarrow> ipv4 \<Rightarrow> network_stack \<Rightarrow> stack_outcome" where
  "ensure_arp_resolution interface_index ip s =
     with_interface interface_index s (\<lambda>i.
       if map_of (ni_arp_requests i) ip \<noteq> None then (s, None)
       else
         and_then (send_arp_request interface_index ip s) (\<lambda>s.
           (update_interface interface_index (\<lambda>i. i\<lparr>ni_arp_requests :=
               AList.update ip \<lparr>ar_retries_remaining = ARP_MAX_RETRIES, ar_ms_until_retry = ARP_RETRY_MS\<rparr>
                 (ni_arp_requests i)\<rparr>) s, None)))"

section \<open>IP packets\<close>

definition ip_packet :: "iface_config \<Rightarrow> ipv4 \<Rightarrow> u8 \<Rightarrow> u16 \<Rightarrow> u8 \<Rightarrow> u16 \<Rightarrow> bytes \<Rightarrow> ip" where
  "ip_packet config dest_ip protocol identification flags fragment_offset payload =
     ip_compute_checksum
       ((ip_new 4 5 0 (of_nat (20 + length payload)) identification flags fragment_offset 64 protocol 0
           (ipv4_get_address (ic_ip config)) (ipv4_get_address dest_ip))\<lparr>ip_next_layer := Some (RawLayer payload)\<rparr>)"

definition ip_frame :: "iface_config \<Rightarrow> mac \<Rightarrow> ip \<Rightarrow> bytes" where
  "ip_frame config dest_mac packet =
     ethernet_to_bytes ((ethernet_new (ic_mac config) dest_mac ETHERTYPE_IPv4)\<lparr>eth_next_layer := Some (IpFrame packet)\<rparr>)"

text \<open>
  The pieces of the fragmentation loop: offset, More-Fragments and payload. A chunk size of zero never
  advances; not returning is \<open>None\<close>.
\<close>

partial_function (option) fragment_loop :: "nat \<Rightarrow> bytes \<Rightarrow> nat \<Rightarrow> (nat \<times> bool \<times> bytes) list option" where
  "fragment_loop chunk_size payload offset =
     (if offset < length payload then
        let chunk = min chunk_size (length payload - offset)
        in Option.bind (fragment_loop chunk_size payload (offset + chunk))
             (\<lambda>rest. Some ((offset, offset + chunk < length payload, take chunk (drop offset payload)) # rest))
      else Some [])"

declare fragment_loop.simps [code]

definition fragment_frame :: "iface_config \<Rightarrow> mac \<Rightarrow> ipv4 \<Rightarrow> u8 \<Rightarrow> u16 \<Rightarrow> nat \<times> bool \<times> bytes \<Rightarrow> bytes" where
  "fragment_frame config dest_mac dest_ip protocol identification part =
     (case part of (offset, more_fragments, chunk) \<Rightarrow>
        ip_frame config dest_mac
          (ip_packet config dest_ip protocol identification (if more_fragments then IP_FLAG_MORE_FRAGMENTS else 0)
             (of_nat (offset div 8)) chunk))"

definition send_ip_packet :: "ipv4 \<Rightarrow> u8 \<Rightarrow> bytes \<Rightarrow> bool \<Rightarrow> network_stack \<Rightarrow> stack_outcome" where
  "send_ip_packet dest_ip protocol payload dont_fragment s =
     (case route_for dest_ip s of
        None \<Rightarrow> (s, None)
      | Some (next_hop, egress) \<Rightarrow>
          with_interface egress s (\<lambda>i.
          with_value (resolve_mac egress next_hop s) s (\<lambda>dest_mac.
          let config = ni_config i;
              max_payload = unat (max_ip_payload config) in
          if length payload \<le> max_payload then
            (write_frame egress
               (ip_frame config dest_mac
                  (ip_packet config dest_ip protocol 0 (if dont_fragment then IP_FLAG_DONT_FRAGMENT else 0) 0 payload)) s, None)
          else if dont_fragment then (s, None)
          else
            let identification = ns_next_ip_id s;
                s = s\<lparr>ns_next_ip_id := identification + 1\<rparr>
            in case fragment_loop max_payload payload 0 of
                 None \<Rightarrow> (s, Some Diverges)
               | Some parts \<Rightarrow>
                   (foldl (\<lambda>s part. write_frame egress (fragment_frame config dest_mac dest_ip protocol identification part) s)
                      s parts, None))))"

section \<open>TCP segments\<close>

definition send_tcp_segment :: "ipv4 \<Rightarrow> tcp \<Rightarrow> bytes \<Rightarrow> network_stack \<Rightarrow> stack_outcome" where
  "send_tcp_segment dest_ip header payload s =
     with_value (source_address_for dest_ip s) s (\<lambda>source.
       send_ip_packet dest_ip IP_TCP (tcp_segment_bytes source dest_ip header payload) True s)"

definition rst_for :: "tcp \<Rightarrow> tcp" where
  "rst_for segment =
     (if tcp_ack segment
      then tcp_new (tcp_dest_port segment) (tcp_src_port segment) (tcp_acknowledgement_number segment) 0 5 FLAG_RST 0 0 0
      else
        let payload_size = (case tcp_next_layer segment of None \<Rightarrow> 0 | Some raw \<Rightarrow> length raw);
            consumed = of_nat payload_size + (if tcp_syn segment then 1 else 0) + (if tcp_fin segment then 1 else 0)
        in tcp_new (tcp_dest_port segment) (tcp_src_port segment) 0 (tcp_sequence_number segment + consumed) 5
             (FLAG_RST OR FLAG_ACK) 0 0 0)"

definition send_rst :: "ip \<Rightarrow> tcp \<Rightarrow> network_stack \<Rightarrow> stack_outcome" where
  "send_rst p segment s =
     with_value (thrown (ipv4_of_bytes (ip_src_address p))) s (\<lambda>remote_ip. send_tcp_segment remote_ip (rst_for segment) [] s)"

section \<open>UDP datagrams\<close>

definition udp_datagram_bytes :: "ipv4 \<Rightarrow> ipv4 \<Rightarrow> udp \<Rightarrow> bytes \<Rightarrow> bytes" where
  "udp_datagram_bytes source dest_ip header payload =
     (let datagram = udp_new (udp_src_port header) (udp_dest_port header) (udp_length header) 0 [];
          datagram = (if payload \<noteq> [] then datagram\<lparr>udp_next_layer := Some payload\<rparr> else datagram);
          csum = transport_checksum source dest_ip IP_UDP (udp_to_bytes datagram)
      in udp_to_bytes (datagram\<lparr>udp_checksum := (if csum = 0 then 0xFFFF else csum)\<rparr>))"

definition send_udp_datagram :: "ipv4 \<Rightarrow> udp \<Rightarrow> bytes \<Rightarrow> network_stack \<Rightarrow> stack_outcome" where
  "send_udp_datagram dest_ip header payload s =
     with_value (source_address_for dest_ip s) s (\<lambda>source.
       send_ip_packet dest_ip IP_UDP (udp_datagram_bytes source dest_ip header payload) False s)"

definition push_datagram :: "ipv4 \<Rightarrow> pending_datagram \<Rightarrow> net_interface \<Rightarrow> net_interface" where
  "push_datagram next_hop d i =
     i\<lparr>ni_pending_datagrams :=
        AList.update next_hop ((case map_of (ni_pending_datagrams i) next_hop of None \<Rightarrow> [] | Some ds \<Rightarrow> ds) @ [d])
          (ni_pending_datagrams i)\<rparr>"

definition send_or_queue_udp :: "ipv4 \<Rightarrow> udp \<Rightarrow> bytes \<Rightarrow> network_stack \<Rightarrow> stack_outcome" where
  "send_or_queue_udp dest_ip header payload s =
     (if is_broadcast_for_any_interface dest_ip s then send_udp_datagram dest_ip header payload s
      else case route_for dest_ip s of
          None \<Rightarrow> (s, None)
        | Some (next_hop, egress) \<Rightarrow>
            with_interface egress s (\<lambda>i.
            if arp_contains next_hop (ni_arp_table i) then send_udp_datagram dest_ip header payload s
            else
              ensure_arp_resolution egress next_hop
                (update_interface egress
                   (push_datagram next_hop \<lparr>pg_destination = dest_ip, pg_src_port = udp_src_port header,
                      pg_dest_port = udp_dest_port header, pg_payload = payload\<rparr>) s)))"

fun flush_datagrams :: "pending_datagram list \<Rightarrow> network_stack \<Rightarrow> stack_outcome" where
  "flush_datagrams [] s = (s, None)"
| "flush_datagrams (d # rest) s =
     and_then (send_udp_datagram (pg_destination d)
        (udp_new (pg_src_port d) (pg_dest_port d) (of_nat (8 + length (pg_payload d))) 0 []) (pg_payload d) s)
       (flush_datagrams rest)"

definition flush_pending_outbound_datagrams :: "ipv4 \<Rightarrow> network_stack \<Rightarrow> stack_outcome" where
  "flush_pending_outbound_datagrams ip s =
     (case map_of (ni_pending_datagrams (primary s)) ip of
        None \<Rightarrow> (s, None)
      | Some pending \<Rightarrow>
          and_then (flush_datagrams pending s) (\<lambda>s.
            (update_interface 0 (\<lambda>i. i\<lparr>ni_pending_datagrams := AList.delete ip (ni_pending_datagrams i)\<rparr>) s, None)))"

text \<open>\<open>UdpSocket::send_to\<close> on the socket bound to a port.\<close>

definition socket_send_to :: "udp_socket \<Rightarrow> ipv4 \<Rightarrow> u16 \<Rightarrow> bytes \<Rightarrow> network_stack \<Rightarrow> stack_outcome" where
  "socket_send_to socket dest_ip dest_port data s =
     send_or_queue_udp dest_ip (udp_new (us_local_port socket) dest_port (of_nat (8 + length data)) 0 []) data s"

section \<open>ICMP messages\<close>

definition send_icmp_message :: "ipv4 \<Rightarrow> u8 \<Rightarrow> u8 \<Rightarrow> u32 \<Rightarrow> bytes \<Rightarrow> network_stack \<Rightarrow> stack_outcome" where
  "send_icmp_message dest_ip type code rest_of_header payload s =
     (case route_for dest_ip s of
        None \<Rightarrow> (s, None)
      | Some (next_hop, egress) \<Rightarrow>
          with_interface egress s (\<lambda>i.
          if \<not> is_broadcast_address next_hop (ni_config i) \<and> \<not> arp_contains next_hop (ni_arp_table i)
          then ensure_arp_resolution egress next_hop s
          else
            send_ip_packet dest_ip IP_ICMP
              (icmp_to_bytes (icmp_compute_checksum (icmp_new type code 0 rest_of_header payload))) False s))"

definition send_echo_request :: "ipv4 \<Rightarrow> u16 \<Rightarrow> u16 \<Rightarrow> bytes \<Rightarrow> network_stack \<Rightarrow> stack_outcome" where
  "send_echo_request destination identifier sequence payload s =
     send_icmp_message destination ICMP_ECHO_REQUEST ICMP_CODE_NONE
       (push_bit 16 (ucast identifier) OR ucast sequence) payload s"

definition may_send_icmp_error :: "network_stack \<Rightarrow> bool \<times> network_stack" where
  "may_send_icmp_error s =
     (if ns_icmp_tokens s < MS_PER_SECOND then (False, s)
      else (True, s\<lparr>ns_icmp_tokens := ns_icmp_tokens s - MS_PER_SECOND\<rparr>))"

text \<open>The three errors that quote the packet which caused them, and the one that cannot.\<close>

definition send_icmp_error :: "u8 \<Rightarrow> u8 \<Rightarrow> ip \<Rightarrow> network_stack \<Rightarrow> stack_outcome" where
  "send_icmp_error type code p s =
     (case may_send_icmp_error s of
        (False, s) \<Rightarrow> (s, None)
      | (True, s) \<Rightarrow>
          with_value (thrown (ipv4_of_bytes (ip_src_address p))) s (\<lambda>remote_ip.
          send_icmp_message remote_ip type code 0 (take ICMP_QUOTED_BYTES (ip_to_bytes p)) s))"

definition send_icmp_time_exceeded :: "ip \<Rightarrow> network_stack \<Rightarrow> stack_outcome" where
  "send_icmp_time_exceeded = send_icmp_error ICMP_TIME_EXCEEDED ICMP_CODE_TTL_EXCEEDED"

definition send_icmp_net_unreachable :: "ip \<Rightarrow> network_stack \<Rightarrow> stack_outcome" where
  "send_icmp_net_unreachable = send_icmp_error ICMP_DESTINATION_UNREACHABLE ICMP_CODE_NET_UNREACHABLE"

definition send_icmp_port_unreachable :: "ip \<Rightarrow> network_stack \<Rightarrow> stack_outcome" where
  "send_icmp_port_unreachable = send_icmp_error ICMP_DESTINATION_UNREACHABLE ICMP_CODE_PORT_UNREACHABLE"

definition send_icmp_fragment_reassembly_time_exceeded :: "ipv4 \<Rightarrow> network_stack \<Rightarrow> stack_outcome" where
  "send_icmp_fragment_reassembly_time_exceeded destination s =
     (case may_send_icmp_error s of
        (False, s) \<Rightarrow> (s, None)
      | (True, s) \<Rightarrow>
          send_icmp_message destination ICMP_TIME_EXCEEDED ICMP_CODE_FRAGMENT_REASSEMBLY_TIME_EXCEEDED 0 [] s)"

end
