(* ===== verification/Network_Stack.thy ===== *)
theory Network_Stack
  imports Stack_Output
begin

text \<open>
  The handlers of the network stack (\<open>network_stack.cpp\<close>): frames from the wire down to the transport
  protocols, the connection table, the DHCP client and the DNS resolver with their callbacks, \<open>poll\<close> and
  the timers.

  A member function of a connection is run on its record and the callbacks it logged are executed in order
  afterwards. The callbacks read nothing of the connection and the functions do not look at what a callback
  did, so this is the order of effects of the code, up to a callback that throws: what is left of the
  connection is then \<open>ns_torn_connection\<close>. Of the state subscribers only the stack's own is executed; the
  callbacks an application registers on a connection are not modelled. The DHCP client sends as the last statement of every function,
  so nothing is left to undo when its send throws. The resolver is treated like a connection.
\<close>

section \<open>Connections\<close>

fun run_events :: "connection_key \<Rightarrow> u64 \<Rightarrow> tcp_event list \<Rightarrow> network_stack \<Rightarrow> stack_outcome" where
  "run_events key conn_id [] s = (s, None)"
| "run_events key conn_id (Segment header payload # events) s =
     and_then (send_tcp_segment (ck_remote_ip key) header payload s) (run_events key conn_id events)"
| "run_events key conn_id (State_changed new_state # events) s =
     run_events key conn_id events
       (if new_state = CLOSED then s\<lparr>ns_pending_reap := ns_pending_reap s @ [conn_id]\<rparr> else s)"
| "run_events key conn_id (Data_ready # events) s = run_events key conn_id events s"

definition store_connection :: "connection_key \<Rightarrow> tcp_connection \<Rightarrow> network_stack \<Rightarrow> network_stack" where
  "store_connection key c s = s\<lparr>ns_connections := AList.update key (c\<lparr>c_events := []\<rparr>) (ns_connections s)\<rparr>"

definition on_connection :: "connection_key \<Rightarrow> (tcp_connection \<Rightarrow> tcp_connection) \<Rightarrow> network_stack \<Rightarrow> stack_outcome" where
  "on_connection key f s =
     (case map_of (ns_connections s) key of
        None \<Rightarrow> (s, None)
      | Some c \<Rightarrow>
          (case run_events key (c_id c) (c_events (f c)) (store_connection key (f c) s) of
             (s, None) \<Rightarrow> (s, None)
           | (s, Some e) \<Rightarrow>
               (store_connection key (ns_torn_connection s (ns_throws s) c) s\<lparr>ns_throws := ns_throws s + 1\<rparr>, Some e)))"

definition insert_connection :: "connection_key \<Rightarrow> tcp_connection \<Rightarrow> network_stack \<Rightarrow> network_stack" where
  "insert_connection key c s =
     store_connection key c (s\<lparr>ns_by_id := AList.update (c_id c) key (ns_by_id s)\<rparr>)"

definition make_connection :: "connection_key \<Rightarrow> network_stack \<Rightarrow> tcp_connection \<times> network_stack" where
  "make_connection key s =
     (new_connection (ns_next_connection_id s) (ck_local_port key) (ck_remote_ip key) (ck_remote_port key)
        (isn_generate (ns_isn s) (ns_clock s) (ic_ip (ni_config (primary s))) (ck_local_port key) (ck_remote_ip key)
           (ck_remote_port key))
        (local_mss (ni_config (primary s))) CUBIC,
      s\<lparr>ns_next_connection_id := ns_next_connection_id s + 1\<rparr>)"

definition push_connect :: "ipv4 \<Rightarrow> connection_key \<Rightarrow> net_interface \<Rightarrow> net_interface" where
  "push_connect next_hop key i =
     i\<lparr>ni_pending_connects :=
        AList.update next_hop ((case map_of (ni_pending_connects i) next_hop of None \<Rightarrow> [] | Some keys \<Rightarrow> keys) @ [key])
          (ni_pending_connects i)\<rparr>"

definition stack_connect :: "ipv4 \<Rightarrow> u16 \<Rightarrow> network_stack \<Rightarrow> connection_key \<times> stack_outcome" where
  "stack_connect remote_ip remote_port s =
     (let (local_port, s) = allocate_ephemeral_port s;
          key = \<lparr>ck_remote_ip = remote_ip, ck_remote_port = remote_port, ck_local_port = local_port\<rparr>;
          (c, s) = make_connection key s;
          s = insert_connection key c s
      in (key,
          case route_for remote_ip s of
            None \<Rightarrow> on_connection key fail s
          | Some (next_hop, egress) \<Rightarrow>
              with_interface egress s (\<lambda>i.
              if arp_contains next_hop (ni_arp_table i) then on_connection key initiate_connect s
              else ensure_arp_resolution egress next_hop (update_interface egress (push_connect next_hop key) s))))"

text \<open>The application's calls on a connection it holds.\<close>

definition connection_send :: "connection_key \<Rightarrow> bytes \<Rightarrow> network_stack \<Rightarrow> stack_outcome" where
  "connection_send key data s =
     (case map_of (ns_connections s) key of
        None \<Rightarrow> (s, None)
      | Some c \<Rightarrow>
          (case conn_send data c of None \<Rightarrow> (s, Some Diverges) | Some (n, c') \<Rightarrow> on_connection key (\<lambda>c. c') s))"

definition connection_read :: "connection_key \<Rightarrow> nat \<Rightarrow> network_stack \<Rightarrow> stack_outcome" where
  "connection_read key max_bytes s = on_connection key (\<lambda>c. snd (conn_read max_bytes c)) s"

definition connection_close :: "connection_key \<Rightarrow> network_stack \<Rightarrow> stack_outcome" where
  "connection_close key s = on_connection key conn_close s"

fun start_connects :: "connection_key list \<Rightarrow> network_stack \<Rightarrow> stack_outcome" where
  "start_connects [] s = (s, None)"
| "start_connects (key # keys) s = and_then (on_connection key initiate_connect s) (start_connects keys)"

fun fail_connects :: "connection_key list \<Rightarrow> network_stack \<Rightarrow> stack_outcome" where
  "fail_connects [] s = (s, None)"
| "fail_connects (key # keys) s = and_then (on_connection key fail s) (fail_connects keys)"

definition fail_pending_outbound_connects :: "nat \<Rightarrow> ipv4 \<Rightarrow> network_stack \<Rightarrow> stack_outcome" where
  "fail_pending_outbound_connects interface_index ip s =
     with_interface interface_index s (\<lambda>i.
       case map_of (ni_pending_connects i) ip of
         None \<Rightarrow> (s, None)
       | Some keys \<Rightarrow>
           and_then (fail_connects keys s) (\<lambda>s.
             (update_interface interface_index (\<lambda>i. i\<lparr>ni_pending_connects := AList.delete ip (ni_pending_connects i)\<rparr>) s, None)))"

section \<open>Name resolution and address configuration\<close>

definition ensure_dns_resolver :: "network_stack \<Rightarrow> network_stack" where
  "ensure_dns_resolver s =
     (case ns_dns s of
        Some r \<Rightarrow> s
      | None \<Rightarrow>
          s\<lparr>ns_dns := Some (dns_resolver_new
              (isn_offset_for (ns_isn s) (ic_ip (ni_config (primary s))) DNS_SERVER_PORT
                 (ic_gateway (ni_config (primary s))) DNS_SERVER_PORT))\<rparr>)"

text \<open>The resolver's send: bind the port, route what arrives there back to the resolver, send. The resolver catches a \<open>BaseException\<close> of it.\<close>

definition dns_transmit :: "ipv4 \<Rightarrow> u16 \<Rightarrow> bytes \<Rightarrow> network_stack \<Rightarrow> stack_outcome" where
  "dns_transmit server source_port payload s =
     (let s = set_receiver source_port (To_dns source_port) (bind_udp source_port s)
      in case map_of (ns_udp_sockets s) source_port of
           None \<Rightarrow> (s, None)
         | Some socket \<Rightarrow> catching_base (socket_send_to socket server DNS_SERVER_PORT payload s))"

fun run_dns_actions :: "dns_action list \<Rightarrow> network_stack \<Rightarrow> stack_outcome" where
  "run_dns_actions [] s = (s, None)"
| "run_dns_actions (Dns_send server port payload # actions) s =
     and_then (dns_transmit server port payload s) (run_dns_actions actions)"
| "run_dns_actions (Dns_release port # actions) s = run_dns_actions actions (snd (unbind_udp port s))"
| "run_dns_actions (Dns_resolved callback name addresses # actions) s =
     run_dns_actions actions (s\<lparr>ns_app := ns_app s @ [App_resolved callback name addresses]\<rparr>)"

definition with_resolver :: "(dns_resolver \<Rightarrow> dns_resolver outcome) \<Rightarrow> network_stack \<Rightarrow> stack_outcome" where
  "with_resolver f s =
     (case ns_dns s of
        None \<Rightarrow> (s, None)
      | Some r \<Rightarrow>
          (let (r', e) = f r
           in case run_dns_actions (rs_actions r') (s\<lparr>ns_dns := Some (r'\<lparr>rs_actions := []\<rparr>)\<rparr>) of
                (s, None) \<Rightarrow> (s, map_option Thrown e)
              | (s, Some e) \<Rightarrow>
                  (s\<lparr>ns_dns := Some ((ns_torn_resolver s (ns_throws s) r)\<lparr>rs_actions := []\<rparr>),
                     ns_throws := ns_throws s + 1\<rparr>, Some e)))"

definition set_dns_servers :: "ipv4 list \<Rightarrow> network_stack \<Rightarrow> network_stack" where
  "set_dns_servers servers s =
     (let s = ensure_dns_resolver s in s\<lparr>ns_dns := map_option (set_servers servers) (ns_dns s)\<rparr>)"

definition stack_resolve :: "string \<Rightarrow> nat \<Rightarrow> network_stack \<Rightarrow> stack_outcome" where
  "stack_resolve name callback s = with_resolver (resolve name callback) (ensure_dns_resolver s)"

definition lease_acquired :: "dhcp_lease \<Rightarrow> network_stack \<Rightarrow> network_stack" where
  "lease_acquired l s =
     (let s = configure_interface
            ((ni_config (primary s))\<lparr>ic_ip := le_ip l, ic_prefix_length := lease_prefix_length l, ic_gateway := le_gateway l,
               ic_mtu := le_mtu l\<rparr>) s
      in if le_dns_servers l \<noteq> [] then set_dns_servers (le_dns_servers l) s else s)"

definition lease_lost :: "network_stack \<Rightarrow> network_stack" where
  "lease_lost s = configure_interface ((ni_config (primary s))\<lparr>ic_ip := ipv4_zero, ic_gateway := ipv4_zero\<rparr>) s"

text \<open>The DHCP client's lambda holds a pointer to the socket of port 68, which dangles once that port is unbound.\<close>

fun run_dhcp_actions :: "dhcp_action list \<Rightarrow> network_stack \<Rightarrow> stack_outcome" where
  "run_dhcp_actions [] s = (s, None)"
| "run_dhcp_actions (Dhcp_send dest payload # actions) s =
     (case map_of (ns_udp_sockets s) DHCP_CLIENT_PORT of
        None \<Rightarrow> (s, Some (Thrown UndefinedBehaviour))
      | Some socket \<Rightarrow> and_then (socket_send_to socket dest DHCP_SERVER_PORT payload s) (run_dhcp_actions actions))"
| "run_dhcp_actions (Lease_acquired l # actions) s = run_dhcp_actions actions (lease_acquired l s)"
| "run_dhcp_actions (Lease_lost # actions) s = run_dhcp_actions actions (lease_lost s)"

definition with_dhcp :: "(dhcp_client \<Rightarrow> dhcp_client outcome) \<Rightarrow> network_stack \<Rightarrow> stack_outcome" where
  "with_dhcp f s =
     (case ns_dhcp s of
        None \<Rightarrow> (s, None)
      | Some c \<Rightarrow>
          (let (c', e) = f c
           in and_then (run_dhcp_actions (dc_actions c') (s\<lparr>ns_dhcp := Some (c'\<lparr>dc_actions := []\<rparr>)\<rparr>))
                (\<lambda>s. (s, map_option Thrown e))))"

definition start_dhcp :: "network_stack \<Rightarrow> stack_outcome" where
  "start_dhcp s =
     (case ns_dhcp s of
        Some c \<Rightarrow> (s, None)
      | None \<Rightarrow>
          (let s = bind_udp DHCP_CLIENT_PORT s;
               s = s\<lparr>ns_dhcp := Some (dhcp_client_new (ic_mac (ni_config (primary s)))
                      (isn_offset_for (ns_isn s) (ic_ip (ni_config (primary s))) DHCP_CLIENT_PORT
                         limited_broadcast_address DHCP_SERVER_PORT))\<rparr>;
               s = set_receiver DHCP_CLIENT_PORT To_dhcp s
           in with_dhcp dhcp_start s))"

section \<open>Transport protocols\<close>

definition push_accept :: "connection_key \<Rightarrow> network_stack \<Rightarrow> network_stack" where
  "push_accept key s =
     s\<lparr>ns_pending_accepts :=
        AList.update (ck_local_port key)
          ((case map_of (ns_pending_accepts s) (ck_local_port key) of None \<Rightarrow> [] | Some keys \<Rightarrow> keys) @ [key])
          (ns_pending_accepts s)\<rparr>"

definition queued_accepts :: "u16 \<Rightarrow> network_stack \<Rightarrow> nat" where
  "queued_accepts port s = (case map_of (ns_pending_accepts s) port of None \<Rightarrow> 0 | Some keys \<Rightarrow> length keys)"

text \<open>
  A connection opened by a SYN is made, answers, and is entered into the tables; when its answer cannot be
  sent it is dropped.
\<close>

definition open_incoming :: "connection_key \<Rightarrow> tcp \<Rightarrow> network_stack \<Rightarrow> stack_outcome" where
  "open_incoming key segment s =
     (let (c, s) = make_connection key s;
          c = open_connection segment c
      in case run_events key (c_id c) (c_events c) s of
           (t, None) \<Rightarrow> (insert_connection key c t, None)
         | (t, Some e) \<Rightarrow> catching_std (t, Some e))"

definition handle_tcp :: "ip \<Rightarrow> tcp \<Rightarrow> network_stack \<Rightarrow> stack_outcome" where
  "handle_tcp p segment s =
     with_value (thrown (ipv4_of_bytes (ip_src_address p))) s (\<lambda>src_ip.
     with_value (thrown (ipv4_of_bytes (ip_dest_address p))) s (\<lambda>dest_ip.
     if transport_checksum src_ip dest_ip IP_TCP (tcp_received_bytes segment) \<noteq> 0 then (s, None)
     else
       let key = \<lparr>ck_remote_ip = src_ip, ck_remote_port = tcp_src_port segment, ck_local_port = tcp_dest_port segment\<rparr> in
       case map_of (ns_connections s) key of
         Some c \<Rightarrow>
           and_then (on_connection key (on_segment segment) s) (\<lambda>s.
             (case map_of (ns_connections s) key of
                Some c' \<Rightarrow>
                  if c_state c = SYN_RECEIVED \<and> c_state c' = ESTABLISHED then push_accept key s else s
              | None \<Rightarrow> s, None))
       | None \<Rightarrow>
           (case (if tcp_syn segment then map_of (ns_listening s) (tcp_dest_port segment) else None) of
              None \<Rightarrow> if tcp_rst segment then (s, None) else send_rst p segment s
            | Some backlog \<Rightarrow>
                if queued_accepts (tcp_dest_port segment) s \<ge> backlog then (s, None) else open_incoming key segment s)))"

definition socket_on_datagram :: "udp_socket \<Rightarrow> ipv4 \<Rightarrow> udp \<Rightarrow> network_stack \<Rightarrow> stack_outcome" where
  "socket_on_datagram socket src_ip datagram s =
     (let payload = (case udp_next_layer datagram of None \<Rightarrow> [] | Some raw \<Rightarrow> raw);
          src_port = udp_src_port datagram
      in case us_receiver socket of
           Nobody \<Rightarrow> (s, None)
         | Application \<Rightarrow> (s\<lparr>ns_app := ns_app s @ [App_datagram (us_local_port socket) src_ip src_port payload]\<rparr>, None)
         | To_dhcp \<Rightarrow> if src_port \<noteq> DHCP_SERVER_PORT then (s, None) else with_dhcp (dhcp_on_datagram payload) s
         | To_dns source_port \<Rightarrow> with_resolver (dns_on_datagram src_ip src_port source_port payload) s)"

definition handle_udp :: "ip \<Rightarrow> udp \<Rightarrow> network_stack \<Rightarrow> stack_outcome" where
  "handle_udp p datagram s =
     with_value (thrown (ipv4_of_bytes (ip_src_address p))) s (\<lambda>src_ip.
     with_value (thrown (ipv4_of_bytes (ip_dest_address p))) s (\<lambda>dest_ip.
     if udp_checksum datagram \<noteq> 0 \<and> transport_checksum src_ip dest_ip IP_UDP (udp_to_bytes datagram) \<noteq> 0 then (s, None)
     else
       case map_of (ns_udp_sockets s) (udp_dest_port datagram) of
         None \<Rightarrow> send_icmp_port_unreachable p s
       | Some socket \<Rightarrow> socket_on_datagram socket src_ip datagram s))"

text \<open>The connection an ICMP error quotes.\<close>

definition connection_from_icmp_quote :: "icmp \<Rightarrow> network_stack \<Rightarrow> connection_key option result" where
  "connection_from_icmp_quote message s =
     (case icmp_next_layer message of
        None \<Rightarrow> Inr None
      | Some embedded \<Rightarrow>
          if length embedded < 28 then Inr None
          else
            rbind (byte_at embedded 0) (\<lambda>b0.
            let ihl = unat (b0 AND 0x0f) * 4 in
            if ihl < 20 \<or> length embedded < ihl + 4 then Inr None
            else
              rbind (byte_at embedded 9) (\<lambda>protocol.
              if protocol \<noteq> IP_TCP then Inr None
              else
                rbind (rbind (slice embedded 16 4) ipv4_of_bytes) (\<lambda>original_dest.
                rbind (slice_int embedded ihl) (\<lambda>local_port.
                rbind (slice_int embedded (ihl + 2)) (\<lambda>remote_port.
                let key = \<lparr>ck_remote_ip = original_dest, ck_remote_port = remote_port, ck_local_port = local_port\<rparr>
                in Inr (if map_of (ns_connections s) key \<noteq> None then Some key else None)))))))"

definition handle_icmp_fragmentation_needed :: "icmp \<Rightarrow> network_stack \<Rightarrow> stack_outcome" where
  "handle_icmp_fragmentation_needed message s =
     with_value (thrown (connection_from_icmp_quote message s)) s (\<lambda>quoted.
       case quoted of
         None \<Rightarrow> (s, None)
       | Some key \<Rightarrow>
           let next_hop_mtu = (ucast (icmp_rest_of_header message AND 0xFFFF) :: u16);
               next_hop_mtu = (if next_hop_mtu = 0 then 576 else next_hop_mtu);
               path_mss = (if next_hop_mtu > 40 then next_hop_mtu - 40 else 0)
           in on_connection key (reduce_effective_mss path_mss) s)"

definition handle_icmp_error :: "icmp \<Rightarrow> network_stack \<Rightarrow> stack_outcome" where
  "handle_icmp_error message s =
     (if icmp_code message = ICMP_CODE_FRAGMENTATION_NEEDED then handle_icmp_fragmentation_needed message s
      else
        with_value (thrown (connection_from_icmp_quote message s)) s (\<lambda>quoted.
          case quoted of None \<Rightarrow> (s, None) | Some key \<Rightarrow> on_connection key fail s))"

definition handle_icmp :: "ip \<Rightarrow> icmp \<Rightarrow> network_stack \<Rightarrow> stack_outcome" where
  "handle_icmp p message s =
     with_value (thrown (ipv4_of_bytes (ip_src_address p))) s (\<lambda>src_ip.
     let payload = (case icmp_next_layer message of None \<Rightarrow> [] | Some raw \<Rightarrow> raw) in
     if \<not> icmp_verify_checksum message then (s, None)
     else if icmp_type message = ICMP_ECHO_REQUEST then
       with_value (thrown (ipv4_of_bytes (ip_dest_address p))) s (\<lambda>destination.
       if is_broadcast_for_any_interface destination s then (s, None)
       else send_icmp_message src_ip ICMP_ECHO_REPLY ICMP_CODE_NONE (icmp_rest_of_header message) payload s)
     else if icmp_type message = ICMP_ECHO_REPLY then
       (if ns_echo_callback s
        then s\<lparr>ns_app := ns_app s @ [App_echo_reply src_ip (icmp_identifier message) (icmp_sequence message) payload]\<rparr>
        else s, None)
     else if icmp_type message = ICMP_DESTINATION_UNREACHABLE then handle_icmp_error message s
     else (s, None))"

definition dispatch_transport :: "ip \<Rightarrow> network_stack \<Rightarrow> stack_outcome" where
  "dispatch_transport p s =
     (case ip_next_layer p of
        None \<Rightarrow> (s, None)
      | Some layer \<Rightarrow>
          if ip_protocol p = IP_TCP then (case layer of TcpLayer t \<Rightarrow> handle_tcp p t s | _ \<Rightarrow> (s, None))
          else if ip_protocol p = IP_UDP then (case layer of UdpLayer u \<Rightarrow> handle_udp p u s | _ \<Rightarrow> (s, None))
          else if ip_protocol p = IP_ICMP then (case layer of IcmpLayer m \<Rightarrow> handle_icmp p m s | _ \<Rightarrow> (s, None))
          else (s, None))"

section \<open>IP\<close>

definition handle_ip_fragment :: "ip \<Rightarrow> network_stack \<Rightarrow> stack_outcome" where
  "handle_ip_fragment p s =
     with_value (thrown (ipv4_of_bytes (ip_src_address p))) s (\<lambda>source.
     case ip_next_layer p of
       Some (RawLayer raw) \<Rightarrow>
         with_value (thrown (ipv4_of_bytes (ip_dest_address p))) s (\<lambda>destination.
         case offer source destination (ip_identification p) (ip_protocol p) (ip_fragment_offset p) (ip_flag_m p) raw
                (ns_reassembler s) of
           (Complete datagram, ra) \<Rightarrow>
             let s = s\<lparr>ns_reassembler := ra\<rparr>;
                 reassembled =
                   ip_compute_checksum
                     ((ip_new 4 5 (ip_TOS p) (of_nat (20 + length datagram)) (ip_identification p) 0 0 (ip_TTL p) (ip_protocol p) 0
                         (ip_src_address p) (ip_dest_address p))\<lparr>ip_next_layer := Some (RawLayer datagram)\<rparr>)
             in catching_base
                  (with_value (thrown (ip_of_bytes (ip_to_bytes reassembled))) s (\<lambda>complete. dispatch_transport complete s))
         | (_, ra) \<Rightarrow> (s\<lparr>ns_reassembler := ra\<rparr>, None))
     | _ \<Rightarrow> (s, None))"

definition forwarded_packet :: "u8 \<Rightarrow> bytes \<Rightarrow> bytes" where
  "forwarded_packet ttl ip_bytes =
     (let forwarded = ip_bytes[TTL_OFFSET := ttl - 1, CHECKSUM_OFFSET := 0, CHECKSUM_OFFSET + 1 := 0];
          csum = internet_checksum (take IP_HEADER_SIZE forwarded)
      in forwarded[CHECKSUM_OFFSET := ucast (drop_bit 8 csum), CHECKSUM_OFFSET + 1 := ucast (csum AND 0xff)])"

definition forward_ip :: "nat \<Rightarrow> ip \<Rightarrow> bytes \<Rightarrow> network_stack \<Rightarrow> stack_outcome" where
  "forward_ip ingress p ip_bytes s =
     with_value (thrown (ipv4_of_bytes (ip_src_address p))) s (\<lambda>source.
     with_value (thrown (ipv4_of_bytes (ip_dest_address p))) s (\<lambda>destination.
     if \<not> ip_verify_checksum p then (s, None)
     else if ip_TTL p \<le> 1 then send_icmp_time_exceeded p s
     else
       case route_for destination s of
         None \<Rightarrow> send_icmp_net_unreachable p s
       | Some (next_hop, egress) \<Rightarrow>
           if egress = ingress then (s, None)
           else if length ip_bytes < IP_HEADER_SIZE then (s, None)
           else
             with_interface egress s (\<lambda>out.
             case arp_lookup next_hop (ni_arp_table out) of
               None \<Rightarrow> ensure_arp_resolution egress next_hop s
             | Some dest_mac \<Rightarrow>
                 (write_frame egress
                    (ethernet_to_bytes ((ethernet_new (ic_mac (ni_config out)) dest_mac ETHERTYPE_IPv4)
                       \<lparr>eth_next_layer := Some (RawFrame (forwarded_packet (ip_TTL p) ip_bytes))\<rparr>)) s, None))))"

definition addressed_to_us :: "ipv4 \<Rightarrow> network_stack \<Rightarrow> bool" where
  "addressed_to_us destination s =
     list_ex (\<lambda>i. has_address (ni_config i) \<and> destination = ic_ip (ni_config i)) (ns_interfaces s)"

definition handle_ip :: "nat \<Rightarrow> ip \<Rightarrow> bytes \<Rightarrow> network_stack \<Rightarrow> stack_outcome" where
  "handle_ip ingress p ip_bytes s =
     with_value (thrown (ipv4_of_bytes (ip_dest_address p))) s (\<lambda>destination.
     with_interface ingress s (\<lambda>i.
     if \<not> addressed_to_us destination s \<and> \<not> is_broadcast_address destination (ni_config i) then
       (if ns_forwarding s then forward_ip ingress p ip_bytes s else (s, None))
     else
       with_value (thrown (ipv4_of_bytes (ip_src_address p))) s (\<lambda>source.
       let s = update_interface ingress (\<lambda>i. i\<lparr>ni_arp_table := arp_refresh source (ni_arp_table i)\<rparr>) s in
       if \<not> ip_verify_checksum p then (s, None)
       else if ip_flag_m p \<or> ip_fragment_offset p \<noteq> 0 then handle_ip_fragment p s
       else dispatch_transport p s)))"

section \<open>Frames\<close>

definition handle_arp :: "nat \<Rightarrow> arp \<Rightarrow> network_stack \<Rightarrow> stack_outcome" where
  "handle_arp ingress a s =
     with_interface ingress s (\<lambda>i.
     if arp_target_protocol_address a \<noteq> ic_ip (ni_config i) then (s, None)
     else
       let sender_ip = arp_sender_protocol_address a;
           s = update_interface ingress (\<lambda>i. i\<lparr>
                  ni_arp_table := snd (arp_learn sender_ip (arp_sender_hardware_address a) (ni_arp_table i)),
                  ni_arp_requests := AList.delete sender_ip (ni_arp_requests i)\<rparr>) s
       in
       and_then
         (case map_of (ni_pending_connects i) sender_ip of
            None \<Rightarrow> (s, None)
          | Some keys \<Rightarrow>
              and_then (start_connects keys s) (\<lambda>s.
                (update_interface ingress (\<lambda>i. i\<lparr>ni_pending_connects := AList.delete sender_ip (ni_pending_connects i)\<rparr>) s, None)))
         (\<lambda>s. and_then (flush_pending_outbound_datagrams sender_ip s) (\<lambda>s.
         if arp_operation a \<noteq> ARP_REQUEST then (s, None)
         else
           (write_frame ingress
              (arp_frame (ic_mac (ni_config i)) (arp_sender_hardware_address a)
                 (arp_new ARP_REPLY (ic_mac (ni_config i)) (ic_ip (ni_config i)) (arp_sender_hardware_address a) sender_ip)) s, None))))"

definition is_addressed_to_us :: "mac \<Rightarrow> mac \<Rightarrow> bool" where
  "is_addressed_to_us dest local_mac \<longleftrightarrow>
     dest = local_mac \<or> dest = MAC_BROADCAST \<or> hd (mac_get_address dest) AND 1 \<noteq> 0"

definition handle_frame :: "nat \<Rightarrow> bytes \<Rightarrow> network_stack \<Rightarrow> stack_outcome" where
  "handle_frame ingress frame s =
     catching_base
       (with_value (thrown (ethernet_from_bytes frame)) s (\<lambda>e.
        with_interface ingress s (\<lambda>i.
        if \<not> is_addressed_to_us (eth_dest e) (ic_mac (ni_config i)) then (s, None)
        else if eth_protocol e = ETHERTYPE_ARP then
          (case eth_next_layer e of Some (ArpFrame a) \<Rightarrow> handle_arp ingress a s | _ \<Rightarrow> (s, None))
        else if eth_protocol e = ETHERTYPE_IPv4 then
          (case eth_next_layer e of
             Some (IpFrame p) \<Rightarrow>
               with_value (thrown (slice_from frame ETHERNET_HEADER_SIZE)) s (\<lambda>ip_bytes. handle_ip ingress p ip_bytes s)
           | _ \<Rightarrow> (s, None))
        else (s, None))))"

section \<open>Polling\<close>

text \<open>\<open>PacketChannel::read\<close>: the next frame the device has queued, cut to the buffer, or nothing.\<close>

definition read_frame :: "nat \<Rightarrow> network_stack \<Rightarrow> bytes \<times> network_stack" where
  "read_frame index s =
     (let i = ns_interfaces s ! index in
      case ni_incoming i of
        [] \<Rightarrow> ([], s)
      | frame # rest \<Rightarrow>
          (take (unat (ic_mtu (ni_config i)) + 18) frame, update_interface index (\<lambda>i. i\<lparr>ni_incoming := rest\<rparr>) s))"

text \<open>One pass over the interfaces: which are drained, how many frames were processed, the stack, and the exception that ended the pass.\<close>

fun poll_pass :: "nat list \<Rightarrow> bool list \<Rightarrow> nat \<Rightarrow> network_stack \<Rightarrow> bool list \<times> nat \<times> stack_outcome" where
  "poll_pass [] drained processed s = (drained, processed, s, None)"
| "poll_pass (ingress # rest) drained processed s =
     (if drained ! ingress then poll_pass rest drained processed s
      else if processed \<ge> POLL_FRAME_BUDGET then (drained, processed, s, None)
      else
        let (frame, s) = read_frame ingress s in
        if frame = [] then poll_pass rest (drained[ingress := True]) processed s
        else case handle_frame ingress frame s of
            (s, None) \<Rightarrow> poll_pass rest drained (processed + 1) s
          | (s, Some e) \<Rightarrow> (drained, processed, s, Some e))"

definition still_draining :: "bool list \<Rightarrow> nat" where
  "still_draining drained = length (filter Not drained)"

lemma poll_pass_result:
  "poll_pass is drained processed s = (drained', processed', s', e) \<Longrightarrow>
     length drained' = length drained \<and> processed \<le> processed' \<and> still_draining drained' \<le> still_draining drained
     \<and> (processed \<le> POLL_FRAME_BUDGET \<longrightarrow> processed' \<le> POLL_FRAME_BUDGET)"
proof (induction "is" drained processed s rule: poll_pass.induct)
  case (2 ingress rest drained processed s)
  have mark: "still_draining (drained[ingress := True]) \<le> still_draining drained" for drained
    by (induction drained arbitrary: ingress) (auto simp: still_draining_def split: nat.splits)
  show ?case
    using "2.prems" "2.IH"(1) "2.IH"(2) "2.IH"(3) mark [of drained]
    by (fastforce simp: Let_def POLL_FRAME_BUDGET_def split: if_splits prod.splits option.splits)
qed simp

lemma poll_pass_progress:
  "poll_pass is drained processed s = (drained', processed', s', None) \<Longrightarrow> i \<in> set is \<Longrightarrow> i < length drained \<Longrightarrow> \<not> drained ! i \<Longrightarrow>
     processed < POLL_FRAME_BUDGET \<Longrightarrow> processed < processed' \<or> still_draining drained' < still_draining drained"
proof (induction "is" drained processed s rule: poll_pass.induct)
  case (2 ingress rest drained processed s)
  show ?case
  proof (cases "drained ! ingress")
    case True
    then show ?thesis using "2.IH"(1) "2.prems" by auto
  next
    case False
    obtain frame t where r: "read_frame ingress s = (frame, t)" by fastforce
    note result = poll_pass_result [where drained' = drained' and processed' = processed' and s' = s' and e = None]
    show ?thesis
    proof (cases "frame = []")
      case True
      show ?thesis
      proof (cases "ingress < length drained")
        case inside: True
        then have "still_draining (drained[ingress := True]) < still_draining drained"
          using False unfolding still_draining_def
          by (induction drained arbitrary: ingress) (auto split: nat.splits)
        moreover have "poll_pass rest (drained[ingress := True]) processed t = (drained', processed', s', None)"
          using "2.prems" False True r by (simp add: not_le)
        ultimately show ?thesis using result by fastforce
      next
        case outside: False
        then have "poll_pass rest drained processed t = (drained', processed', s', None)"
          using "2.prems" False True r by (simp add: not_le list_update_beyond)
        moreover have "i \<in> set rest" using "2.prems" outside by auto
        ultimately show ?thesis using "2.IH"(2) [of "(frame, t)" frame t] "2.prems" False True r outside
          by (simp add: not_le list_update_beyond)
      qed
    next
      case nonempty: False
      then obtain u where "handle_frame ingress frame t = (u, None)"
          "poll_pass rest drained (processed + 1) u = (drained', processed', s', None)"
        using "2.prems" False r by (auto simp: not_le split: prod.splits option.splits)
      then show ?thesis using result by fastforce
    qed
  qed
qed simp

lemma poll_pass_shrinks:
  assumes p: "poll_pass [0..<length drained] drained processed s = (d', p', s', None)"
    and c: "processed < POLL_FRAME_BUDGET" "0 < still_draining drained"
  shows "POLL_FRAME_BUDGET - p' + still_draining d' < POLL_FRAME_BUDGET - processed + still_draining drained"
proof -
  obtain i where "i < length drained" "\<not> drained ! i"
    using c by (auto simp: still_draining_def filter_empty_conv in_set_conv_nth)
  then have "processed < p' \<or> still_draining d' < still_draining drained"
    using poll_pass_progress [OF p, of i] c by simp
  then show ?thesis using poll_pass_result [OF p] c by auto
qed

function poll_loop :: "bool list \<Rightarrow> nat \<Rightarrow> network_stack \<Rightarrow> bool \<times> stack_outcome" where
  "poll_loop drained processed s =
     (if processed < POLL_FRAME_BUDGET \<and> still_draining drained > 0 then
        (case poll_pass [0..<length drained] drained processed s of
           (drained', processed', s', None) \<Rightarrow> poll_loop drained' processed' s'
         | (drained', processed', s', Some e) \<Rightarrow> (False, s', Some e))
      else (still_draining drained = 0, s, None))"
  by pat_completeness auto
termination
proof (relation "measure (\<lambda>(drained, processed, s). POLL_FRAME_BUDGET - processed + still_draining drained)", goal_cases)
  case (2 drained processed s d' y p' z s' e)
  then have "poll_pass [0..<length drained] drained processed s = (d', p', s', None)" by simp
  then show ?case using 2(1) poll_pass_shrinks by simp
qed simp

declare poll_loop.simps [simp del]

definition stack_poll :: "network_stack \<Rightarrow> bool \<times> stack_outcome" where
  "stack_poll s =
     (case poll_loop (replicate (length (ns_interfaces s)) False) 0 s of
        (fully_drained, s, None) \<Rightarrow> (fully_drained, reap_closed_connections s, None)
      | (fully_drained, s, Some e) \<Rightarrow> (fully_drained, s, Some e))"

section \<open>Time\<close>

fun tick_connections :: "u32 \<Rightarrow> connection_key list \<Rightarrow> network_stack \<Rightarrow> stack_outcome" where
  "tick_connections elapsed_ms [] s = (s, None)"
| "tick_connections elapsed_ms (key # keys) s =
     and_then (catching_std (on_connection key (on_time_passed elapsed_ms) s)) (tick_connections elapsed_ms keys)"

fun report_expired :: "ipv4 list \<Rightarrow> network_stack \<Rightarrow> stack_outcome" where
  "report_expired [] s = (s, None)"
| "report_expired (source # rest) s =
     and_then (send_icmp_fragment_reassembly_time_exceeded source s) (report_expired rest)"

definition give_up_resolution :: "nat \<Rightarrow> ipv4 \<Rightarrow> network_stack \<Rightarrow> stack_outcome" where
  "give_up_resolution index ip s =
     and_then
       (fail_pending_outbound_connects index ip
          (update_interface index (\<lambda>i. i\<lparr>ni_arp_requests := AList.delete ip (ni_arp_requests i)\<rparr>) s))
       (\<lambda>s. (update_interface index (\<lambda>i. i\<lparr>ni_pending_datagrams := AList.delete ip (ni_pending_datagrams i)\<rparr>) s, None))"

definition set_arp_request :: "nat \<Rightarrow> ipv4 \<Rightarrow> arp_request_state \<Rightarrow> network_stack \<Rightarrow> network_stack" where
  "set_arp_request index ip r s =
     update_interface index (\<lambda>i. i\<lparr>ni_arp_requests := AList.update ip r (ni_arp_requests i)\<rparr>) s"

fun retry_requests :: "u32 \<Rightarrow> nat \<Rightarrow> (ipv4 \<times> arp_request_state) list \<Rightarrow> network_stack \<Rightarrow> stack_outcome" where
  "retry_requests elapsed_ms index [] s = (s, None)"
| "retry_requests elapsed_ms index ((ip, r) # rest) s =
     (let r = r\<lparr>ar_ms_until_retry := ar_ms_until_retry r - sint elapsed_ms\<rparr> in
      and_then
        (if ar_ms_until_retry r > 0 then (set_arp_request index ip r s, None)
         else
           let r = r\<lparr>ar_retries_remaining := ar_retries_remaining r - 1\<rparr> in
           if ar_retries_remaining r \<le> 0 then give_up_resolution index ip s
           else and_then (send_arp_request index ip s) (\<lambda>s. (set_arp_request index ip (r\<lparr>ar_ms_until_retry := ARP_RETRY_MS\<rparr>) s, None)))
        (retry_requests elapsed_ms index rest))"

fun retry_interfaces :: "u32 \<Rightarrow> nat list \<Rightarrow> network_stack \<Rightarrow> stack_outcome" where
  "retry_interfaces elapsed_ms [] s = (s, None)"
| "retry_interfaces elapsed_ms (index # rest) s =
     and_then (retry_requests elapsed_ms index (ni_arp_requests (ns_interfaces s ! index)) s) (retry_interfaces elapsed_ms rest)"

definition age_tables :: "u32 \<Rightarrow> network_stack \<Rightarrow> ipv4 list \<times> network_stack" where
  "age_tables elapsed_ms s =
     (let s = s\<lparr>ns_interfaces := map (\<lambda>i. i\<lparr>ni_arp_table := arp_age elapsed_ms (ni_arp_table i)\<rparr>) (ns_interfaces s),
                ns_icmp_tokens := min (ns_icmp_tokens s + sint elapsed_ms * ICMP_ERROR_REFILL_PER_SECOND)
                                      (ICMP_ERROR_BURST * MS_PER_SECOND)\<rparr>;
          (ra, expired) = reasm_age elapsed_ms (ns_reassembler s)
      in (expired, s\<lparr>ns_reassembler := ra\<rparr>))"

definition stack_on_time_passed :: "u32 \<Rightarrow> network_stack \<Rightarrow> stack_outcome" where
  "stack_on_time_passed elapsed_ms s =
     and_then (tick_connections elapsed_ms (map fst (ns_connections s)) s) (\<lambda>s.
     and_then (with_dhcp (dhcp_on_time_passed elapsed_ms) (reap_closed_connections s)) (\<lambda>s.
     and_then (with_resolver (dns_on_time_passed elapsed_ms) s) (\<lambda>s.
     let (expired, s) = age_tables elapsed_ms s in
     and_then (report_expired expired s) (\<lambda>s.
     retry_interfaces elapsed_ms [0..<length (ns_interfaces s)] s))))"

end
