(* ===== verification/Stack_Wire.thy ===== *)
theory Stack_Wire
  imports Network_Stack
begin

text \<open>
  Two stacks on a wire. A frame one stack writes is what another stack's \<open>_handle_frame\<close> reads: how a written
  frame is parsed back, how the frames of an oversized packet are put together again whatever their order, and
  that the receiver then does what it would have done with the unfragmented packet. \<open>way_to\<close>, \<open>hears\<close>
  and \<open>fits\<close> are the conditions under which a packet gets across; \<open>quiet\<close> forgets what a
  stack has written, so \<open>quiet s' = quiet s\<close> says that nothing else of it has changed.
\<close>

section \<open>A written frame, as its receiver sees it\<close>

text \<open>The packet with the layer its receiver parses instead of the raw bytes the sender attached.\<close>

definition packet_with :: "ip_layer \<Rightarrow> iface_config \<Rightarrow> ipv4 \<Rightarrow> u8 \<Rightarrow> u16 \<Rightarrow> u8 \<Rightarrow> u16 \<Rightarrow> ip" where
  "packet_with layer config dest_ip protocol identification flags fragment_offset =
     (ip_packet config dest_ip protocol identification flags fragment_offset (ip_layer_to_bytes layer))\<lparr>ip_next_layer := Some layer\<rparr>"

lemma ip_packet_fields [simp]:
  "ip_next_layer (ip_packet config dest protocol idn flags off payload) = Some (RawLayer payload)"
  "ip_protocol (ip_packet config dest protocol idn flags off payload) = protocol"
  "ip_src_address (ip_packet config dest protocol idn flags off payload) = ipv4_get_address (ic_ip config)"
  "ip_dest_address (ip_packet config dest protocol idn flags off payload) = ipv4_get_address dest"
  "ip_flags (ip_packet config dest protocol idn flags off payload) = flags AND 0xE0"
  "ip_fragment_offset (ip_packet config dest protocol idn flags off payload) = off"
  "ip_identification (ip_packet config dest protocol idn flags off payload) = idn"
  "ip_TTL (ip_packet config dest protocol idn flags off payload) = 64"
  "ip_TOS (ip_packet config dest protocol idn flags off payload) = 0"
  "ip_version (ip_packet config dest protocol idn flags off payload) = 4"
  "ip_IHL (ip_packet config dest protocol idn flags off payload) = 5"
  "ip_total_length (ip_packet config dest protocol idn flags off payload) = of_nat (20 + length payload)"
  by (simp_all add: ip_packet_def ip_compute_checksum_def Let_def ip_new_def)

lemma ip_packet_verifies: "ip_verify_checksum (ip_packet config dest protocol idn flags off payload)"
  unfolding ip_packet_def by (rule ip_checksum_verifies) (simp_all add: ip_new_def)

lemma packet_with_fields [simp]:
  "ip_next_layer (packet_with layer config dest protocol idn flags off) = Some layer"
  "ip_protocol (packet_with layer config dest protocol idn flags off) = protocol"
  "ip_src_address (packet_with layer config dest protocol idn flags off) = ipv4_get_address (ic_ip config)"
  "ip_dest_address (packet_with layer config dest protocol idn flags off) = ipv4_get_address dest"
  "ip_flags (packet_with layer config dest protocol idn flags off) = flags AND 0xE0"
  "ip_fragment_offset (packet_with layer config dest protocol idn flags off) = off"
  "ip_identification (packet_with layer config dest protocol idn flags off) = idn"
  "ip_TTL (packet_with layer config dest protocol idn flags off) = 64"
  "ip_TOS (packet_with layer config dest protocol idn flags off) = 0"
  by (simp_all add: packet_with_def)

lemma packet_with_bytes: "ip_to_bytes (packet_with layer config dest protocol idn flags off)
    = ip_to_bytes (ip_packet config dest protocol idn flags off (ip_layer_to_bytes layer))"
  by (simp add: ip_to_bytes_def packet_with_def)

lemma packet_with_verifies: "ip_verify_checksum ((packet_with layer config dest protocol idn flags off)\<lparr>ip_next_layer := x\<rparr>)"
  using ip_packet_verifies by (simp add: ip_verify_checksum_def packet_with_def)

lemma length_ip_packet:
  "length (ip_to_bytes (ip_packet config dest protocol idn flags off payload)) = 20 + length payload"
  by (simp add: ip_to_bytes_def ip_header_image)

lemma unat_of_nat_u16: "n < 65536 \<Longrightarrow> unat (of_nat n :: u16) = n"
  by (simp add: unsigned_of_nat take_bit_nat_eq_self)

definition layer_announced :: "u8 \<Rightarrow> u8 \<Rightarrow> u16 \<Rightarrow> ip_layer \<Rightarrow> bool" where
  "layer_announced protocol flags off layer \<longleftrightarrow>
     (let fragment = (flags AND IP_FLAG_MORE_FRAGMENTS \<noteq> 0 \<or> off \<noteq> 0) in
      case layer of
        TcpLayer t \<Rightarrow> \<not> fragment \<and> protocol = IP_TCP \<and> tcp_writable t
      | UdpLayer u \<Rightarrow> \<not> fragment \<and> protocol = IP_UDP \<and> unat (udp_length u) = length (udp_to_bytes u)
      | IcmpLayer m \<Rightarrow> \<not> fragment \<and> protocol = IP_ICMP
      | RawLayer bs \<Rightarrow> fragment \<or> protocol \<notin> {IP_TCP, IP_UDP, IP_ICMP} \<and> bs \<noteq> [])"

lemma packet_with_writable:
  assumes "layer_announced protocol flags off layer" "length (ip_layer_to_bytes layer) \<le> 65515"
    "off AND 0x1fff = off"
  shows "ip_writable (packet_with layer config dest protocol idn flags off)"
proof -
  have m: "(flags AND 0xE0) AND IP_FLAG_MORE_FRAGMENTS = flags AND IP_FLAG_MORE_FRAGMENTS"
    by (simp add: IP_FLAG_MORE_FRAGMENTS_def and.assoc)
  have "(flags AND 0xE0) AND 0xE0 = flags AND (0xE0 :: u8)" by (simp add: and.assoc)
  moreover have "ip_layer_ok (packet_with layer config dest protocol idn flags off)"
    using assms(1) m unfolding ip_layer_ok_def layer_announced_def Let_def ip_is_fragment_def packet_with_fields
    by (cases layer) simp_all
  moreover have "unat (of_nat (20 + length (ip_layer_to_bytes layer)) :: u16) = 20 + length (ip_layer_to_bytes layer)"
    by (rule unat_of_nat_u16) (use assms(2) in simp)
  ultimately show ?thesis
    using assms(3) unfolding ip_writable_def packet_with_bytes length_ip_packet
    by (simp add: packet_with_def del: of_nat_add)
qed

lemma frame_parses:
  fixes idn off :: u16 and config :: iface_config and dest :: ipv4 and dest_mac :: mac
  assumes "layer_announced protocol flags off layer" "length (ip_layer_to_bytes layer) \<le> 65515" "off AND 0x1fff = off"
  defines "p \<equiv> packet_with layer config dest protocol idn flags off"
  defines "frame \<equiv> ip_frame config dest_mac (ip_packet config dest protocol idn flags off (ip_layer_to_bytes layer))"
  shows "ethernet_from_bytes frame
      = Inr \<lparr>eth_src = ic_mac config, eth_dest = dest_mac, eth_protocol = ETHERTYPE_IPv4, eth_next_layer = Some (IpFrame (ip_on_wire p))\<rparr>"
    and "slice_from frame ETHERNET_HEADER_SIZE = Inr (ip_to_bytes p)"
proof -
  let ?e = "(ethernet_new (ic_mac config) dest_mac ETHERTYPE_IPv4)\<lparr>eth_next_layer := Some (IpFrame p)\<rparr>"
  have frame: "frame = ethernet_to_bytes ?e"
    by (simp add: frame_def p_def ip_frame_def ethernet_image packet_with_bytes)
  have w: "ip_writable p" unfolding p_def by (rule packet_with_writable [OF assms(1-3)])
  have len: "length (ip_to_bytes p) \<le> 65535" using assms(2) by (simp add: p_def packet_with_bytes length_ip_packet)
  then have l: "length (ethernet_to_bytes ?e) < 2 ^ 64" by (simp add: ethernet_image)
  show "ethernet_from_bytes frame
      = Inr \<lparr>eth_src = ic_mac config, eth_dest = dest_mac, eth_protocol = ETHERTYPE_IPv4, eth_next_layer = Some (IpFrame (ip_on_wire p))\<rparr>"
    using ethernet_roundtrip [of ?e "IpFrame p" "[]"] w l by (simp add: frame ethernet_new_def)
  have "drop 14 frame = ip_to_bytes p" by (simp add: frame ethernet_image ethernet_new_def)
  then show "slice_from frame ETHERNET_HEADER_SIZE = Inr (ip_to_bytes p)"
    using slice_from_ok [of 14 frame] l by (simp add: frame ETHERNET_HEADER_SIZE_def ethernet_image)
qed

section \<open>Receiving it\<close>

definition refreshed :: "nat \<Rightarrow> ipv4 \<Rightarrow> network_stack \<Rightarrow> network_stack" where
  "refreshed ingress source s = update_interface ingress (\<lambda>i. i\<lparr>ni_arp_table := arp_refresh source (ni_arp_table i)\<rparr>) s"

lemma handle_written_frame:
  fixes idn off :: u16
  assumes layer: "layer_announced protocol flags off layer" "length (ip_layer_to_bytes layer) \<le> 65515" "off AND 0x1fff = off"
    and i: "ingress < length (ns_interfaces r)"
    and mac: "is_addressed_to_us dest_mac (ic_mac (ni_config (ns_interfaces r ! ingress)))"
    and us: "addressed_to_us dest r \<or> is_broadcast_address dest (ni_config (ns_interfaces r ! ingress))"
  shows "handle_frame ingress (ip_frame config dest_mac (ip_packet config dest protocol idn flags off (ip_layer_to_bytes layer))) r
    = catching_base
        (if flags AND IP_FLAG_MORE_FRAGMENTS \<noteq> 0 \<or> off \<noteq> 0
         then handle_ip_fragment (ip_on_wire (packet_with layer config dest protocol idn flags off)) (refreshed ingress (ic_ip config) r)
         else dispatch_transport (ip_on_wire (packet_with layer config dest protocol idn flags off)) (refreshed ingress (ic_ip config) r))"
proof -
  let ?p = "ip_on_wire (packet_with layer config dest protocol idn flags off)"
  have v: "ip_verify_checksum ?p" by (simp add: ip_on_wire_def packet_with_verifies)
  have f: "ip_src_address ?p = ipv4_get_address (ic_ip config)" "ip_dest_address ?p = ipv4_get_address dest"
    "ip_flag_m ?p \<longleftrightarrow> flags AND IP_FLAG_MORE_FRAGMENTS \<noteq> 0" "ip_fragment_offset ?p = off"
    by (simp_all add: ip_on_wire_def ip_flag_m_def IP_FLAG_MORE_FRAGMENTS_def and.assoc)
  show ?thesis
    unfolding handle_frame_def frame_parses(1) [OF layer] frame_parses(2) [OF layer]
    using us i mac v f
    by (cases "addressed_to_us dest r")
      (simp_all add: thrown_def with_value_def with_interface_def ethertypes handle_ip_def refreshed_def Let_def)
qed

section \<open>The fragmentation loop\<close>

lemma fragment_loop_no_chunk:
  assumes "fragment_loop c p off = Some parts" shows "c = 0 \<longrightarrow> length p \<le> off"
proof (rule fragment_loop.raw_induct [OF _ assms, where P = "\<lambda>c p off parts. c = 0 \<longrightarrow> length p \<le> off"], goal_cases)
  case (1 loop c p off parts)
  show ?case
  proof (rule impI, rule ccontr)
    assume c: "c = 0" and off: "\<not> length p \<le> off"
    with 1(2) obtain rest where "loop c p off = Some rest" by (auto simp: Let_def bind_eq_Some_conv)
    from 1(1) [OF this] c off show False by simp
  qed
qed

lemma fragment_loop_stuck: "payload \<noteq> [] \<Longrightarrow> fragment_loop 0 payload 0 = None"
  using fragment_loop_no_chunk [of 0 payload 0] by (cases "fragment_loop 0 payload 0") auto

definition as_fragment :: "nat \<times> bool \<times> bytes \<Rightarrow> fragment" where
  "as_fragment part = (case part of (off, mf, chunk) \<Rightarrow> (of_nat (off div 8), mf, chunk))"

lemma unat_offset: "off \<le> 65535 \<Longrightarrow> 8 dvd off \<Longrightarrow> unat (of_nat (off div 8) :: u16) * 8 = off"
  by (simp add: unat_of_nat_u16)

lemma fragment_loop_returns:
  assumes "0 < c" "8 dvd c"
  shows "off < length payload \<Longrightarrow> 8 dvd off \<Longrightarrow> length payload \<le> 65515 \<Longrightarrow>
     \<exists>parts. fragment_loop c payload off = Some parts \<and> fragmentation off (map as_fragment parts) (drop off payload)
       \<and> (\<forall>(o', m, a) \<in> set parts. 8 dvd o' \<and> o' \<le> 65515 \<and> length a \<le> c)
       \<and> (length parts - 1) * c < length payload - off \<and> parts \<noteq> []"
proof (induction "length payload - off" arbitrary: off rule: less_induct)
  case less
  let ?chunk = "min c (length payload - off)"
  let ?part = "(off, off + ?chunk < length payload, take ?chunk (drop off payload))"
  have o: "unat (of_nat (off div 8) :: u16) * 8 = off" by (rule unat_offset) (use less.prems in simp_all)
  show ?case
  proof (cases "off + c < length payload")
    case False
    then have c: "?chunk = length payload - off" by simp
    then have "fragment_loop c payload (off + ?chunk) = Some []"
      using less.prems by (subst fragment_loop.simps) simp
    then have "fragment_loop c payload off = Some [?part]"
      using less.prems by (subst fragment_loop.simps) (simp add: Let_def)
    moreover have "drop off payload \<noteq> []" using less.prems by simp
    ultimately show ?thesis using less.prems o c False by (simp add: as_fragment_def)
  next
    case True
    then have c: "?chunk = c" by simp
    have "length payload - (off + c) < length payload - off" "off + c < length payload" "8 dvd off + c"
      using True assms less.prems by (simp_all add: dvd_add)
    from less.hyps [OF this less.prems(3)] obtain parts where p: "fragment_loop c payload (off + c) = Some parts"
        "fragmentation (off + c) (map as_fragment parts) (drop (off + c) payload)"
        "\<forall>(o', m, a) \<in> set parts. 8 dvd o' \<and> o' \<le> 65515 \<and> length a \<le> c"
        "(length parts - 1) * c < length payload - (off + c)" "parts \<noteq> []" by blast
    obtain f fs where fs: "map as_fragment parts = f # fs" using p(5) by (cases parts) auto
    have "fragment_loop c payload off = Some (?part # parts)"
      using less.prems p(1) by (subst fragment_loop.simps) (simp add: Let_def c)
    moreover have "fragmentation off (map as_fragment (?part # parts)) (drop off payload)"
      using p(2) o True assms less.prems by (simp add: fs as_fragment_def c add.commute)
    moreover have "length parts * c < length payload - off" using p(4,5) True by (cases parts) auto
    ultimately show ?thesis using p(3) less.prems by (auto simp: c)
  qed
qed

lemma max_payload_aligned: "8 dvd unat (max_ip_payload config)"
proof -
  have "take_bit 3 (max_ip_payload config) = max_ip_payload config AND 7"
    by (simp add: take_bit_eq_mask mask_numeral)
  also have "\<dots> = 0" by (simp add: max_ip_payload_def and.assoc)
  finally have "unat (take_bit 3 (max_ip_payload config)) = 0" by simp
  then have "take_bit 3 (unat (max_ip_payload config)) = 0" by (simp only: unsigned_take_bit_eq)
  then show ?thesis by (simp add: take_bit_eq_mod dvd_eq_mod_eq_0)
qed

section \<open>Receiving several frames\<close>

fun receive_frames :: "nat \<Rightarrow> bytes list \<Rightarrow> network_stack \<Rightarrow> stack_outcome" where
  "receive_frames ingress [] s = (s, None)"
| "receive_frames ingress (frame # frames) s = and_then (handle_frame ingress frame s) (receive_frames ingress frames)"

lemma receive_last: "and_then m (receive_frames ingress []) = m"
  by (simp add: and_then_def split: prod.split option.split)

lemma arp_refresh_idem: "arp_refresh a (arp_refresh a t) = arp_refresh a t"
  by (auto simp: arp_refresh_def update_conv' split: option.split)

lemma map_update_same: "g (f (xs ! i)) = g (xs ! i) \<Longrightarrow> map g (xs[i := f (xs ! i)]) = map g xs"
  by (cases "i < length xs") (simp_all add: map_update list_update_same_conv list_update_beyond)

lemma refreshed_configs: "map ni_config (ns_interfaces (refreshed i a s)) = map ni_config (ns_interfaces s)"
  unfolding refreshed_def update_interface_def
  by (simp add: map_update_same [where f = "\<lambda>i. i\<lparr>ni_arp_table := arp_refresh a (ni_arp_table i)\<rparr>"])

lemma refreshed_reassembler [simp]:
  "ns_reassembler (refreshed i a s) = ns_reassembler s"
  "refreshed i a (s\<lparr>ns_reassembler := x\<rparr>) = refreshed i a s\<lparr>ns_reassembler := x\<rparr>"
  by (simp_all add: refreshed_def update_interface_def)

lemma refreshed_idem [simp]: "refreshed i a (refreshed i a s) = refreshed i a s"
  by (cases "i < length (ns_interfaces s)") (simp_all add: refreshed_def update_interface_def arp_refresh_idem list_update_beyond)

lemma refreshed_length [simp]: "length (ns_interfaces (refreshed i a s)) = length (ns_interfaces s)"
  by (simp add: refreshed_def update_interface_def)

lemma refreshed_config [simp]: "i < length (ns_interfaces s) \<Longrightarrow>
    ni_config (ns_interfaces (refreshed j a s) ! i) = ni_config (ns_interfaces s ! i)"
  using arg_cong [OF refreshed_configs [of j a s], of "\<lambda>xs. xs ! i"] by simp

lemma addressed_by_config: "addressed_to_us d s \<longleftrightarrow> (\<exists>c \<in> set (map ni_config (ns_interfaces s)). has_address c \<and> d = ic_ip c)"
  by (auto simp: addressed_to_us_def list_ex_iff)

lemma refreshed_addressed [simp]: "addressed_to_us d (refreshed i a s) = addressed_to_us d s"
  unfolding addressed_by_config refreshed_configs ..

lemma addressed_reassembler [simp]: "addressed_to_us d (s\<lparr>ns_reassembler := x\<rparr>) = addressed_to_us d s"
  by (simp add: addressed_to_us_def)

definition hears :: "network_stack \<Rightarrow> nat \<Rightarrow> mac \<Rightarrow> ipv4 \<Rightarrow> bool" where
  "hears r ingress dest_mac dest \<longleftrightarrow>
     ingress < length (ns_interfaces r)
     \<and> is_addressed_to_us dest_mac (ic_mac (ni_config (ns_interfaces r ! ingress)))
     \<and> (addressed_to_us dest r \<or> is_broadcast_address dest (ni_config (ns_interfaces r ! ingress)))"

lemma hears_simps [simp]:
  "hears (refreshed i a r) ingress m d = hears r ingress m d"
  "hears (r\<lparr>ns_reassembler := x\<rparr>) ingress m d = hears r ingress m d"
  by (auto simp: hears_def)

lemma catching_base_idem [simp]: "catching_base (catching_base m) = catching_base m"
  by (auto simp: catching_base_def split: prod.split option.split stack_error.split cpp_error.split)

lemma catching_base_None [simp]: "catching_base (s, None) = (s, None)"
  by (simp add: catching_base_def)

lemma fragment_received:
  assumes h: "hears r ingress mac dest" and a: "length a \<le> 65515" and o: "off \<le> 65515" "8 dvd off" and m: "mf \<or> off \<noteq> 0"
  shows "handle_frame ingress (fragment_frame config mac dest protocol idn (off, mf, a)) r
    = (case offer (ic_ip config) dest idn protocol (of_nat (off div 8)) mf a (ns_reassembler r) of
         (Complete d, ra) \<Rightarrow>
           catching_base
             (with_value (thrown (ip_of_bytes (ip_to_bytes (ip_packet config dest protocol idn 0 0 d))))
                (refreshed ingress (ic_ip config) r\<lparr>ns_reassembler := ra\<rparr>)
                (\<lambda>p. dispatch_transport p (refreshed ingress (ic_ip config) r\<lparr>ns_reassembler := ra\<rparr>)))
       | (_, ra) \<Rightarrow> (refreshed ingress (ic_ip config) r\<lparr>ns_reassembler := ra\<rparr>, None))"
proof -
  let ?off = "of_nat (off div 8) :: u16" and ?flags = "if mf then IP_FLAG_MORE_FRAGMENTS else 0"
  have u: "unat ?off = off div 8" by (rule unat_of_nat_u16) (use o in simp)
  have w: "?off AND 0x1fff = ?off"
    unfolding x1fff_mask take_bit_eq_mask [symmetric] word_unat_eq_iff unsigned_take_bit_eq u
    using o(1) by (intro take_bit_nat_eq_self) simp
  have z: "?off \<noteq> 0" if "off \<noteq> 0" 
    using that u o(2) by (metis dvd_div_eq_0_iff unsigned_0)
  have l: "layer_announced protocol ?flags ?off (RawLayer a)"
    using m z by (auto simp: layer_announced_def IP_FLAG_MORE_FRAGMENTS_def)
  have f: "?flags AND IP_FLAG_MORE_FRAGMENTS \<noteq> 0 \<longleftrightarrow> mf" by (simp add: IP_FLAG_MORE_FRAGMENTS_def)
  let ?q = "ip_on_wire (packet_with (RawLayer a) config dest protocol idn ?flags ?off)"
  have q: "ip_next_layer ?q = Some (RawLayer a)" "ip_flag_m ?q = mf" "ip_fragment_offset ?q = ?off" "ip_TOS ?q = 0"
      "ip_TTL ?q = 64" "ip_identification ?q = idn" "ip_protocol ?q = protocol"
      "ip_src_address ?q = ipv4_get_address (ic_ip config)" "ip_dest_address ?q = ipv4_get_address dest"
    by (simp_all add: ip_on_wire_def ip_flag_m_def IP_FLAG_MORE_FRAGMENTS_def)
  have "handle_frame ingress (fragment_frame config mac dest protocol idn (off, mf, a)) r
      = catching_base (handle_ip_fragment ?q (refreshed ingress (ic_ip config) r))"
    using handle_written_frame [OF l _ w, of ingress r mac dest config idn] h a m z unfolding f
    by (auto simp: fragment_frame_def hears_def)
  also have "handle_ip_fragment ?q (refreshed ingress (ic_ip config) r) =
      (case offer (ic_ip config) dest idn protocol ?off mf a (ns_reassembler r) of
         (Complete d, ra) \<Rightarrow>
           catching_base
             (with_value (thrown (ip_of_bytes (ip_to_bytes (ip_packet config dest protocol idn 0 0 d))))
                (refreshed ingress (ic_ip config) r\<lparr>ns_reassembler := ra\<rparr>)
                (\<lambda>p. dispatch_transport p (refreshed ingress (ic_ip config) r\<lparr>ns_reassembler := ra\<rparr>)))
       | (_, ra) \<Rightarrow> (refreshed ingress (ic_ip config) r\<lparr>ns_reassembler := ra\<rparr>, None))"
    unfolding handle_ip_fragment_def q by (simp add: thrown_def with_value_def ip_packet_def Let_def split: prod.split reasm_result.split)
  finally show ?thesis by (simp split: prod.split reasm_result.split)
qed

text \<open>What the receiver does with the whole datagram.\<close>

lemma whole_received:
  assumes h: "hears r ingress mac dest" and layer: "layer_announced protocol 0 0 layer" "length (ip_layer_to_bytes layer) \<le> 65515"
  shows "handle_frame ingress (ip_frame config mac (ip_packet config dest protocol idn 0 0 (ip_layer_to_bytes layer))) r
    = catching_base
        (with_value (thrown (ip_of_bytes (ip_to_bytes (ip_packet config dest protocol idn 0 0 (ip_layer_to_bytes layer)))))
           (refreshed ingress (ic_ip config) r) (\<lambda>p. dispatch_transport p (refreshed ingress (ic_ip config) r)))"
proof -
  have "ip_of_bytes (ip_to_bytes (ip_packet config dest protocol idn 0 0 (ip_layer_to_bytes layer)))
      = Inr (ip_on_wire (packet_with layer config dest protocol idn 0 0))"
    using ip_roundtrip [OF packet_with_writable [OF layer, of config dest idn], of "[]"] by (simp add: packet_with_bytes)
  with handle_written_frame [OF layer, of ingress r mac dest config idn] h show ?thesis
    by (simp add: hears_def thrown_def with_value_def)
qed

lemma fragments_received:
  assumes frs: "fragmentation 0 (map as_fragment parts) d" "length d \<le> MAX_DATAGRAM_BYTES" "length parts \<le> MAX_FRAGMENTS_PER_DATAGRAM"
    and parts: "\<forall>(off, mf, a) \<in> set parts. 8 dvd off \<and> off \<le> 65515 \<and> length a \<le> 65515 \<and> (mf \<or> off \<noteq> 0)"
    and h: "hears r ingress mac dest"
    and room: "has_room (Key (ic_ip config) dest idn protocol) (length d) (ns_reassembler r)"
  shows "distinct (map as_fragment (xs @ ys)) \<Longrightarrow> set (xs @ ys) = set parts \<Longrightarrow> ys \<noteq> [] \<Longrightarrow>
     receive_frames ingress (map (fragment_frame config mac dest protocol idn) ys)
       (if xs = [] then r
        else refreshed ingress (ic_ip config) r
               \<lparr>ns_reassembler := holding (Key (ic_ip config) dest idn protocol) (ic_ip config) d (ns_reassembler r) (map as_fragment xs)\<rparr>)
     = catching_base
        (with_value (thrown (ip_of_bytes (ip_to_bytes (ip_packet config dest protocol idn 0 0 d))))
           (refreshed ingress (ic_ip config) r) (\<lambda>p. dispatch_transport p (refreshed ingress (ic_ip config) r)))"
proof (induction ys arbitrary: xs)
  case (Cons f ys)
  let ?src = "ic_ip config"
  let ?ra = "ns_reassembler r"
  let ?hold = "\<lambda>xs. holding (Key ?src dest idn protocol) ?src d ?ra (map as_fragment xs)"
  let ?r = "if xs = [] then r else refreshed ingress ?src r\<lparr>ns_reassembler := ?hold xs\<rparr>"
  obtain off mf a where f: "f = (off, mf, a)" by (cases f)
  have p: "8 dvd off" "off \<le> 65515" "length a \<le> 65515" "mf \<or> off \<noteq> 0"
    using bspec [OF parts, of f] Cons.prems(2) by (auto simp: f)
  have sub: "distinct (map as_fragment xs @ [as_fragment f])" "set (map as_fragment xs @ [as_fragment f]) \<subseteq> set (map as_fragment parts)"
    using Cons.prems by auto
  have fr: "as_fragment f = (of_nat (off div 8), mf, a)" by (simp add: f as_fragment_def)
  have n: "length (map as_fragment parts) \<le> MAX_FRAGMENTS_PER_DATAGRAM" using frs(3) by simp
  have ra: "ns_reassembler ?r = (if map as_fragment xs = [] then ?ra else ?hold xs)" by simp
  have step: "offer ?src dest idn protocol (of_nat (off div 8)) mf a (ns_reassembler ?r)
      = (if set (map as_fragment xs @ [as_fragment f]) = set (map as_fragment parts) then (Complete d, ?ra)
         else (Incomplete, ?hold (xs @ [f])))"
    using offer_next [OF frs(1,2) n sub fr room] unfolding ra by simp
  have ref: "refreshed ingress ?src ?r\<lparr>ns_reassembler := x\<rparr> = refreshed ingress ?src r\<lparr>ns_reassembler := x\<rparr>" for x by simp
  have hr: "hears ?r ingress mac dest" using h by simp
  note one = fragment_received [OF hr p(3,2,1,4), of config protocol idn, unfolded step ref, folded f]
  have restored: "refreshed ingress ?src r\<lparr>ns_reassembler := ?ra\<rparr> = refreshed ingress ?src r"
    by (simp add: refreshed_def update_interface_def)
  show ?case
  proof (cases "ys = []")
    case True
    then have all: "set (map as_fragment xs @ [as_fragment f]) = set (map as_fragment parts)"
      using Cons.prems(2) by (auto simp flip: Cons.prems(2))
    have "handle_frame ingress (fragment_frame config mac dest protocol idn f) ?r
      = catching_base
        (with_value (thrown (ip_of_bytes (ip_to_bytes (ip_packet config dest protocol idn 0 0 d))))
           (refreshed ingress (ic_ip config) r) (\<lambda>p. dispatch_transport p (refreshed ingress (ic_ip config) r)))"
      using one unfolding if_P [OF all] prod.case reasm_result.case restored .
    then show ?thesis unfolding True list.map receive_frames.simps(2) receive_last .
  next
    case False
    have "set (map as_fragment xs @ [as_fragment f]) \<noteq> set (map as_fragment parts)"
    proof -
      obtain g where g: "g \<in> set ys" using False by (cases ys) auto
      then have "as_fragment g \<in> as_fragment ` set ys" by (rule imageI)
      then have "as_fragment g \<notin> set (map as_fragment xs @ [as_fragment f])" using Cons.prems(1) by auto
      moreover have "as_fragment g \<in> set (map as_fragment parts)" using g Cons.prems(2) by auto
      ultimately show ?thesis by blast
    qed
    then have "handle_frame ingress (fragment_frame config mac dest protocol idn f) ?r
        = (refreshed ingress ?src r\<lparr>ns_reassembler := ?hold (xs @ [f])\<rparr>, None)" using one by simp
    then show ?thesis using Cons.IH [of "xs @ [f]"] Cons.prems False by (simp add: and_then_def)
  qed
qed simp

lemma mset_map_inverse: "mset xs = mset (map f ys) \<Longrightarrow> \<exists>zs. xs = map f zs \<and> mset zs = mset ys"
proof (induction xs arbitrary: ys)
  case (Cons x xs)
  then have "x \<in> set (map f ys)" by (metis list.set_intros(1) mset_eq_setD)
  then obtain y where y: "y \<in> set ys" "x = f y" by auto
  have "mset xs = mset (map f (remove1 y ys))"
    using y Cons.prems [symmetric] by (simp add: image_mset_Diff)
  then obtain zs where "xs = map f zs" "mset zs = mset (remove1 y ys)" using Cons.IH by blast
  then show ?case using y by (intro exI [of _ "y # zs"]) simp
qed simp

lemma foldl_write_frames:
  assumes "i < length (ns_interfaces s)"
  shows "ni_written (ns_interfaces (foldl (\<lambda>s x. write_frame i (f x) s) s xs) ! i) = ni_written (ns_interfaces s ! i) @ map f xs"
  using assms
proof (induction xs arbitrary: s)
  case (Cons x xs)
  have "i < length (ns_interfaces (write_frame i (f x) s))" using Cons.prems by (simp add: write_frame_def update_interface_def)
  from Cons.IH [OF this] Cons.prems show ?case by (simp add: write_frame_def update_interface_def)
qed simp

text \<open>An oversized packet is written as the frames of a fragmentation of its payload.\<close>

lemma send_fragments:
  assumes route: "route_for dest s = Some (next_hop, egress)" "resolve_mac egress next_hop s = Inr mac"
    and i: "egress < length (ns_interfaces s)" and config: "config = ni_config (ns_interfaces s ! egress)"
    and c: "0 < unat (max_ip_payload config)" "unat (max_ip_payload config) < length payload"
      "length payload \<le> 65515" "length payload \<le> 128 * unat (max_ip_payload config)"
  obtains parts s' where "send_ip_packet dest protocol payload False s = (s', None)"
    "ni_written (ns_interfaces s' ! egress) = ni_written (ns_interfaces s ! egress) @ map (fragment_frame config mac dest protocol (ns_next_ip_id s)) parts"
    "fragmentation 0 (map as_fragment parts) payload" "length parts \<le> MAX_FRAGMENTS_PER_DATAGRAM"
    "\<forall>(off, mf, a) \<in> set parts. 8 dvd off \<and> off \<le> 65515 \<and> length a \<le> 65515 \<and> (mf \<or> off \<noteq> 0)"
proof -
  let ?c = "unat (max_ip_payload config)"
  obtain parts where p: "fragment_loop ?c payload 0 = Some parts" "fragmentation 0 (map as_fragment parts) payload"
      "\<forall>(o', m, a) \<in> set parts. 8 dvd o' \<and> o' \<le> 65515 \<and> length a \<le> ?c" "(length parts - 1) * ?c < length payload" "parts \<noteq> []"
  proof -
    have "0 < length payload" using c by linarith
    from fragment_loop_returns [OF c(1) max_payload_aligned this _ c(3)] show thesis using that by auto
  qed
  have "(length parts - 1) * ?c < 128 * ?c" using p(4) c(4) by linarith
  then have n: "length parts \<le> MAX_FRAGMENTS_PER_DATAGRAM" by (auto simp: MAX_FRAGMENTS_PER_DATAGRAM_def)
  have ok: "8 dvd off \<and> off \<le> 65515 \<and> length a \<le> 65515 \<and> (mf \<or> off \<noteq> 0)" if m: "(off, mf, a) \<in> set parts" for off mf a
  proof -
    have b: "8 dvd off" "off \<le> 65515" "length a \<le> ?c" using bspec [OF p(3) m] by auto
    have "as_fragment (off, mf, a) \<in> set (map as_fragment parts)" using m by (simp only: set_map image_eqI)
    then have "(of_nat (off div 8), mf, a) \<in> set (map as_fragment parts)" by (simp only: as_fragment_def prod.case)
    from fragmentation_bounds [OF p(2) this] unat_offset [of off] b c
    show ?thesis by (cases mf) auto
  qed
  let ?s = "s\<lparr>ns_next_ip_id := ns_next_ip_id s + 1\<rparr>"
  let ?s' = "foldl (\<lambda>t part. write_frame egress (fragment_frame config mac dest protocol (ns_next_ip_id s) part) t) ?s parts"
  have "send_ip_packet dest protocol payload False s = (?s', None)"
    using route i c p(1) unfolding send_ip_packet_def by (simp add: with_interface_def with_value_def config Let_def)
  moreover have "ni_written (ns_interfaces ?s' ! egress)
      = ni_written (ns_interfaces s ! egress) @ map (fragment_frame config mac dest protocol (ns_next_ip_id s)) parts"
    using foldl_write_frames [of egress ?s] i by simp
  moreover have "\<forall>(off, mf, a) \<in> set parts. 8 dvd off \<and> off \<le> 65515 \<and> length a \<le> 65515 \<and> (mf \<or> off \<noteq> 0)"
    using ok by blast
  ultimately show ?thesis by (rule that [OF _ _ p(2) n])
qed

lemma fragments_transparent:
  assumes "route_for dest s = Some (next_hop, egress)" "resolve_mac egress next_hop s = Inr mac"
    "egress < length (ns_interfaces s)" "config = ni_config (ns_interfaces s ! egress)"
    and "layer_announced protocol 0 0 layer" "payload = ip_layer_to_bytes layer"
    and "0 < unat (max_ip_payload config)" "unat (max_ip_payload config) < length payload"
      "length payload \<le> 65515" "length payload \<le> 128 * unat (max_ip_payload config)"
    and "hears r ingress mac dest"
    and "has_room (Key (ic_ip config) dest (ns_next_ip_id s) protocol) (length payload) (ns_reassembler r)"
  shows "\<exists>frames s'. send_ip_packet dest protocol payload False s = (s', None)
    \<and> ni_written (ns_interfaces s' ! egress) = ni_written (ns_interfaces s ! egress) @ frames
    \<and> (\<forall>arrived. mset arrived = mset frames \<longrightarrow>
         receive_frames ingress arrived r
         = handle_frame ingress (ip_frame config mac (ip_packet config dest protocol (ns_next_ip_id s) 0 0 payload)) r)"
proof -
  obtain parts s' where sent: "send_ip_packet dest protocol payload False s = (s', None)"
      "ni_written (ns_interfaces s' ! egress) = ni_written (ns_interfaces s ! egress) @ map (fragment_frame config mac dest protocol (ns_next_ip_id s)) parts"
    and p: "fragmentation 0 (map as_fragment parts) payload" "length parts \<le> MAX_FRAGMENTS_PER_DATAGRAM"
      "\<forall>(off, mf, a) \<in> set parts. 8 dvd off \<and> off \<le> 65515 \<and> length a \<le> 65515 \<and> (mf \<or> off \<noteq> 0)"
    by (rule send_fragments [OF assms(1-4,7-10)])
  have d: "length payload \<le> MAX_DATAGRAM_BYTES" using assms(9) by (simp add: MAX_DATAGRAM_BYTES_def)
  have "receive_frames ingress arrived r
      = handle_frame ingress (ip_frame config mac (ip_packet config dest protocol (ns_next_ip_id s) 0 0 payload)) r"
    if m: "mset arrived = mset (map (fragment_frame config mac dest protocol (ns_next_ip_id s)) parts)" for arrived
  proof -
    obtain ys where ys: "arrived = map (fragment_frame config mac dest protocol (ns_next_ip_id s)) ys" "mset ys = mset parts"
      using mset_map_inverse [OF m] by blast
    have "parts \<noteq> []" using p(1) by auto
    then have "ys \<noteq> []" using mset_eq_length [OF ys(2)] by auto
    moreover have "set ([] @ ys) = set parts" using mset_eq_setD [OF ys(2)] by simp
    moreover have "mset (map as_fragment ys) = mset (map as_fragment parts)" using ys(2) by simp
    then have "distinct (map as_fragment ([] @ ys))"
      using fragmentation_inj(2) [OF p(1)] mset_eq_imp_distinct_iff by fastforce
    ultimately have "receive_frames ingress arrived r = catching_base
        (with_value (thrown (ip_of_bytes (ip_to_bytes (ip_packet config dest protocol (ns_next_ip_id s) 0 0 payload))))
           (refreshed ingress (ic_ip config) r) (\<lambda>p. dispatch_transport p (refreshed ingress (ic_ip config) r)))"
      using fragments_received [OF p(1) d p(2,3) assms(11,12), of "[]" ys] unfolding ys(1) by simp
    then show ?thesis using whole_received [OF assms(11,5), of config "ns_next_ip_id s"] assms(6,9) by simp
  qed
  with sent show ?thesis by blast
qed

section \<open>A packet that reaches its destination\<close>

definition way_to :: "ipv4 \<Rightarrow> nat \<Rightarrow> mac \<Rightarrow> network_stack \<Rightarrow> bool" where
  "way_to dest egress mac s \<longleftrightarrow>
     (case route_for dest s of
        None \<Rightarrow> False
      | Some (next_hop, index) \<Rightarrow>
          index = egress \<and> egress < length (ns_interfaces s) \<and> resolve_mac egress next_hop s = Inr mac
          \<and> (is_broadcast_for_any_interface dest s \<or> arp_contains next_hop (ni_arp_table (ns_interfaces s ! egress))))"

definition fits :: "nat \<Rightarrow> iface_config \<Rightarrow> bool" where
  "fits n config \<longleftrightarrow> 0 < unat (max_ip_payload config) \<and> n \<le> 65515 \<and> n \<le> 128 * unat (max_ip_payload config)"

text \<open>Everything but what was written: two states that differ only in the frames given to the channels.\<close>

definition quiet :: "network_stack \<Rightarrow> network_stack" where
  "quiet s = s\<lparr>ns_interfaces := map (\<lambda>i. i\<lparr>ni_written := []\<rparr>) (ns_interfaces s), ns_next_ip_id := 0\<rparr>"

lemma quiet_write [simp]: "quiet (write_frame i frame s) = quiet s"
proof (cases "i < length (ns_interfaces s)")
  case True
  then show ?thesis by (simp add: quiet_def write_frame_def update_interface_def map_update list_update_same_conv)
qed (simp add: quiet_def write_frame_def update_interface_def list_update_beyond)

lemma quiet_id [simp]: "quiet (s\<lparr>ns_next_ip_id := n\<rparr>) = quiet s"
  by (simp add: quiet_def)

lemma quiet_foldl [simp]: "quiet (foldl (\<lambda>s x. write_frame i (f x) s) s xs) = quiet s"
  by (induction xs arbitrary: s) simp_all

lemma quiet_fields:
  assumes "quiet s = quiet t"
  shows "map ni_config (ns_interfaces s) = map ni_config (ns_interfaces t)" "length (ns_interfaces s) = length (ns_interfaces t)"
    "ns_reassembler s = ns_reassembler t" "ns_app s = ns_app t" "ns_echo_callback s = ns_echo_callback t"
proof -
  have m: "map (\<lambda>i. i\<lparr>ni_written := []\<rparr>) (ns_interfaces s) = map (\<lambda>i. i\<lparr>ni_written := []\<rparr>) (ns_interfaces t)"
    using arg_cong [OF assms, of ns_interfaces] by (simp add: quiet_def)
  from arg_cong [OF m, of "map ni_config"] show "map ni_config (ns_interfaces s) = map ni_config (ns_interfaces t)"
    by (simp add: comp_def)
  from arg_cong [OF m, of length] show "length (ns_interfaces s) = length (ns_interfaces t)" by simp
  show "ns_reassembler s = ns_reassembler t" "ns_app s = ns_app t" "ns_echo_callback s = ns_echo_callback t"
    using arg_cong [OF assms, of ns_reassembler] arg_cong [OF assms, of ns_app] arg_cong [OF assms, of ns_echo_callback]
    by (simp_all add: quiet_def)
qed

lemma map_nth_eq: "map f xs = map f ys \<Longrightarrow> i < length xs \<Longrightarrow> f (xs ! i) = f (ys ! i)"
  by (metis length_map nth_map)

lemma hears_quiet: "quiet s = quiet t \<Longrightarrow> hears s ingress m d = hears t ingress m d"
  unfolding hears_def addressed_by_config
  using quiet_fields(1,2) [of s t] map_nth_eq [of ni_config "ns_interfaces s" "ns_interfaces t" ingress] by auto

lemma packet_delivered:
  assumes way: "way_to dest egress mac s" and config: "config = ni_config (ns_interfaces s ! egress)"
    and layer: "layer_announced protocol 0 0 layer" "fits (length (ip_layer_to_bytes layer)) config"
    and h: "hears r ingress mac dest"
    and room: "has_room (Key (ic_ip config) dest (ns_next_ip_id s) protocol) (length (ip_layer_to_bytes layer)) (ns_reassembler r)"
  obtains frames s' idn where "send_ip_packet dest protocol (ip_layer_to_bytes layer) False s = (s', None)" "quiet s' = quiet s"
    "ni_written (ns_interfaces s' ! egress) = ni_written (ns_interfaces s ! egress) @ frames"
    "\<forall>arrived. mset arrived = mset frames \<longrightarrow> receive_frames ingress arrived r
       = catching_base (dispatch_transport (ip_on_wire (packet_with layer config dest protocol idn 0 0)) (refreshed ingress (ic_ip config) r))"
proof -
  let ?payload = "ip_layer_to_bytes layer"
  let ?frame = "\<lambda>idn. ip_frame config mac (ip_packet config dest protocol idn 0 0 ?payload)"
  obtain next_hop where route: "route_for dest s = Some (next_hop, egress)" "egress < length (ns_interfaces s)"
      "resolve_mac egress next_hop s = Inr mac"
    using way by (auto simp: way_to_def split: option.splits)
  have fit: "0 < unat (max_ip_payload config)" "length ?payload \<le> 65515" "length ?payload \<le> 128 * unat (max_ip_payload config)"
    using layer(2) by (auto simp: fits_def)
  have whole: "handle_frame ingress (?frame idn) r
      = catching_base (dispatch_transport (ip_on_wire (packet_with layer config dest protocol idn 0 0)) (refreshed ingress (ic_ip config) r))" for idn
    using handle_written_frame [OF layer(1) fit(2), of ingress r mac dest config idn] h by (simp add: hears_def)
  show ?thesis
  proof (cases "length ?payload \<le> unat (max_ip_payload config)")
    case True
    have "send_ip_packet dest protocol ?payload False s = (write_frame egress (?frame 0) s, None)"
      using route True unfolding send_ip_packet_def by (simp add: with_interface_def with_value_def config Let_def)
    moreover have "ni_written (ns_interfaces (write_frame egress (?frame 0) s) ! egress) = ni_written (ns_interfaces s ! egress) @ [?frame 0]"
      using route(2) by (simp add: write_frame_def update_interface_def)
    moreover have "receive_frames ingress arrived r
      = catching_base (dispatch_transport (ip_on_wire (packet_with layer config dest protocol 0 0 0)) (refreshed ingress (ic_ip config) r))"
      if "mset arrived = mset [?frame 0]" for arrived
      using that by (simp add: receive_last whole del: receive_frames.simps(1))
    ultimately show ?thesis using that quiet_write by blast
  next
    case False
    then have "unat (max_ip_payload config) < length ?payload" by simp
    from fragments_transparent [OF route(1,3,2) config layer(1) refl fit(1) this fit(2,3) h room]
    obtain frames s' where f: "send_ip_packet dest protocol ?payload False s = (s', None)"
      "ni_written (ns_interfaces s' ! egress) = ni_written (ns_interfaces s ! egress) @ frames"
      "\<And>arrived. mset arrived = mset frames \<Longrightarrow> receive_frames ingress arrived r = handle_frame ingress (?frame (ns_next_ip_id s)) r"
      by blast
    have "quiet s' = quiet s"
      using f(1) route False unfolding send_ip_packet_def
      by (auto simp: with_interface_def with_value_def config Let_def split: option.splits)
    moreover have "\<forall>arrived. mset arrived = mset frames \<longrightarrow> receive_frames ingress arrived r
       = catching_base (dispatch_transport (ip_on_wire (packet_with layer config dest protocol (ns_next_ip_id s) 0 0)) (refreshed ingress (ic_ip config) r))"
      using f(3) whole by simp
    ultimately show ?thesis by (rule that [OF f(1) _ f(2)])
  qed
qed

end
