(* ===== verification/Stack_Delivery.thy ===== *)
theory Stack_Delivery
  imports Stack_Wire
begin

text \<open>
  End-to-end behaviour of the stack: UDP datagrams and pings between two stacks, datagrams through a router,
  and when sending a packet returns. The hosts named \<open>lab_\<close> are small concrete stacks on which the
  theorems are applied.
\<close>

section \<open>UDP from one application to another\<close>

lemma checksum_all_ones:
  assumes "even (length pre)" "length pre + 2 + length post \<le> 131072" "internet_checksum (pre @ [0, 0] @ post) = 0"
  shows "internet_checksum (pre @ int_to_bytes (0xffff :: u16) @ post) = 0"
proof -
  have "word_total (pre @ [0, 0] @ post) = word_total pre + word_total post"
    using assms(1) word_total_u16 [of 0 post] by (simp add: word_total_append)
  moreover have "word_total (pre @ int_to_bytes (0xffff :: u16) @ post) = word_total pre + word_total post + 65535"
    using assms(1) word_total_u16 [of "0xffff" post] by (simp add: word_total_append del: int_to_bytes_u16)
  moreover have "length (pre @ [0, 0] @ post) \<le> 131072" "length (pre @ int_to_bytes (0xffff :: u16) @ post) \<le> 131072"
    using assms(2) by simp_all
  ultimately show ?thesis
    using assms(3) internet_checksum_zero_iff [of "pre @ [0, 0] @ post"] internet_checksum_zero_iff [of "pre @ int_to_bytes (0xffff :: u16) @ post"]
    by (simp del: int_to_bytes_u16)
qed

lemma transport_checksum_all_ones:
  assumes "even (length pre)" "length pre + 2 + length post \<le> 65535" "transport_checksum src dest protocol (pre @ [0, 0] @ post) = 0"
  shows "transport_checksum src dest protocol (pre @ int_to_bytes (0xffff :: u16) @ post) = 0"
proof -
  let ?len = "of_nat (length pre + 2 + length post) :: u16"
  let ?pseudo = "ipv4_get_address src @ ipv4_get_address dest @ [0, protocol] @ int_to_bytes ?len @ pre"
  have "internet_checksum (?pseudo @ [0, 0] @ post) = 0"
    using assms(3) by (simp add: transport_checksum_def add.assoc add.commute [of "length post"])
  then have "internet_checksum (?pseudo @ int_to_bytes (0xffff :: u16) @ post) = 0"
    by (intro checksum_all_ones) (use assms in simp_all)
  then show ?thesis by (simp add: transport_checksum_def add.assoc add.commute [of "length post"])
qed

text \<open>The datagram as it is parsed back.\<close>

definition udp_message :: "ipv4 \<Rightarrow> ipv4 \<Rightarrow> u16 \<Rightarrow> u16 \<Rightarrow> bytes \<Rightarrow> udp" where
  "udp_message source dest src_port dest_port payload =
     (let u = \<lparr>udp_src_port = src_port, udp_dest_port = dest_port, udp_length = of_nat (8 + length payload), udp_checksum = 0,
               udp_next_layer = Some payload\<rparr>;
          csum = transport_checksum source dest IP_UDP (udp_to_bytes u)
      in u\<lparr>udp_checksum := (if csum = 0 then 0xFFFF else csum)\<rparr>)"

lemma udp_message_fields [simp]:
  "udp_src_port (udp_message source dest src_port dest_port payload) = src_port"
  "udp_dest_port (udp_message source dest src_port dest_port payload) = dest_port"
  "udp_next_layer (udp_message source dest src_port dest_port payload) = Some payload"
  "udp_length (udp_message source dest src_port dest_port payload) = of_nat (8 + length payload)"
  "udp_on_wire (udp_message source dest src_port dest_port payload) = udp_message source dest src_port dest_port payload"
  by (simp_all add: udp_message_def Let_def udp_on_wire_def)

lemma length_udp_message [simp]: "length (udp_to_bytes (udp_message source dest src_port dest_port payload)) = 8 + length payload"
  by (simp add: udp_image)

lemma udp_datagram_message:
  "udp_datagram_bytes source dest (udp_new src_port dest_port (of_nat (8 + length payload)) 0 []) payload
     = udp_to_bytes (udp_message source dest src_port dest_port payload)"
  by (cases "payload = []") (simp_all add: udp_datagram_bytes_def udp_message_def udp_new_def udp_image Let_def)

lemma udp_message_verifies:
  assumes "length payload \<le> 65507"
  shows "transport_checksum source dest IP_UDP (udp_to_bytes (udp_message source dest src_port dest_port payload)) = 0"
proof -
  let ?pre = "int_to_bytes src_port @ int_to_bytes dest_port @ int_to_bytes (of_nat (8 + length payload) :: u16)"
  let ?c = "transport_checksum source dest IP_UDP (?pre @ [0, 0] @ payload)"
  have e: "even (length ?pre)" "length ?pre + 2 + length payload \<le> 65535" using assms by simp_all
  have "transport_checksum source dest IP_UDP (?pre @ int_to_bytes (if ?c = 0 then 0xFFFF else ?c) @ payload) = 0"
    using transport_checksum_self_verifies [OF e] transport_checksum_all_ones [OF e] by (cases "?c = 0") (simp_all del: int_to_bytes_u16)
  moreover have "udp_to_bytes (udp_message source dest src_port dest_port payload)
      = ?pre @ int_to_bytes (if ?c = 0 then 0xFFFF else ?c) @ payload"
    unfolding udp_message_def Let_def udp_image by simp
  ultimately show ?thesis by (simp only:)
qed

lemma udp_message_received:
  assumes "length payload \<le> 65507" "map_of (ns_udp_sockets r) dest_port = Some socket" "us_receiver socket = Application"
  shows "dispatch_transport (ip_on_wire (packet_with (UdpLayer (udp_message (ic_ip config) dest src_port dest_port payload)) config dest IP_UDP idn 0 0)) r
    = (r\<lparr>ns_app := ns_app r @ [App_datagram (us_local_port socket) (ic_ip config) src_port payload]\<rparr>, None)"
proof -
  have "IP_UDP \<noteq> IP_TCP" by (simp add: ip_constants)
  then show ?thesis
    using assms udp_message_verifies [OF assms(1), of "ic_ip config" dest src_port dest_port]
    by (simp add: dispatch_transport_def handle_udp_def socket_on_datagram_def ip_on_wire_def thrown_def with_value_def Let_def)
qed

lemma way_source: "way_to dest egress mac s \<Longrightarrow> source_address_for dest s = Inr (ic_ip (ni_config (ns_interfaces s ! egress)))"
  by (auto simp: way_to_def source_address_for_def split: option.splits)

lemma way_sends_udp:
  assumes "way_to dest egress mac s"
  shows "socket_send_to socket dest port payload s
    = send_ip_packet dest IP_UDP (udp_to_bytes (udp_message (ic_ip (ni_config (ns_interfaces s ! egress))) dest (us_local_port socket) port payload)) False s"
  using assms way_source [OF assms]
  by (auto simp: socket_send_to_def send_or_queue_udp_def send_udp_datagram_def udp_datagram_message way_to_def with_interface_def
      with_value_def simp del: of_nat_add split: option.splits)

section \<open>Ping\<close>

definition icmp_message :: "u8 \<Rightarrow> u8 \<Rightarrow> u32 \<Rightarrow> bytes \<Rightarrow> icmp" where
  "icmp_message type code rest payload = icmp_compute_checksum (icmp_new type code 0 rest payload)"

lemma icmp_message_fields [simp]:
  "icmp_type (icmp_message type code rest payload) = type"
  "icmp_code (icmp_message type code rest payload) = code"
  "icmp_rest_of_header (icmp_message type code rest payload) = rest"
  "icmp_next_layer (icmp_message type code rest payload) = (if payload \<noteq> [] then Some payload else None)"
  "icmp_on_wire (icmp_message type code rest payload) = icmp_message type code rest payload"
  by (simp_all add: icmp_message_def icmp_compute_checksum_def icmp_new_def icmp_on_wire_def)

lemma length_icmp_message [simp]: "length (icmp_to_bytes (icmp_message type code rest payload)) = 8 + length payload"
  by (simp add: icmp_image)

lemma icmp_message_verifies: "length payload \<le> 65507 \<Longrightarrow> icmp_verify_checksum (icmp_message type code rest payload)"
  unfolding icmp_message_def by (rule icmp_checksum_verifies) (simp add: icmp_image icmp_new_def)

lemma echo_identity:
  "(ucast (drop_bit 16 (push_bit 16 (ucast (identifier :: u16)) OR ucast (sequence :: u16) :: u32)) :: u16) = identifier"
  "(ucast ((push_bit 16 (ucast (identifier :: u16)) OR ucast (sequence :: u16) :: u32) AND 0xFFFF) :: u16) = sequence"
  by (rule bit_word_eqI, auto simp: bit_simps u32_low_half not_less dest: bit_imp_le_length)+

lemma icmp_message_identity [simp]:
  "icmp_identifier (icmp_message type code (push_bit 16 (ucast identifier) OR ucast sequence) payload) = identifier"
  "icmp_sequence (icmp_message type code (push_bit 16 (ucast identifier) OR ucast sequence) payload) = sequence"
  by (simp_all only: icmp_identifier_def icmp_sequence_def icmp_message_fields echo_identity)

lemma is_broadcast_by_config:
  "is_broadcast_for_any_interface d s \<longleftrightarrow> (\<exists>c \<in> set (map ni_config (ns_interfaces s)). is_broadcast_address d c)"
  by (auto simp: is_broadcast_for_any_interface_def list_ex_iff)

lemma refreshed_broadcast [simp]: "is_broadcast_for_any_interface d (refreshed i a s) = is_broadcast_for_any_interface d s"
  unfolding is_broadcast_by_config refreshed_configs ..

lemma refreshed_other [simp]:
  "ns_routes (refreshed i a s) = ns_routes s" "ns_next_ip_id (refreshed i a s) = ns_next_ip_id s" "ns_app (refreshed i a s) = ns_app s"
  "ns_echo_callback (refreshed i a s) = ns_echo_callback s"
  by (simp_all add: refreshed_def update_interface_def)

lemma refreshed_written [simp]: "j < length (ns_interfaces s) \<Longrightarrow>
    ni_written (ns_interfaces (refreshed i a s) ! j) = ni_written (ns_interfaces s ! j)"
  by (cases "i = j") (simp_all add: refreshed_def update_interface_def)

lemma refreshed_arp: "j < length (ns_interfaces s) \<Longrightarrow>
    arp_lookup b (ni_arp_table (ns_interfaces (refreshed i a s) ! j)) = arp_lookup b (ni_arp_table (ns_interfaces s ! j))"
  by (cases "i = j") (auto simp: refreshed_def update_interface_def arp_lookup_def arp_refresh_def update_conv' split: option.split)

lemma arp_contains_lookup: "arp_contains a t \<longleftrightarrow> arp_lookup a t \<noteq> None"
  by (simp add: arp_contains_def arp_lookup_def)

lemma way_to_refreshed [simp]: "way_to dest egress mac (refreshed i a s) = way_to dest egress mac s"
proof -
  have r: "route_for dest (refreshed i a s) = route_for dest s" by (simp add: route_for_def)
  have m: "resolve_mac egress h (refreshed i a s) = resolve_mac egress h s" if "egress < length (ns_interfaces s)" for h
    using that by (simp add: resolve_mac_def refreshed_arp)
  show ?thesis unfolding way_to_def r by (auto simp: m arp_contains_lookup refreshed_arp split: option.split)
qed

lemma way_sends_icmp:
  assumes "way_to dest egress mac s"
  shows "send_icmp_message dest type code rest payload s
    = send_ip_packet dest IP_ICMP (icmp_to_bytes (icmp_message type code rest payload)) False s"
  using assms
  by (auto simp: send_icmp_message_def icmp_message_def way_to_def with_interface_def resolve_mac_def arp_contains_lookup
      split: option.splits if_splits)

lemma icmp_dispatched:
  assumes "length payload \<le> 65507"
  shows "dispatch_transport (ip_on_wire (packet_with (IcmpLayer (icmp_message type code rest payload)) config dest IP_ICMP idn 0 0)) r
    = handle_icmp (ip_on_wire (packet_with (IcmpLayer (icmp_message type code rest payload)) config dest IP_ICMP idn 0 0))
        (icmp_message type code rest payload) r"
  by (simp add: dispatch_transport_def ip_on_wire_def ip_constants)

lemma icmp_delivered:
  assumes "way_to dest egress mac s" "config = ni_config (ns_interfaces s ! egress)"
    and "length payload \<le> 65507" "fits (8 + length payload) config"
    and "hears r ingress mac dest" "has_room (Key (ic_ip config) dest (ns_next_ip_id s) IP_ICMP) (8 + length payload) (ns_reassembler r)"
  obtains frames s' idn where "send_icmp_message dest type code rest payload s = (s', None)" "quiet s' = quiet s"
    "ni_written (ns_interfaces s' ! egress) = ni_written (ns_interfaces s ! egress) @ frames"
    "\<forall>arrived. mset arrived = mset frames \<longrightarrow> receive_frames ingress arrived r
       = catching_base (handle_icmp (ip_on_wire (packet_with (IcmpLayer (icmp_message type code rest payload)) config dest IP_ICMP idn 0 0))
           (icmp_message type code rest payload) (refreshed ingress (ic_ip config) r))"
proof -
  let ?m = "icmp_message type code rest payload"
  have a: "layer_announced IP_ICMP 0 0 (IcmpLayer ?m)" by (simp add: layer_announced_def)
  have fit: "fits (length (ip_layer_to_bytes (IcmpLayer ?m))) config"
    and room: "has_room (Key (ic_ip config) dest (ns_next_ip_id s) IP_ICMP) (length (ip_layer_to_bytes (IcmpLayer ?m))) (ns_reassembler r)"
    using assms(4,6) by simp_all
  obtain frames s' idn where f: "send_ip_packet dest IP_ICMP (ip_layer_to_bytes (IcmpLayer ?m)) False s = (s', None)" "quiet s' = quiet s"
    "ni_written (ns_interfaces s' ! egress) = ni_written (ns_interfaces s ! egress) @ frames"
    "\<forall>arrived. mset arrived = mset frames \<longrightarrow> receive_frames ingress arrived r
       = catching_base (dispatch_transport (ip_on_wire (packet_with (IcmpLayer ?m) config dest IP_ICMP idn 0 0)) (refreshed ingress (ic_ip config) r))"
    by (rule packet_delivered [OF assms(1,2) a fit assms(5) room])
  have "send_icmp_message dest type code rest payload s = (s', None)" using f(1) way_sends_icmp [OF assms(1)] by simp
  from this f(2,3) f(4) [unfolded icmp_dispatched [OF assms(3)]] show ?thesis by (rule that)
qed

lemma echo_request_answered:
  assumes "length payload \<le> 65507" "\<not> is_broadcast_for_any_interface dest r"
  shows "handle_icmp (ip_on_wire (packet_with (IcmpLayer (icmp_message ICMP_ECHO_REQUEST code rest payload)) config dest IP_ICMP idn 0 0))
      (icmp_message ICMP_ECHO_REQUEST code rest payload) r
    = send_icmp_message (ic_ip config) ICMP_ECHO_REPLY ICMP_CODE_NONE rest payload r"
  using assms icmp_message_verifies [OF assms(1)]
  by (simp add: handle_icmp_def ip_on_wire_def thrown_def with_value_def Let_def)

lemma echo_reply_reported:
  assumes "length payload \<le> 65507" "ns_echo_callback s"
  shows "handle_icmp (ip_on_wire (packet_with (IcmpLayer (icmp_message ICMP_ECHO_REPLY code (push_bit 16 (ucast identifier) OR ucast sequence) payload))
        config dest IP_ICMP idn 0 0)) (icmp_message ICMP_ECHO_REPLY code (push_bit 16 (ucast identifier) OR ucast sequence) payload) s
    = (s\<lparr>ns_app := ns_app s @ [App_echo_reply (ic_ip config) identifier sequence payload]\<rparr>, None)"
  using assms icmp_message_verifies [OF assms(1)]
  by (simp add: handle_icmp_def ip_on_wire_def thrown_def with_value_def Let_def
      ICMP_ECHO_REPLY_def ICMP_ECHO_REQUEST_def)

section \<open>Forwarding\<close>

lemma low_byte: "ucast (w AND 0xff) = (ucast w :: u8)" for w :: u16
  by (rule bit_word_eqI) (auto simp: bit_simps bit_numeral_rec numeral_eq_Suc less_Suc_eq)

lemma forwarded_edit:
  assumes "length a = 8" "length b = 8"
  shows "forwarded_packet ttl (a @ [t, pr, c1, c2] @ b @ payload)
    = a @ [ttl - 1, pr] @ int_to_bytes (internet_checksum (a @ [ttl - 1, pr, 0, 0] @ b)) @ b @ payload"
  using assms
  by (simp add: forwarded_packet_def TTL_OFFSET_def CHECKSUM_OFFSET_def IP_HEADER_SIZE_def Let_def list_update_append low_byte)

lemma forwarded_is_decrement:
  assumes "length (ip_src_address p) = 4" "length (ip_dest_address p) = 4"
  shows "forwarded_packet (ip_TTL p) (ip_to_bytes p) = ip_to_bytes (ip_compute_checksum (p\<lparr>ip_TTL := ip_TTL p - 1\<rparr>))"
proof -
  let ?a = "[push_bit 4 (ip_version p) OR ip_IHL p, ip_TOS p]
     @ int_to_bytes (ip_total_length p) @ int_to_bytes (ip_identification p)
     @ int_to_bytes (push_bit 8 (ucast (ip_flags p)) OR (ip_fragment_offset p AND 0x1FFF) :: u16)"
  let ?b = "ip_src_address p @ ip_dest_address p"
  let ?c = "internet_checksum (?a @ [ip_TTL p - 1, ip_protocol p, 0, 0] @ ?b)"
  have h: "ip_header_to_bytes (p\<lparr>ip_TTL := t, ip_header_checksum := c\<rparr>) = ?a @ [t, ip_protocol p] @ int_to_bytes c @ ?b" for t c
    by (simp add: ip_header_image)
  have "ip_to_bytes p = ?a @ [ip_TTL p, ip_protocol p, ucast (drop_bit 8 (ip_header_checksum p)), ucast (ip_header_checksum p)] @ ?b @ ip_payload p"
    by (simp add: ip_to_bytes_eq ip_header_image)
  then have "forwarded_packet (ip_TTL p) (ip_to_bytes p) = ?a @ [ip_TTL p - 1, ip_protocol p] @ int_to_bytes ?c @ ?b @ ip_payload p"
    using forwarded_edit [of ?a ?b] assms by simp
  moreover have "ip_compute_checksum (p\<lparr>ip_TTL := ip_TTL p - 1\<rparr>) = p\<lparr>ip_TTL := ip_TTL p - 1, ip_header_checksum := ?c\<rparr>"
    unfolding ip_compute_checksum_def Let_def using h [where t = "ip_TTL p - 1" and c = 0] by simp
  ultimately show ?thesis by (simp add: ip_to_bytes_eq ip_header_image)
qed
lemma ip_frame_handled:
  assumes q: "ip_writable q" and i: "ingress < length (ns_interfaces r)"
    and mac: "is_addressed_to_us dest_mac (ic_mac (ni_config (ns_interfaces r ! ingress)))"
  shows "handle_frame ingress (ethernet_to_bytes ((ethernet_new src dest_mac ETHERTYPE_IPv4)\<lparr>eth_next_layer := Some (IpFrame q)\<rparr>)) r
    = catching_base (handle_ip ingress (ip_on_wire q) (ip_to_bytes q) r)"
proof -
  let ?e = "(ethernet_new src dest_mac ETHERTYPE_IPv4)\<lparr>eth_next_layer := Some (IpFrame q)\<rparr>"
  have "length (ip_to_bytes q) \<le> 65535" using q unat_u16_less [of "ip_total_length q"] by (simp add: ip_writable_def)
  then have l: "length (ethernet_to_bytes ?e) < 2 ^ 64" by (simp add: ethernet_image)
  have p: "ethernet_from_bytes (ethernet_to_bytes ?e)
      = Inr \<lparr>eth_src = src, eth_dest = dest_mac, eth_protocol = ETHERTYPE_IPv4, eth_next_layer = Some (IpFrame (ip_on_wire q))\<rparr>"
    using ethernet_roundtrip [of ?e "IpFrame q" "[]"] q l by (simp add: ethernet_new_def)
  have "drop 14 (ethernet_to_bytes ?e) = ip_to_bytes q" by (simp add: ethernet_image ethernet_new_def)
  then have b: "slice_from (ethernet_to_bytes ?e) ETHERNET_HEADER_SIZE = Inr (ip_to_bytes q)"
    using slice_from_ok [of 14 "ethernet_to_bytes ?e"] l by (simp add: ETHERNET_HEADER_SIZE_def ethernet_image)
  show ?thesis unfolding handle_frame_def p b
    using i mac by (simp add: thrown_def with_value_def with_interface_def ethertypes)
qed

lemma udp_packet_delivered:
  assumes p: "ip_next_layer p = Some (UdpLayer (udp_message src dest src_port dest_port payload))" "ip_protocol p = IP_UDP"
      "ip_src_address p = ipv4_get_address src" "ip_dest_address p = ipv4_get_address dest"
      "ip_verify_checksum p" "\<not> ip_flag_m p" "ip_fragment_offset p = 0"
    and l: "length payload \<le> 65507" and us: "hears r ingress mac dest"
    and socket: "map_of (ns_udp_sockets r) dest_port = Some socket" "us_receiver socket = Application"
  shows "handle_ip ingress p bs r
    = ((refreshed ingress src r)\<lparr>ns_app := ns_app r @ [App_datagram (us_local_port socket) src src_port payload]\<rparr>, None)"
proof -
  have "map_of (ns_udp_sockets (refreshed ingress src r)) dest_port = Some socket"
    using socket(1) by (simp add: refreshed_def update_interface_def)
  moreover have "IP_UDP \<noteq> IP_TCP" by (simp add: ip_constants)
  ultimately have "dispatch_transport p (refreshed ingress src r)
      = ((refreshed ingress src r)\<lparr>ns_app := ns_app r @ [App_datagram (us_local_port socket) src src_port payload]\<rparr>, None)"
    using p socket(2) udp_message_verifies [OF l, of src dest src_port dest_port]
    by (simp add: dispatch_transport_def handle_udp_def socket_on_datagram_def thrown_def with_value_def Let_def)
  then show ?thesis
    using p us unfolding handle_ip_def hears_def refreshed_def [symmetric]
    by (auto simp: thrown_def with_value_def with_interface_def Let_def refreshed_def)
qed

definition one_hop_on :: "ip \<Rightarrow> ip" where
  "one_hop_on p = ip_compute_checksum (p\<lparr>ip_TTL := ip_TTL p - 1\<rparr>)"

lemma one_hop_fields [simp]:
  "ip_next_layer (one_hop_on p) = ip_next_layer p" "ip_protocol (one_hop_on p) = ip_protocol p"
  "ip_src_address (one_hop_on p) = ip_src_address p" "ip_dest_address (one_hop_on p) = ip_dest_address p"
  "ip_flags (one_hop_on p) = ip_flags p" "ip_fragment_offset (one_hop_on p) = ip_fragment_offset p"
  "ip_IHL (one_hop_on p) = ip_IHL p" "ip_version (one_hop_on p) = ip_version p" "ip_total_length (one_hop_on p) = ip_total_length p"
  "ip_TTL (one_hop_on p) = ip_TTL p - 1" "ip_identification (one_hop_on p) = ip_identification p"
  by (simp_all add: one_hop_on_def ip_compute_checksum_def Let_def)

lemma one_hop_layer_ok [simp]: "ip_layer_ok (one_hop_on p) = ip_layer_ok p"
  unfolding ip_layer_ok_def ip_is_fragment_def one_hop_fields ..

lemma one_hop_writable: "ip_writable p \<Longrightarrow> ip_writable (one_hop_on p)"
  by (simp add: ip_writable_def ip_to_bytes_eq ip_header_image)

lemma one_hop_verifies: "ip_writable p \<Longrightarrow> ip_verify_checksum ((one_hop_on p)\<lparr>ip_next_layer := x\<rparr>)"
  using ip_checksum_verifies [of "p\<lparr>ip_TTL := ip_TTL p - 1\<rparr>"]
  by (simp add: one_hop_on_def ip_verify_checksum_def ip_writable_def ip_header_image)

lemma packet_forwarded:
  assumes q: "ip_writable q" "ip_dest_address q = ipv4_get_address dest" "ip_src_address q = ipv4_get_address src"
      "ip_verify_checksum (ip_on_wire q)" "1 < ip_TTL q"
    and r: "ns_forwarding r" "ingress < length (ns_interfaces r)" "\<not> addressed_to_us dest r"
      "\<not> is_broadcast_address dest (ni_config (ns_interfaces r ! ingress))"
    and out: "route_for dest r = Some (next_hop, egress)" "egress < length (ns_interfaces r)" "egress \<noteq> ingress"
      "arp_lookup next_hop (ni_arp_table (ns_interfaces r ! egress)) = Some mac"
  shows "handle_ip ingress (ip_on_wire q) (ip_to_bytes q) r
    = (write_frame egress (ethernet_to_bytes ((ethernet_new (ic_mac (ni_config (ns_interfaces r ! egress))) mac ETHERTYPE_IPv4)
         \<lparr>eth_next_layer := Some (IpFrame (one_hop_on q))\<rparr>)) r, None)"
proof -
  have f: "forwarded_packet (ip_TTL q) (ip_to_bytes q) = ip_to_bytes (one_hop_on q)"
    unfolding one_hop_on_def by (rule forwarded_is_decrement) (use q in \<open>simp_all add: ip_writable_def\<close>)
  have l: "\<not> length (ip_to_bytes q) < IP_HEADER_SIZE"
    using q(1) by (simp add: IP_HEADER_SIZE_def ip_to_bytes_eq ip_header_image ip_writable_def)
  have w: "ip_dest_address (ip_on_wire q) = ipv4_get_address dest" "ip_src_address (ip_on_wire q) = ipv4_get_address src"
      "ip_TTL (ip_on_wire q) = ip_TTL q" using q by (simp_all add: ip_on_wire_def)
  have t: "\<not> ip_TTL q \<le> 1" using q(5) by simp
  show ?thesis
    unfolding handle_ip_def forward_ip_def w
    using r out q(4) l t by (simp add: thrown_def with_value_def with_interface_def f ethernet_image)
qed

lemma written_write: "i < length (ns_interfaces s) \<Longrightarrow>
    ni_written (ns_interfaces (write_frame i frame s) ! i) = ni_written (ns_interfaces s ! i) @ [frame]"
  by (simp add: write_frame_def update_interface_def)

section \<open>Sending returns\<close>

lemma fragment_loop_total: "0 < c \<Longrightarrow> \<exists>parts. fragment_loop c payload off = Some parts"
proof (induction "length payload - off" arbitrary: off rule: less_induct)
  case less
  show ?case
  proof (cases "off < length payload")
    case True
    then have "length payload - (off + min c (length payload - off)) < length payload - off" using less.prems by linarith
    from less.hyps [OF this less.prems]
    obtain rest where "fragment_loop c payload (off + min c (length payload - off)) = Some rest" by blast
    with True show ?thesis by (subst fragment_loop.simps) (simp add: Let_def)
  qed (simp add: fragment_loop.simps)
qed

lemma max_payload_zero: "max_ip_payload config = 0 \<longleftrightarrow> 20 \<le> ic_mtu config \<and> ic_mtu config \<le> 27"
proof -
  let ?x = "ucast (ic_mtu config) - 20 :: u64"
  have u: "unat (ucast (ic_mtu config) :: u64) = unat (ic_mtu config)" 
    using unat_u16_less [of "ic_mtu config"] by (simp add: unsigned_ucast_eq take_bit_nat_eq_self)
  have "w = (w AND m) OR (w AND NOT m)" for w m :: u64
    by (rule bit_word_eqI) (auto simp: bit_and_iff bit_or_iff bit_not_iff)
  from this [of ?x 7] have split: "?x = (?x AND 7) OR (?x AND NOT 7)" .
  have t: "?x AND 7 = take_bit 3 ?x" by (simp add: take_bit_eq_mask mask_numeral)
  have "max_ip_payload config = 0 \<longleftrightarrow> ?x AND NOT 7 = 0" by (simp add: max_ip_payload_def)
  also have "\<dots> \<longleftrightarrow> take_bit 3 ?x = ?x"
  proof
    assume "take_bit 3 ?x = ?x"
    then have "?x AND NOT 7 = (?x AND 7) AND NOT 7" by (metis t)
    also have "\<dots> = 0" by (simp add: and.assoc)
    finally show "?x AND NOT 7 = 0" .
  qed (use split t in \<open>metis or.right_neutral\<close>)
  also have "\<dots> \<longleftrightarrow> unat ?x < 8"
    by (simp add: word_unat_eq_iff unsigned_take_bit_eq take_bit_nat_eq_self_iff)
  also have "\<dots> \<longleftrightarrow> 20 \<le> ic_mtu config \<and> ic_mtu config \<le> 27"
  proof (cases "20 \<le> ic_mtu config")
    case True
    then have "20 \<le> (ucast (ic_mtu config) :: u64)" using u by (simp add: word_le_nat_alt)
    then have "unat ?x = unat (ic_mtu config) - 20" using u by (simp add: unat_sub)
    with True show ?thesis by (auto simp: word_le_nat_alt)
  next
    case False
    then have "unat (ic_mtu config) < 20" by (simp add: word_le_nat_alt)
    then have "unat ?x = 2 ^ 64 - 20 + unat (ic_mtu config)" using u by (simp add: unat_sub_if')
    with False show ?thesis by simp
  qed
  finally show ?thesis .
qed

section \<open>Concrete stacks\<close>

definition lab_mac :: "u8 \<Rightarrow> mac" where
  "lab_mac host = MacAddress 2 0 0 0 0 host"

definition lab_ip :: "u8 \<Rightarrow> ipv4" where
  "lab_ip host = IPv4Address 10 0 0 host"

definition lab_stack :: "iface_config \<Rightarrow> network_stack" where
  "lab_stack = stack_new \<lparr>isn_key_low = 1, isn_key_high = 2\<rparr> 1 0 (\<lambda>_ c. c) (\<lambda>_ r. r)"

definition lab_host :: "u8 \<Rightarrow> u8 \<Rightarrow> network_stack" where
  "lab_host host peer =
     set_echo_reply_callback True
       (set_receiver 9 Application (bind_udp 9
          (add_static_arp_entry (lab_ip peer) (lab_mac peer)
             (lab_stack (single_segment_config (lab_mac host) (lab_ip host))))))"

lemma lab_paths:
  "way_to (lab_ip 2) 0 (lab_mac 2) (lab_host 1 2)"
  "way_to (lab_ip 1) 0 (lab_mac 1) (lab_host 2 1)"
  "hears (lab_host 1 2) 0 (lab_mac 1) (lab_ip 1)"
  "hears (lab_host 2 1) 0 (lab_mac 2) (lab_ip 2)"
  "\<not> is_broadcast_for_any_interface (lab_ip 2) (lab_host 2 1)"
  by code_simp+

lemma lab_fields [simp]:
  "ni_config (ns_interfaces (lab_host a b) ! 0) = single_segment_config (lab_mac a) (lab_ip a)"
  "ic_ip (single_segment_config m i) = i"
  "ns_reassembler (lab_host a b) = reassembler_new FRAGMENT_TIMEOUT_MS"
  "ns_app (lab_host a b) = []" "ni_written (ns_interfaces (lab_host a b) ! 0) = []"
  "map_of (ns_udp_sockets (lab_host a b)) 9 = Some \<lparr>us_local_port = 9, us_receiver = Application\<rparr>"
  "ns_echo_callback (lab_host a b)"
  by code_simp+

lemma lab_fits: "n \<le> 65515 \<Longrightarrow> fits n (single_segment_config m i)"
  by (simp add: fits_def max_ip_payload_def single_segment_config_def)

lemma lab_room: "n \<le> 65535 \<Longrightarrow> has_room key n (reassembler_new t)"
  by (simp add: has_room_def reassembler_new_def MAX_PENDING_DATAGRAMS_def MAX_BUFFERED_BYTES_def)

definition lab_client :: network_stack where
  "lab_client = add_static_arp_entry (lab_ip 9) (lab_mac 9)
     (lab_stack \<lparr>ic_mac = lab_mac 1, ic_ip = lab_ip 1, ic_prefix_length = 24, ic_gateway = lab_ip 9, ic_mtu = 1500\<rparr>)"

definition lab_router :: network_stack where
  "lab_router = set_forwarding True
     (update_interface 1 (\<lambda>i. i\<lparr>ni_arp_table := snd (arp_learn (IPv4Address 10 0 1 2) (lab_mac 2) (ni_arp_table i))\<rparr>)
       (snd (add_interface (single_segment_config (lab_mac 10) (IPv4Address 10 0 1 9))
          (lab_stack (single_segment_config (lab_mac 9) (lab_ip 9))))))"

definition lab_server :: network_stack where
  "lab_server = set_receiver 9 Application (bind_udp 9 (lab_stack (single_segment_config (lab_mac 2) (IPv4Address 10 0 1 2))))"

lemma lab_route:
  "way_to (IPv4Address 10 0 1 2) 0 (lab_mac 9) lab_client" "ic_ip (ni_config (ns_interfaces lab_client ! 0)) = lab_ip 1"
  "unat (max_ip_payload (ni_config (ns_interfaces lab_client ! 0))) = 1480"
  "ns_forwarding lab_router" "0 < length (ns_interfaces lab_router)"
  "is_addressed_to_us (lab_mac 9) (ic_mac (ni_config (ns_interfaces lab_router ! 0)))"
  "\<not> addressed_to_us (IPv4Address 10 0 1 2) lab_router"
  "\<not> is_broadcast_address (IPv4Address 10 0 1 2) (ni_config (ns_interfaces lab_router ! 0))"
  "route_for (IPv4Address 10 0 1 2) lab_router = Some (IPv4Address 10 0 1 2, 1)" "1 < length (ns_interfaces lab_router)"
  "arp_lookup (IPv4Address 10 0 1 2) (ni_arp_table (ns_interfaces lab_router ! 1)) = Some (lab_mac 2)"
  "hears lab_server 0 (lab_mac 2) (IPv4Address 10 0 1 2)"
  "map_of (ns_udp_sockets lab_server) 9 = Some \<lparr>us_local_port = 9, us_receiver = Application\<rparr>" "ns_app lab_server = []"
  by code_simp+

section \<open>Properties of the stack on a wire\<close>

text \<open>C4. What one application gives to \<open>send_to\<close> is what the other one's callback gets: a datagram of
  any size UDP allows, cut into as many frames as the MTU asks for, whose frames arrive in any order, is handed to
  the socket of its port once, with the sender's address and port and every byte of the payload, and leaves no
  other trace in the receiver than a renewed ARP entry.\<close>

theorem udp_datagram_delivered:
  assumes "way_to dest egress mac s" "config = ni_config (ns_interfaces s ! egress)"
    and "length payload \<le> 65507" "fits (8 + length payload) config"
    and "hears r ingress mac dest" "has_room (Key (ic_ip config) dest (ns_next_ip_id s) IP_UDP) (8 + length payload) (ns_reassembler r)"
    and "map_of (ns_udp_sockets r) port = Some receiver" "us_receiver receiver = Application"
  shows "\<exists>frames s'. socket_send_to sender dest port payload s = (s', None) \<and> quiet s' = quiet s
    \<and> ni_written (ns_interfaces s' ! egress) = ni_written (ns_interfaces s ! egress) @ frames
    \<and> (\<forall>arrived. mset arrived = mset frames \<longrightarrow>
         receive_frames ingress arrived r
         = ((refreshed ingress (ic_ip config) r)
              \<lparr>ns_app := ns_app r @ [App_datagram (us_local_port receiver) (ic_ip config) (us_local_port sender) payload]\<rparr>, None))"
proof -
  let ?u = "udp_message (ic_ip config) dest (us_local_port sender) port payload"
  have a: "layer_announced IP_UDP 0 0 (UdpLayer ?u)"
    using assms(3) unat_of_nat_u16 [of "8 + length payload"] by (simp add: layer_announced_def del: of_nat_add)
  have fit: "fits (length (ip_layer_to_bytes (UdpLayer ?u))) config"
    and room: "has_room (Key (ic_ip config) dest (ns_next_ip_id s) IP_UDP) (length (ip_layer_to_bytes (UdpLayer ?u))) (ns_reassembler r)"
    using assms(4,6) by simp_all
  obtain frames s' idn where f: "send_ip_packet dest IP_UDP (ip_layer_to_bytes (UdpLayer ?u)) False s = (s', None)" "quiet s' = quiet s"
    "ni_written (ns_interfaces s' ! egress) = ni_written (ns_interfaces s ! egress) @ frames"
    "\<forall>arrived. mset arrived = mset frames \<longrightarrow> receive_frames ingress arrived r
       = catching_base (dispatch_transport (ip_on_wire (packet_with (UdpLayer ?u) config dest IP_UDP idn 0 0)) (refreshed ingress (ic_ip config) r))"
    by (rule packet_delivered [OF assms(1,2) a fit assms(5) room])
  have "socket_send_to sender dest port payload s = (s', None)"
    using f(1) way_sends_udp [OF assms(1)] assms(2) by simp
  moreover have "map_of (ns_udp_sockets (refreshed ingress (ic_ip config) r)) port = Some receiver" "ns_app (refreshed ingress (ic_ip config) r) = ns_app r"
    using assms(7) by (simp_all add: refreshed_def update_interface_def)
  then have "receive_frames ingress arrived r
         = ((refreshed ingress (ic_ip config) r)
              \<lparr>ns_app := ns_app r @ [App_datagram (us_local_port receiver) (ic_ip config) (us_local_port sender) payload]\<rparr>, None)"
    if "mset arrived = mset frames" for arrived
    using f(4) that udp_message_received [OF assms(3) _ assms(8)] by simp
  ultimately show ?thesis using f(2,3) by blast
qed

theorem udp_datagram_delivered_witness:
  "\<exists>frames s'. socket_send_to \<lparr>us_local_port = 7, us_receiver = Nobody\<rparr> (lab_ip 2) 9 (replicate 3000 42) (lab_host 1 2) = (s', None)
     \<and> ni_written (ns_interfaces s' ! 0) = frames
     \<and> receive_frames 0 (rev frames) (lab_host 2 1)
       = ((refreshed 0 (lab_ip 1) (lab_host 2 1))\<lparr>ns_app := [App_datagram 9 (lab_ip 1) 7 (replicate 3000 42)]\<rparr>, None)"
  using udp_datagram_delivered [OF lab_paths(1) refl _ _ lab_paths(4), of "replicate 3000 42" 9 "\<lparr>us_local_port = 9, us_receiver = Application\<rparr>"
      "\<lparr>us_local_port = 7, us_receiver = Nobody\<rparr>"]
  by (auto simp: lab_fits lab_room)

text \<open>C8. A ping comes back: the frames of an echo request of any size, arriving in any order, make the
  destination write an echo reply, and the frames of the reply, arriving in any order, make the sender report it
  with the identifier, the sequence number and the payload it had sent.\<close>

theorem ping_answered:
  assumes "way_to dest egress mac s" "config = ni_config (ns_interfaces s ! egress)"
    and "length payload \<le> 65507" "fits (8 + length payload) config"
    and "hears r ingress mac dest" "has_room (Key (ic_ip config) dest (ns_next_ip_id s) IP_ICMP) (8 + length payload) (ns_reassembler r)"
    and "\<not> is_broadcast_for_any_interface dest r"
    and "way_to (ic_ip config) egress' mac' r" "config' = ni_config (ns_interfaces r ! egress')" "fits (8 + length payload) config'"
    and "hears s ingress' mac' (ic_ip config)"
      "has_room (Key (ic_ip config') (ic_ip config) (ns_next_ip_id r) IP_ICMP) (8 + length payload) (ns_reassembler s)"
    and "ns_echo_callback s"
  shows "\<exists>requests s1. send_echo_request dest identifier sequence payload s = (s1, None)
    \<and> ni_written (ns_interfaces s1 ! egress) = ni_written (ns_interfaces s ! egress) @ requests
    \<and> (\<forall>arrived. mset arrived = mset requests \<longrightarrow>
         (\<exists>r1 replies. receive_frames ingress arrived r = (r1, None)
            \<and> ni_written (ns_interfaces r1 ! egress') = ni_written (ns_interfaces r ! egress') @ replies
            \<and> (\<forall>returned. mset returned = mset replies \<longrightarrow>
                 receive_frames ingress' returned s1
                 = ((refreshed ingress' (ic_ip config') s1)
                      \<lparr>ns_app := ns_app s @ [App_echo_reply (ic_ip config') identifier sequence payload]\<rparr>, None))))"
proof -
  let ?rest = "push_bit 16 (ucast identifier) OR ucast sequence :: u32"
  let ?r = "refreshed ingress (ic_ip config) r"
  obtain requests s1 idn where q: "send_icmp_message dest ICMP_ECHO_REQUEST ICMP_CODE_NONE ?rest payload s = (s1, None)" "quiet s1 = quiet s"
    "ni_written (ns_interfaces s1 ! egress) = ni_written (ns_interfaces s ! egress) @ requests"
    "\<forall>arrived. mset arrived = mset requests \<longrightarrow> receive_frames ingress arrived r
       = catching_base (handle_icmp (ip_on_wire (packet_with (IcmpLayer (icmp_message ICMP_ECHO_REQUEST ICMP_CODE_NONE ?rest payload)) config dest IP_ICMP idn 0 0))
           (icmp_message ICMP_ECHO_REQUEST ICMP_CODE_NONE ?rest payload) ?r)"
    by (rule icmp_delivered [OF assms(1-6)])
  have e: "egress' < length (ns_interfaces r)" using assms(8) by (auto simp: way_to_def split: option.splits)
  have way: "way_to (ic_ip config) egress' mac' ?r" and config': "config' = ni_config (ns_interfaces ?r ! egress')"
    using assms(8,9) e by simp_all
  have h: "hears s1 ingress' mac' (ic_ip config)" using assms(11) hears_quiet [OF q(2)] by simp
  have room: "has_room (Key (ic_ip config') (ic_ip config) (ns_next_ip_id ?r) IP_ICMP) (8 + length payload) (ns_reassembler s1)"
    using assms(12) quiet_fields(3) [OF q(2)] by simp
  obtain replies r1 idn' where p: "send_icmp_message (ic_ip config) ICMP_ECHO_REPLY ICMP_CODE_NONE ?rest payload ?r = (r1, None)" "quiet r1 = quiet ?r"
    "ni_written (ns_interfaces r1 ! egress') = ni_written (ns_interfaces ?r ! egress') @ replies"
    "\<forall>arrived. mset arrived = mset replies \<longrightarrow> receive_frames ingress' arrived s1
       = catching_base (handle_icmp (ip_on_wire (packet_with (IcmpLayer (icmp_message ICMP_ECHO_REPLY ICMP_CODE_NONE ?rest payload)) config' (ic_ip config) IP_ICMP idn' 0 0))
           (icmp_message ICMP_ECHO_REPLY ICMP_CODE_NONE ?rest payload) (refreshed ingress' (ic_ip config') s1))"
    by (rule icmp_delivered [OF way config' assms(3,10) h room])
  have "receive_frames ingress arrived r = (r1, None)" if "mset arrived = mset requests" for arrived
    using q(4) that echo_request_answered [OF assms(3), of dest ?r] assms(7) p(1) by simp
  moreover have "ni_written (ns_interfaces r1 ! egress') = ni_written (ns_interfaces r ! egress') @ replies" using p(3) e by simp
  moreover have "receive_frames ingress' returned s1
      = ((refreshed ingress' (ic_ip config') s1)\<lparr>ns_app := ns_app s @ [App_echo_reply (ic_ip config') identifier sequence payload]\<rparr>, None)"
    if "mset returned = mset replies" for returned
    using p(4) that echo_reply_reported [OF assms(3), of "refreshed ingress' (ic_ip config') s1"] quiet_fields(4,5) [OF q(2)] assms(13) by simp
  ultimately show ?thesis using q(1,3) unfolding send_echo_request_def by blast
qed

theorem ping_answered_witness:
  "\<exists>requests s1 replies r1. send_echo_request (lab_ip 2) 5 1 (replicate 2000 42) (lab_host 1 2) = (s1, None)
     \<and> ni_written (ns_interfaces s1 ! 0) = requests
     \<and> receive_frames 0 (rev requests) (lab_host 2 1) = (r1, None)
     \<and> ni_written (ns_interfaces r1 ! 0) = replies
     \<and> receive_frames 0 (rev replies) s1
       = ((refreshed 0 (lab_ip 2) s1)\<lparr>ns_app := [App_echo_reply (lab_ip 2) 5 1 (replicate 2000 42)]\<rparr>, None)"
proof -
  have "way_to (ic_ip (ni_config (ns_interfaces (lab_host 1 2) ! 0))) 0 (lab_mac 1) (lab_host 2 1)"
    "hears (lab_host 1 2) 0 (lab_mac 1) (ic_ip (ni_config (ns_interfaces (lab_host 1 2) ! 0)))"
    using lab_paths by simp_all
  from ping_answered [OF lab_paths(1) refl _ _ lab_paths(4) _ lab_paths(5) this(1) refl _ this(2), of "replicate 2000 42" 5 1]
  obtain s1 where q: "send_echo_request (lab_ip 2) 5 1 (replicate 2000 42) (lab_host 1 2) = (s1, None)"
      "\<forall>arrived. mset arrived = mset (ni_written (ns_interfaces s1 ! 0)) \<longrightarrow>
         (\<exists>r1. receive_frames 0 arrived (lab_host 2 1) = (r1, None)
            \<and> (\<forall>returned. mset returned = mset (ni_written (ns_interfaces r1 ! 0)) \<longrightarrow> receive_frames 0 returned s1
                 = ((refreshed 0 (lab_ip 2) s1)\<lparr>ns_app := [App_echo_reply (lab_ip 2) 5 1 (replicate 2000 42)]\<rparr>, None)))"
    by (auto simp: lab_fits lab_room)
  moreover from q(2) [rule_format, of "rev (ni_written (ns_interfaces s1 ! 0))"]
  obtain r1 where "receive_frames 0 (rev (ni_written (ns_interfaces s1 ! 0))) (lab_host 2 1) = (r1, None)"
      "receive_frames 0 (rev (ni_written (ns_interfaces r1 ! 0))) s1
        = ((refreshed 0 (lab_ip 2) s1)\<lparr>ns_app := [App_echo_reply (lab_ip 2) 5 1 (replicate 2000 42)]\<rparr>, None)"
    by auto
  ultimately show ?thesis by blast
qed

text \<open>C7. A datagram crosses a router: the frame the sender writes makes the router write one frame on
  another interface and changes nothing else of the router, and that frame delivers the datagram to the
  destination's application, with the address of the original sender.\<close>

theorem routed_datagram_delivered:
  assumes "way_to dest egress router_mac s" "config = ni_config (ns_interfaces s ! egress)"
      "length payload \<le> 65507" "8 + length payload \<le> unat (max_ip_payload config)"
    and "ns_forwarding r" "ingress < length (ns_interfaces r)"
      "is_addressed_to_us router_mac (ic_mac (ni_config (ns_interfaces r ! ingress)))" "\<not> addressed_to_us dest r"
      "\<not> is_broadcast_address dest (ni_config (ns_interfaces r ! ingress))"
    and "route_for dest r = Some (next_hop, out)" "out < length (ns_interfaces r)" "out \<noteq> ingress"
      "arp_lookup next_hop (ni_arp_table (ns_interfaces r ! out)) = Some mac"
    and "hears c arrival mac dest" "map_of (ns_udp_sockets c) port = Some receiver" "us_receiver receiver = Application"
  shows "\<exists>frame s' frame' r'. socket_send_to sender dest port payload s = (s', None)
    \<and> ni_written (ns_interfaces s' ! egress) = ni_written (ns_interfaces s ! egress) @ [frame]
    \<and> handle_frame ingress frame r = (r', None) \<and> quiet r' = quiet r
    \<and> ni_written (ns_interfaces r' ! out) = ni_written (ns_interfaces r ! out) @ [frame']
    \<and> handle_frame arrival frame' c
      = ((refreshed arrival (ic_ip config) c)
           \<lparr>ns_app := ns_app c @ [App_datagram (us_local_port receiver) (ic_ip config) (us_local_port sender) payload]\<rparr>, None)"
proof -
  let ?u = "udp_message (ic_ip config) dest (us_local_port sender) port payload"
  let ?layer = "UdpLayer ?u"
  let ?q = "packet_with ?layer config dest IP_UDP 0 0 0"
  let ?frame = "ip_frame config router_mac (ip_packet config dest IP_UDP 0 0 0 (udp_to_bytes ?u))"
  let ?frame' = "ethernet_to_bytes ((ethernet_new (ic_mac (ni_config (ns_interfaces r ! out))) mac ETHERTYPE_IPv4)
         \<lparr>eth_next_layer := Some (IpFrame (one_hop_on ?q))\<rparr>)"
  have a: "layer_announced IP_UDP 0 0 ?layer"
    using assms(3) unat_of_nat_u16 [of "8 + length payload"] by (simp add: layer_announced_def del: of_nat_add)
  have w: "ip_writable ?q" by (rule packet_with_writable [OF a]) (use assms(3) in simp_all)
  have e: "egress < length (ns_interfaces s)" using assms(1) by (auto simp: way_to_def split: option.splits)
  have sent: "socket_send_to sender dest port payload s = (write_frame egress ?frame s, None)"
    using way_sends_udp [OF assms(1), of sender port payload] assms(1,4) e unfolding assms(2) [symmetric] send_ip_packet_def
    by (auto simp: way_to_def with_interface_def with_value_def Let_def assms(2) split: option.splits)
  have frame: "?frame = ethernet_to_bytes ((ethernet_new (ic_mac config) router_mac ETHERTYPE_IPv4)\<lparr>eth_next_layer := Some (IpFrame ?q)\<rparr>)"
    using packet_with_bytes [of ?layer] by (simp add: ip_frame_def ethernet_image)
  have "handle_ip ingress (ip_on_wire ?q) (ip_to_bytes ?q) r = (write_frame out ?frame' r, None)"
    by (rule packet_forwarded [OF w, where src = "ic_ip config" and dest = dest])
      (use assms(5-13) packet_with_verifies in \<open>simp_all add: ip_on_wire_def\<close>)
  then have fwd: "handle_frame ingress ?frame r = (write_frame out ?frame' r, None)"
    unfolding frame ip_frame_handled [OF w assms(6,7)] by simp
  have v: "ip_verify_checksum (ip_on_wire (one_hop_on ?q))" unfolding ip_on_wire_def by (rule one_hop_verifies [OF w])
  have "handle_ip arrival (ip_on_wire (one_hop_on ?q)) (ip_to_bytes (one_hop_on ?q)) c
      = ((refreshed arrival (ic_ip config) c)
           \<lparr>ns_app := ns_app c @ [App_datagram (us_local_port receiver) (ic_ip config) (us_local_port sender) payload]\<rparr>, None)"
    by (rule udp_packet_delivered [OF _ _ _ _ v _ _ assms(3,14-16)]) (simp_all add: ip_on_wire_def ip_flag_m_def)
  then have "handle_frame arrival ?frame' c
      = ((refreshed arrival (ic_ip config) c)
           \<lparr>ns_app := ns_app c @ [App_datagram (us_local_port receiver) (ic_ip config) (us_local_port sender) payload]\<rparr>, None)"
    using ip_frame_handled [OF one_hop_writable [OF w], of arrival c mac] assms(14) by (simp add: hears_def)
  with sent fwd written_write [OF e] quiet_write written_write [OF assms(11)] show ?thesis by blast
qed

theorem routed_datagram_delivered_witness:
  "\<exists>frame s' frame' r'. socket_send_to \<lparr>us_local_port = 7, us_receiver = Nobody\<rparr> (IPv4Address 10 0 1 2) 9 [1, 2, 3] lab_client = (s', None)
    \<and> last (ni_written (ns_interfaces s' ! 0)) = frame \<and> handle_frame 0 frame lab_router = (r', None)
    \<and> last (ni_written (ns_interfaces r' ! 1)) = frame'
    \<and> handle_frame 0 frame' lab_server
      = ((refreshed 0 (lab_ip 1) lab_server)\<lparr>ns_app := [App_datagram 9 (lab_ip 1) 7 [1, 2, 3]]\<rparr>, None)"
  using routed_datagram_delivered [OF lab_route(1) refl _ _ lab_route(4-10) _ lab_route(11-13), of "[1, 2, 3]" "\<lparr>us_local_port = 7, us_receiver = Nobody\<rparr>"]
  by (auto simp: lab_route)


definition lab_tiny_mtu :: network_stack where
  "lab_tiny_mtu = configure_interface ((single_segment_config (lab_mac 1) (lab_ip 1))\<lparr>ic_mtu := 24\<rparr>) (lab_host 1 2)"

lemma lab_tiny:
  "route_for (lab_ip 2) lab_tiny_mtu = Some (lab_ip 2, 0)" "0 < length (ns_interfaces lab_tiny_mtu)"
  "resolve_mac 0 (lab_ip 2) lab_tiny_mtu = Inr (lab_mac 2)" "ic_mtu (ni_config (ns_interfaces lab_tiny_mtu ! 0)) = 24"
  by code_simp+


end
