(* ===== verification/Stack_Steps.thy ===== *)
theory Stack_Steps
  imports Stack_Delivery
begin

text \<open>
  A frame rule for the stack. What a handler may do to the stack is a sequence of few kinds of step: write a
  frame, update a table the other parts do not see, refresh an ARP entry, configure the interface, spend a token
  of the ICMP error budget. The locale \<open>stack_relation\<close> has the steps as its assumptions, and shows for a
  relation that holds across each of them that it holds across every call into the stack, frames and timers
  included. Its instances are the stack-wide invariants.
\<close>

section \<open>Frames that report an error\<close>

text \<open>
  The Ethernet frame of an IPv4 packet with a 20-byte header, protocol ICMP and fragment offset zero, whose ICMP type is
  Destination Unreachable or Time Exceeded.
\<close>

definition icmp_error_frame :: "bytes \<Rightarrow> bool" where
  "icmp_error_frame frame \<longleftrightarrow>
     length frame > 34 \<and> frame ! 12 = 8 \<and> frame ! 13 = 0 \<and> frame ! 23 = IP_ICMP
     \<and> (frame ! 20 AND 0x1f) = 0 \<and> frame ! 21 = 0
     \<and> (frame ! 34 = ICMP_DESTINATION_UNREACHABLE \<or> frame ! 34 = ICMP_TIME_EXCEEDED)"

lemma mac_bytes: "\<exists>a b c d e f. mac_get_address m = [a, b, c, d, e, f]"
  by (cases m) simp

lemma ip_bytes: "\<exists>a b c d. ipv4_get_address i = [a, b, c, d]"
  by (cases i) simp


lemma arp_frame_plain [simp]: "\<not> icmp_error_frame (arp_frame src dest a)"
  using mac_bytes [of src] mac_bytes [of dest]
  by (auto simp: icmp_error_frame_def arp_frame_def ethernet_image ethernet_new_def ethertypes)

lemma ip_frame_nth:
  fixes config config' dest protocol idn flags off payload mac
  defines "frame \<equiv> ip_frame config mac (ip_packet config' dest protocol idn flags off payload)"
  shows "length frame = 34 + length payload" "frame ! 23 = protocol"
    "frame ! 20 = ucast (drop_bit 8 (push_bit 8 (ucast (flags AND 0xE0)) OR (off AND 0x1FFF) :: u16))"
    "frame ! 21 = ucast (push_bit 8 (ucast (flags AND 0xE0)) OR (off AND 0x1FFF) :: u16)"
    "payload \<noteq> [] \<Longrightarrow> frame ! 34 = hd payload"
proof -
  obtain a b c d e f where m: "mac_get_address mac = [a, b, c, d, e, f]" using mac_bytes by blast
  obtain a' b' c' d' e' f' where m': "mac_get_address (ic_mac config) = [a', b', c', d', e', f']" using mac_bytes by blast
  obtain i j k l where s: "ipv4_get_address (ic_ip config') = [i, j, k, l]" using ip_bytes by blast
  obtain i' j' k' l' where t: "ipv4_get_address dest = [i', j', k', l']" using ip_bytes by blast
  have "frame = [a, b, c, d, e, f, a', b', c', d', e', f', 8, 0] @ ip_to_bytes (ip_packet config' dest protocol idn flags off payload)"
    by (simp add: frame_def ip_frame_def ethernet_image ethernet_new_def m m' ethertypes)
  note img = this [unfolded ip_to_bytes_eq ip_header_image ip_packet_fields, simplified, unfolded s t, simplified]
  show "length frame = 34 + length payload" "frame ! 23 = protocol"
    "frame ! 20 = ucast (drop_bit 8 (push_bit 8 (ucast (flags AND 0xE0)) OR (off AND 0x1FFF) :: u16))"
    "frame ! 21 = ucast (push_bit 8 (ucast (flags AND 0xE0)) OR (off AND 0x1FFF) :: u16)"
    "payload \<noteq> [] \<Longrightarrow> frame ! 34 = hd payload"
    using img by (simp_all add: hd_conv_nth)
qed

lemma ip_frame_plain:
  assumes "protocol \<noteq> IP_ICMP \<or> payload = [] \<or> hd payload \<notin> {ICMP_DESTINATION_UNREACHABLE, ICMP_TIME_EXCEEDED}"
  shows "\<not> icmp_error_frame (ip_frame config mac (ip_packet config' dest protocol idn flags off payload))"
  using assms unfolding icmp_error_frame_def ip_frame_nth(1,2) by (auto simp: ip_frame_nth(5))

lemma later_fragment_plain:
  assumes "off AND 0x1FFF \<noteq> 0"
  shows "\<not> icmp_error_frame (ip_frame config mac (ip_packet config' dest protocol idn flags off payload))"
proof
  let ?w = "push_bit 8 (ucast (flags AND 0xE0)) OR (off AND 0x1FFF) :: u16"
  assume "icmp_error_frame (ip_frame config mac (ip_packet config' dest protocol idn flags off payload))"
  then have w: "(ucast (drop_bit 8 ?w) :: u8) AND 0x1f = 0" "(ucast ?w :: u8) = 0"
    unfolding icmp_error_frame_def ip_frame_nth by simp_all
  have m: "(0x1f :: u8) = mask 5" by (simp add: mask_eq_exp_minus_1)
  have "off AND 0x1FFF = 0"
  proof (rule bit_word_eqI)
    fix n assume n: "n < LENGTH(16)"
    show "bit (off AND 0x1FFF) n = bit (0 :: u16) n"
    proof (cases "n < 8")
      case True
      with arg_cong [OF w(2), of "\<lambda>v. bit v n"] show ?thesis unfolding x1fff_mask by (simp add: bit_simps)
    next
      case False
      with n arg_cong [OF w(1), of "\<lambda>v. bit v (n - 8)"] show ?thesis unfolding x1fff_mask m by (auto simp: bit_simps)
    qed
  qed
  with assms show False by simp
qed

lemma fragment_offset_kept: "off \<le> 65515 \<Longrightarrow> 8 dvd off \<Longrightarrow> off \<noteq> 0 \<Longrightarrow> (of_nat (off div 8) :: u16) AND 0x1FFF \<noteq> 0"
  by (auto simp: x1fff_mask take_bit_eq_mask [symmetric] word_unat_eq_iff unsigned_take_bit_eq unat_of_nat_u16 take_bit_nat_eq_self
      elim: dvdE)

lemma fragment_offsets:
  assumes "0 < c" "fragment_loop c payload off = Some parts"
  shows "\<forall>part \<in> set parts. off \<le> fst part"
  using assms(2)
proof (induction "length payload - off" arbitrary: off parts rule: less_induct)
  case less
  show ?case
  proof (cases "off < length payload")
    case True
    let ?n = "off + min c (length payload - off)"
    obtain rest where r: "fragment_loop c payload ?n = Some rest" "parts = (off, ?n < length payload, take (min c (length payload - off)) (drop off payload)) # rest"
      using less.prems True by (subst (asm) fragment_loop.simps) (auto simp: Let_def bind_eq_Some_conv)
    have "length payload - ?n < length payload - off" using True assms(1) by linarith
    from less.hyps [OF this r(1)] show ?thesis unfolding r(2) by fastforce
  next
    case False
    then show ?thesis using less.prems by (subst (asm) fragment_loop.simps) simp
  qed
qed

lemma fragment_loop_first:
  assumes "0 < c" "fragment_loop c payload 0 = Some (part # rest)"
  shows "\<forall>part \<in> set rest. fst part \<noteq> 0"
proof (cases "0 < length payload")
  case True
  have r: "fragment_loop c payload (min c (length payload)) = Some rest"
    using assms(2) True by (subst (asm) fragment_loop.simps) (auto simp: Let_def bind_eq_Some_conv)
  have m: "0 < min c (length payload)" using assms(1) True by simp
  show ?thesis
  proof
    fix q assume "q \<in> set rest"
    then have "min c (length payload) \<le> fst q" by (rule bspec [OF fragment_offsets [OF assms(1) r]])
    with m show "fst q \<noteq> 0" by linarith
  qed
next
  case False
  then show ?thesis using assms(2) by (subst (asm) fragment_loop.simps) simp
qed

lemma fragments_plain:
  assumes "fragment_loop (unat (max_ip_payload config)) payload 0 = Some parts" "payload \<noteq> []"
    and "protocol \<noteq> IP_ICMP \<or> length payload \<le> 65515 \<and> (payload = [] \<or> hd payload \<notin> {ICMP_DESTINATION_UNREACHABLE, ICMP_TIME_EXCEEDED})"
  shows "\<forall>part \<in> set parts. \<not> icmp_error_frame (fragment_frame config mac dest protocol idn part)"
proof (cases "protocol = IP_ICMP")
  case True
  let ?c = "unat (max_ip_payload config)"
  have c: "0 < ?c" using assms(1,2) fragment_loop_stuck by (metis neq0_conv option.distinct(1))
  obtain parts' where p: "fragment_loop ?c payload 0 = Some parts'" "\<forall>(o', m, a) \<in> set parts'. 8 dvd o' \<and> o' \<le> 65515 \<and> length a \<le> ?c" "parts' \<noteq> []"
    using fragment_loop_returns [OF c max_payload_aligned, of 0 payload] assms True by auto
  then obtain part rest where parts: "parts = part # rest" using assms(1) by (cases parts) auto
  have first: "part = (0, min ?c (length payload) < length payload, take (min ?c (length payload)) payload)"
    using assms(1,2) unfolding parts by (subst (asm) fragment_loop.simps) (auto simp: Let_def bind_eq_Some_conv)
  have "\<not> icmp_error_frame (fragment_frame config mac dest protocol idn part)"
    unfolding first fragment_frame_def prod.case
    by (rule ip_frame_plain) (use assms True c in \<open>auto simp: hd_take\<close>)
  moreover have "\<not> icmp_error_frame (fragment_frame config mac dest protocol idn part')" if "part' \<in> set rest" for part'
  proof -
    obtain off m a where q: "part' = (off, m, a)" by (cases part')
    have "off \<noteq> 0" using fragment_loop_first [OF c assms(1) [unfolded parts]] that q by auto
    moreover have "8 dvd off" "off \<le> 65515" using p(1,2) assms(1) that q parts by auto
    ultimately show ?thesis unfolding q fragment_frame_def prod.case by (intro later_fragment_plain fragment_offset_kept)
  qed
  ultimately show ?thesis unfolding parts by simp
qed (auto simp: fragment_frame_def intro!: ip_frame_plain)

section \<open>Sizes of what was parsed\<close>

definition echo_sized :: "ip \<Rightarrow> bool" where
  "echo_sized p \<longleftrightarrow>
     (case ip_next_layer p of
        Some (IcmpLayer m) \<Rightarrow> (case icmp_next_layer m of None \<Rightarrow> True | Some raw \<Rightarrow> length raw \<le> 65507)
      | _ \<Rightarrow> True)"

lemma transport_echo_sized:
  assumes "ip_parse_transport payload p = Inr q" "length payload \<le> 65515" "ip_next_layer p = None"
  shows "echo_sized q"
proof -
  have "length raw \<le> 65507" if "icmp_from_bytes payload = Inr m" "icmp_next_layer m = Some raw" for m raw
  proof -
    have "length payload < 2 ^ 64" using assms(2) by simp
    then have "icmp_to_bytes m = payload" using that(1) icmp_parse_iff_print by blast
    then have "length payload = 8 + length raw" using that(2) by (auto simp: icmp_image)
    then show ?thesis using assms(2) by simp
  qed
  then show ?thesis using assms(1,3)
    by (auto simp: ip_parse_transport_def echo_sized_def rbind_eq_Inr split: if_splits option.split)
qed

lemma header_parsed: "ip_parse_header data p = Inr q \<Longrightarrow> 5 \<le> unat (ip_IHL q) \<and> ip_next_layer q = ip_next_layer p"
  by (auto simp: ip_parse_header_def Let_def rbind_eq_Inr not_less word_le_nat_alt split: if_splits)

lemma ip_echo_sized:
  assumes "ip_of_bytes data = Inr p"
  shows "echo_sized p"
proof -
  obtain q payload where q: "ip_parse_header data (ip_new 0 0 0 0 0 0 0 0 0 0 [] []) = Inr q"
      "slice data (unat (ip_IHL q) * 4) (unat (ip_total_length q) - unat (ip_IHL q) * 4) = Inr payload"
      "ip_parse_transport payload q = Inr p"
    using assms by (auto simp: ip_of_bytes_def ip_from_bytes_def rbind_eq_Inr Let_def)
  have "length payload \<le> unat (ip_total_length q) - unat (ip_IHL q) * 4"
    using q(2) by (auto simp: slice_def split: if_splits)
  then have "length payload \<le> 65515"
    using header_parsed [OF q(1)] unat_u16_less [of "ip_total_length q"] by linarith
  then show ?thesis using transport_echo_sized [OF q(3)] header_parsed [OF q(1)] by (simp add: ip_new_def)
qed

lemma ethernet_echo_sized: "ethernet_from_bytes data = Inr e \<Longrightarrow> eth_next_layer e = Some (IpFrame p) \<Longrightarrow> echo_sized p"
  by (auto simp: ethernet_from_bytes_def rbind_eq_Inr intro: ip_echo_sized split: if_splits)

section \<open>The steps\<close>

definition outer :: "network_stack \<Rightarrow> net_interface list \<times> route_table \<times> int \<times> bool" where
  "outer s = (ns_interfaces s, ns_routes s, ns_icmp_tokens s, ns_forwarding s)"

definition iface_outer :: "net_interface \<Rightarrow> iface_config \<times> arp_table \<times> bytes list" where
  "iface_outer i = (ni_config i, ni_arp_table i, ni_written i)"

definition spend :: "network_stack \<Rightarrow> network_stack" where
  "spend s = s\<lparr>ns_icmp_tokens := ns_icmp_tokens s - MS_PER_SECOND\<rparr>"

locale stack_relation =
  fixes R :: "network_stack \<Rightarrow> network_stack \<Rightarrow> bool"
  assumes trans: "R s t \<Longrightarrow> R t u \<Longrightarrow> R s u"
    and internal: "outer t = outer s \<Longrightarrow> R s t"
    and table: "(\<And>i. iface_outer (f i) = iface_outer i) \<Longrightarrow> R s (update_interface index f s)"
    and refresh: "R s (refreshed index ip s)"
    and put: "\<not> icmp_error_frame frame \<or> ns_forwarding s \<Longrightarrow> R s (write_frame index frame s)"
    and report: "MS_PER_SECOND \<le> ns_icmp_tokens s \<Longrightarrow> R s (write_frame index frame (spend s))"
    and decline: "MS_PER_SECOND \<le> ns_icmp_tokens s \<Longrightarrow> R s (spend s)"
    and configure: "R s (configure_interface config s)"
begin

lemma same: "R s s"
  by (rule internal) simp

lemma andThen: "R s (fst m) \<Longrightarrow> (\<And>t. R t (fst (k t))) \<Longrightarrow> R s (fst (and_then m k))"
  by (auto simp: and_then_def intro: trans split: prod.split option.split)

lemma withInterface: "(\<And>i. index < length (ns_interfaces s) \<Longrightarrow> i = ns_interfaces s ! index \<Longrightarrow> R s (fst (k i))) \<Longrightarrow> R s (fst (with_interface index s k))"
  by (simp add: with_interface_def same)

lemma withValue: "(\<And>x. m = Inr x \<Longrightarrow> R s (fst (k x))) \<Longrightarrow> R s (fst (with_value m s k))"
  by (simp add: with_value_def same split: sum.split)

lemma catchingBase: "R s (fst m) \<Longrightarrow> R s (fst (catching_base m))"
  by (auto simp: catching_base_def split: prod.split option.split stack_error.split cpp_error.split)

lemma catchingStd: "R s (fst m) \<Longrightarrow> R s (fst (catching_std m))"
  by (auto simp: catching_std_def split: prod.split option.split stack_error.split cpp_error.split)

lemma fields:
  "R s (s\<lparr>ns_next_ip_id := x1\<rparr>)" "R s (s\<lparr>ns_reassembler := x2\<rparr>)" "R s (s\<lparr>ns_app := x3\<rparr>)"
  "R s (s\<lparr>ns_connections := x4\<rparr>)" "R s (s\<lparr>ns_by_id := x5\<rparr>)" "R s (s\<lparr>ns_pending_reap := x6\<rparr>)"
  "R s (s\<lparr>ns_pending_accepts := x7\<rparr>)" "R s (s\<lparr>ns_udp_sockets := x8\<rparr>)" "R s (s\<lparr>ns_dhcp := x9\<rparr>)"
  "R s (s\<lparr>ns_dns := x10\<rparr>)" "R s (s\<lparr>ns_next_ephemeral_port := x11\<rparr>)" "R s (s\<lparr>ns_next_connection_id := x12\<rparr>)"
  "R s (s\<lparr>ns_throws := x13\<rparr>)" "R s (s\<lparr>ns_dns := x10, ns_throws := x13\<rparr>)"
  by (rule internal; simp add: outer_def)+

lemmas steps = same andThen withInterface withValue catchingBase catchingStd

lemma after: "R s t \<Longrightarrow> R t (fst (k t)) \<Longrightarrow> R s (fst (k t))"
  by (rule trans)

lemma writes:
  assumes "\<forall>x \<in> set xs. \<not> icmp_error_frame (f x)"
  shows "R s (foldl (\<lambda>s x. write_frame index (f x) s) s xs)"
  using assms by (induction xs arbitrary: s) (auto intro: same trans [OF put])

lemma send_arp_request_step: "R s (fst (send_arp_request index ip s))"
  unfolding send_arp_request_def by (auto intro!: steps put)

lemma ensure_arp_resolution_step: "R s (fst (ensure_arp_resolution index ip s))"
  unfolding ensure_arp_resolution_def
  by (auto intro!: steps send_arp_request_step table simp: iface_outer_def)

lemma send_ip_packet_step:
  assumes "protocol \<noteq> IP_ICMP \<or> length payload \<le> 65515 \<and> (payload = [] \<or> hd payload \<notin> {ICMP_DESTINATION_UNREACHABLE, ICMP_TIME_EXCEEDED})"
  shows "R s (fst (send_ip_packet dest protocol payload df s))"
proof -
  have frags: "R s (foldl (\<lambda>s part. write_frame egress (fragment_frame config mac dest protocol idn part) s)
      (s\<lparr>ns_next_ip_id := x\<rparr>) parts)"
    if "fragment_loop (unat (max_ip_payload config)) payload 0 = Some parts" "\<not> length payload \<le> unat (max_ip_payload config)" for egress config mac x parts idn
  proof (rule trans [OF internal writes])
    have "payload \<noteq> []" using that(2) by auto
    from fragments_plain [OF that(1) this assms]
    show "\<forall>part \<in> set parts. \<not> icmp_error_frame (fragment_frame config mac dest protocol idn part)" .
  qed (simp add: outer_def)
  have one: "R s (write_frame egress (ip_frame config mac (ip_packet config dest protocol 0 flags 0 payload)) s)" for egress config mac flags
    using assms by (auto intro!: put ip_frame_plain)
  show ?thesis
    unfolding send_ip_packet_def Let_def
    by (auto intro!: withInterface withValue one frags same fields split: option.split)
qed

lemma send_tcp_segment_step: "R s (fst (send_tcp_segment dest header payload s))"
  unfolding send_tcp_segment_def by (intro withValue send_ip_packet_step) (simp add: ip_constants)

lemma send_rst_step: "R s (fst (send_rst p segment s))"
  unfolding send_rst_def by (intro withValue send_tcp_segment_step)

lemma send_udp_datagram_step: "R s (fst (send_udp_datagram dest header payload s))"
  unfolding send_udp_datagram_def by (intro withValue send_ip_packet_step) (simp add: ip_constants)

lemma send_or_queue_udp_step: "R s (fst (send_or_queue_udp dest header payload s))"
  unfolding send_or_queue_udp_def
  by (auto intro!: withInterface send_udp_datagram_step same trans [OF table ensure_arp_resolution_step]
      simp: push_datagram_def iface_outer_def split: option.split)

lemma socket_send_to_step: "R s (fst (socket_send_to socket dest port payload s))"
  unfolding socket_send_to_def by (rule send_or_queue_udp_step)

lemma flush_datagrams_step: "R s (fst (flush_datagrams ds s))"
  by (induction ds arbitrary: s) (auto intro!: same andThen send_udp_datagram_step)

lemma flush_pending_step: "R s (fst (flush_pending_outbound_datagrams ip s))"
  unfolding flush_pending_outbound_datagrams_def
  by (auto intro!: same andThen flush_datagrams_step table simp: iface_outer_def split: option.split)

lemma send_icmp_message_step:
  assumes "type \<notin> {ICMP_DESTINATION_UNREACHABLE, ICMP_TIME_EXCEEDED}" "length payload \<le> 65507"
  shows "R s (fst (send_icmp_message dest type code rest payload s))"
proof -
  have "hd (icmp_to_bytes (icmp_compute_checksum (icmp_new type code 0 rest payload))) = type"
    "length (icmp_to_bytes (icmp_compute_checksum (icmp_new type code 0 rest payload))) \<le> 65515"
    using assms(2) by (simp_all add: icmp_image icmp_compute_checksum_def icmp_new_def)
  with assms(1) show ?thesis unfolding send_icmp_message_def
    by (auto intro!: withInterface same ensure_arp_resolution_step send_ip_packet_step split: option.split)
qed

lemma send_echo_request_step: "length payload \<le> 65507 \<Longrightarrow> R s (fst (send_echo_request dest identifier sequence payload s))"
  unfolding send_echo_request_def
  by (rule send_icmp_message_step) (simp_all add: ICMP_ECHO_REQUEST_def ICMP_DESTINATION_UNREACHABLE_def ICMP_TIME_EXCEEDED_def)

lemma error_fragments_step:
  assumes "MS_PER_SECOND \<le> ns_icmp_tokens s" "length payload \<le> 65515" "payload \<noteq> []"
    and "fragment_loop (unat (max_ip_payload config)) payload 0 = Some parts"
  shows "R s (foldl (\<lambda>s part. write_frame egress (fragment_frame config mac dest protocol idn part) s) ((spend s)\<lparr>ns_next_ip_id := x\<rparr>) parts)"
proof -
  let ?c = "unat (max_ip_payload config)"
  have c: "0 < ?c" using assms(3,4) fragment_loop_stuck by (metis neq0_conv option.distinct(1))
  obtain parts' where p: "fragment_loop ?c payload 0 = Some parts'" "\<forall>(o', m, a) \<in> set parts'. 8 dvd o' \<and> o' \<le> 65515 \<and> length a \<le> ?c" "parts' \<noteq> []"
    using fragment_loop_returns [OF c max_payload_aligned, of 0 payload] assms(2,3) by auto
  then obtain part rest where parts: "parts = part # rest" using assms(4) by (cases parts) auto
  have plain: "\<forall>q \<in> set rest. \<not> icmp_error_frame (fragment_frame config mac dest protocol idn q)"
  proof
    fix q assume q: "q \<in> set rest"
    obtain off m a where e: "q = (off, m, a)" by (cases q)
    have "off \<noteq> 0" using fragment_loop_first [OF c assms(4) [unfolded parts]] q e by auto
    moreover have "8 dvd off" "off \<le> 65515" using p(1,2) assms(4) q e parts by auto
    ultimately show "\<not> icmp_error_frame (fragment_frame config mac dest protocol idn q)"
      unfolding e fragment_frame_def prod.case by (intro later_fragment_plain fragment_offset_kept)
  qed
  have "write_frame egress frame ((spend s)\<lparr>ns_next_ip_id := x\<rparr>) = (write_frame egress frame (spend s))\<lparr>ns_next_ip_id := x\<rparr>" for frame
    by (simp add: write_frame_def update_interface_def)
  then show ?thesis unfolding parts foldl_Cons
    by (metis (no_types, lifting) trans [OF trans [OF report [OF assms(1)] fields(1)] writes [OF plain]])
qed

lemma error_message_step:
  assumes "MS_PER_SECOND \<le> ns_icmp_tokens s" "length payload \<le> 65507"
  shows "R s (fst (send_icmp_message dest type code rest payload (spend s)))"
proof -
  let ?bytes = "icmp_to_bytes (icmp_compute_checksum (icmp_new type code 0 rest payload))"
  have b: "?bytes \<noteq> []" "length ?bytes \<le> 65515"
    using assms(2) by (simp_all add: icmp_image icmp_compute_checksum_def icmp_new_def)
  have s: "R s (fst (send_ip_packet dest IP_ICMP ?bytes False (spend s)))"
    unfolding send_ip_packet_def Let_def with_interface_def with_value_def
    by (auto intro!: decline [OF assms(1)] report [OF assms(1)] error_fragments_step [OF assms(1) b(2,1)] trans [OF decline [OF assms(1)] fields(1)]
        split: option.split sum.split)
  then show ?thesis unfolding send_icmp_message_def with_interface_def
    by (auto intro!: decline [OF assms(1)] trans [OF decline [OF assms(1)] ensure_arp_resolution_step] split: option.split)
qed

lemma send_icmp_error_step: "R s (fst (send_icmp_error type code p s))"
proof (cases "ns_icmp_tokens s < MS_PER_SECOND")
  case False
  then have t: "MS_PER_SECOND \<le> ns_icmp_tokens s" by simp
  have "length (take ICMP_QUOTED_BYTES (ip_to_bytes p)) \<le> 65507" by (simp add: ICMP_QUOTED_BYTES_def)
  then show ?thesis using t False
    by (auto simp: send_icmp_error_def may_send_icmp_error_def with_value_def spend_def [symmetric]
        intro!: decline [OF t] error_message_step [OF t] split: sum.split)
qed (simp add: send_icmp_error_def may_send_icmp_error_def same)

lemma send_reassembly_exceeded_step: "R s (fst (send_icmp_fragment_reassembly_time_exceeded dest s))"
  by (auto simp: send_icmp_fragment_reassembly_time_exceeded_def may_send_icmp_error_def spend_def [symmetric]
      intro!: same error_message_step)

lemma run_events_step: "R s (fst (run_events key conn_id events s))"
proof (induction key conn_id events s rule: run_events.induct)
  case (3 key conn_id new_state events s)
  have "R s (if new_state = CLOSED then s\<lparr>ns_pending_reap := ns_pending_reap s @ [conn_id]\<rparr> else s)" by (simp add: same fields)
  from trans [OF this 3] show ?case by simp
qed (auto intro!: same andThen send_tcp_segment_step)

lemma store_connection_step: "R s (store_connection key c s)"
  unfolding store_connection_def by (rule fields)

lemma insert_connection_step: "R s (insert_connection key c s)"
  unfolding insert_connection_def by (rule trans [OF fields(5) store_connection_step])

lemma make_connection_step: "R s (snd (make_connection key s))"
  unfolding make_connection_def by (simp add: fields)

lemma on_connection_step: "R s (fst (on_connection key f s))"
proof (cases "map_of (ns_connections s) key")
  case (Some c)
  let ?m = "run_events key (c_id c) (c_events (f c)) (store_connection key (f c) s)"
  have "R s (fst ?m)" by (rule trans [OF store_connection_step run_events_step])
  then show ?thesis using Some
    by (cases ?m) (auto simp: on_connection_def intro: trans [OF _ trans [OF store_connection_step fields(13)]] split: option.split)
qed (simp add: on_connection_def same)

lemma stack_connect_step: "R s (fst (snd (stack_connect ip port s)))"
proof -
  have "R s (snd (allocate_ephemeral_port s))" by (simp add: allocate_ephemeral_port_def Let_def fields)
  then have "R s (insert_connection key c (snd (make_connection key (snd (allocate_ephemeral_port s)))))" for key c
    by (rule trans [OF trans [OF _ make_connection_step] insert_connection_step])
  then have r: "make_connection key (snd (allocate_ephemeral_port s)) = (c, t) \<Longrightarrow> R s (insert_connection key c t)" for key c t
    by (metis snd_conv)
  show ?thesis unfolding stack_connect_def Let_def
    by (auto intro!: trans [OF r on_connection_step] trans [OF trans [OF r table] ensure_arp_resolution_step]
        intro: r simp: with_interface_def push_connect_def iface_outer_def split: prod.split option.split)
qed

lemma connection_calls_step:
  "R s (fst (connection_send key data s))" "R s (fst (connection_read key n s))" "R s (fst (connection_close key s))"
  by (auto simp: connection_send_def connection_read_def connection_close_def intro!: same on_connection_step split: option.split)

lemma start_connects_step: "R s (fst (start_connects keys s))"
  by (induction keys arbitrary: s) (auto intro!: same andThen on_connection_step)

lemma fail_connects_step: "R s (fst (fail_connects keys s))"
  by (induction keys arbitrary: s) (auto intro!: same andThen on_connection_step)

lemma fail_pending_step: "R s (fst (fail_pending_outbound_connects index ip s))"
  unfolding fail_pending_outbound_connects_def
  by (auto intro!: withInterface same andThen fail_connects_step table simp: iface_outer_def split: option.split)

lemma ensure_dns_resolver_step: "R s (ensure_dns_resolver s)"
  by (simp add: ensure_dns_resolver_def same fields split: option.split)

lemma socket_table_step: "R s (bind_udp port s)" "R s (set_receiver port r s)" "R s (snd (unbind_udp port s))"
  by (simp_all add: bind_udp_def set_receiver_def unbind_udp_def same fields split: option.split)

lemma dns_transmit_step: "R s (fst (dns_transmit server port payload s))"
proof -
  have "R s (set_receiver port r (bind_udp port s))" for r by (rule trans [OF socket_table_step(1,2)])
  then show ?thesis unfolding dns_transmit_def Let_def
    by (auto intro!: catchingBase intro: trans [OF _ socket_send_to_step] split: option.split)
qed

lemma run_dns_actions_step: "R s (fst (run_dns_actions actions s))"
proof (induction actions s rule: run_dns_actions.induct)
  case (3 port actions s)
  from trans [OF socket_table_step(3) this] show ?case by simp
next
  case (4 callback name addresses actions s)
  from trans [OF fields(3) this] show ?case by simp
qed (auto intro!: same andThen dns_transmit_step)

lemma with_resolver_step: "R s (fst (with_resolver f s))"
proof (cases "ns_dns s")
  case (Some r)
  let ?m = "run_dns_actions (rs_actions (fst (f r))) (s\<lparr>ns_dns := Some ((fst (f r))\<lparr>rs_actions := []\<rparr>)\<rparr>)"
  have "R s (fst ?m)" by (rule trans [OF fields(10) run_dns_actions_step])
  then show ?thesis using Some
    by (cases ?m; cases "f r") (auto simp: with_resolver_def intro: trans [OF _ fields(14)] split: option.split)
qed (simp add: with_resolver_def same)

lemma set_dns_servers_step: "R s (set_dns_servers servers s)"
  unfolding set_dns_servers_def Let_def by (rule trans [OF ensure_dns_resolver_step fields(10)])

lemma stack_resolve_step: "R s (fst (stack_resolve name callback s))"
  unfolding stack_resolve_def by (rule trans [OF ensure_dns_resolver_step with_resolver_step])

lemma lease_step: "R s (lease_acquired l s)" "R s (lease_lost s)"
  by (auto simp: lease_acquired_def lease_lost_def Let_def intro!: configure trans [OF configure set_dns_servers_step])

lemma run_dhcp_actions_step: "R s (fst (run_dhcp_actions actions s))"
proof (induction actions s rule: run_dhcp_actions.induct)
  case (3 l actions s)
  from trans [OF lease_step(1) this] show ?case by simp
next
  case (4 actions s)
  from trans [OF lease_step(2) this] show ?case by simp
qed (auto intro!: same andThen socket_send_to_step split: option.split)

lemma with_dhcp_step: "R s (fst (with_dhcp f s))"
  unfolding with_dhcp_def
  by (auto intro!: same andThen trans [OF fields(9) run_dhcp_actions_step] split: option.split prod.split)

lemma start_dhcp_step: "R s (fst (start_dhcp s))"
proof -
  have "R s (set_receiver port r ((bind_udp port s)\<lparr>ns_dhcp := c\<rparr>))" for port r c
    by (rule trans [OF trans [OF socket_table_step(1) fields(9)] socket_table_step(2)])
  then show ?thesis unfolding start_dhcp_def Let_def
    by (auto intro: same trans [OF _ with_dhcp_step] split: option.split)
qed

lemma open_incoming_step: "R s (fst (open_incoming key segment s))"
proof -
  let ?c = "open_connection segment (fst (make_connection key s))"
  let ?m = "run_events key (c_id ?c) (c_events ?c) (snd (make_connection key s))"
  have "R s (fst ?m)" by (rule trans [OF make_connection_step run_events_step])
  then show ?thesis
    by (cases "make_connection key s"; cases ?m)
      (auto simp: open_incoming_def intro: catchingStd trans [OF _ insert_connection_step] split: option.split)
qed

lemma push_accept_step: "R s (push_accept key s)"
  unfolding push_accept_def by (rule fields)

lemma handle_tcp_step: "R s (fst (handle_tcp p segment s))"
  unfolding handle_tcp_def Let_def
  by (auto intro!: withValue andThen same on_connection_step push_accept_step send_rst_step open_incoming_step
      split: option.split)

lemma socket_on_datagram_step: "R s (fst (socket_on_datagram socket ip datagram s))"
  unfolding socket_on_datagram_def Let_def
  by (auto intro!: same fields with_dhcp_step with_resolver_step split: udp_receiver.split)

lemma handle_udp_step: "R s (fst (handle_udp p datagram s))"
  unfolding handle_udp_def
  by (auto intro!: withValue same socket_on_datagram_step send_icmp_error_step simp: send_icmp_port_unreachable_def split: option.split)

lemma handle_icmp_error_step: "R s (fst (handle_icmp_error m s))"
  unfolding handle_icmp_error_def handle_icmp_fragmentation_needed_def Let_def
  by (auto intro!: withValue same on_connection_step split: option.split)

lemma handle_icmp_step:
  assumes "case icmp_next_layer m of None \<Rightarrow> True | Some raw \<Rightarrow> length raw \<le> 65507"
  shows "R s (fst (handle_icmp p m s))"
proof -
  have "ICMP_ECHO_REPLY \<notin> {ICMP_DESTINATION_UNREACHABLE, ICMP_TIME_EXCEEDED}"
    by (simp add: ICMP_ECHO_REPLY_def ICMP_DESTINATION_UNREACHABLE_def ICMP_TIME_EXCEEDED_def)
  moreover have "length (case icmp_next_layer m of None \<Rightarrow> [] | Some raw \<Rightarrow> raw) \<le> 65507"
    using assms by (simp split: option.splits)
  ultimately show ?thesis
    unfolding handle_icmp_def Let_def
    by (auto intro!: withValue same fields send_icmp_message_step handle_icmp_error_step)
qed

lemma dispatch_transport_step: "echo_sized p \<Longrightarrow> R s (fst (dispatch_transport p s))"
  unfolding dispatch_transport_def
  by (auto simp: echo_sized_def intro!: same handle_tcp_step handle_udp_step handle_icmp_step split: option.split ip_layer.splits)

lemma handle_ip_fragment_step: "R s (fst (handle_ip_fragment p s))"
proof -
  have "R s (fst (catching_base (with_value (thrown (ip_of_bytes bs)) (s\<lparr>ns_reassembler := ra\<rparr>)
      (\<lambda>complete. dispatch_transport complete (s\<lparr>ns_reassembler := ra\<rparr>)))))" for bs ra
    by (rule trans [OF fields(2)])
      (auto intro!: catchingBase withValue dispatch_transport_step ip_echo_sized simp: thrown_def split: sum.splits)
  then show ?thesis
    unfolding handle_ip_fragment_def Let_def
    by (auto intro!: withValue same fields split: option.split ip_layer.split reasm_result.split prod.split)
qed

lemma forward_ip_step: "ns_forwarding s \<Longrightarrow> R s (fst (forward_ip ingress p bs s))"
  unfolding forward_ip_def
  by (auto intro!: withValue withInterface same put send_icmp_error_step ensure_arp_resolution_step
      simp: send_icmp_time_exceeded_def send_icmp_net_unreachable_def split: option.split)

lemma handle_ip_step: "echo_sized p \<Longrightarrow> R s (fst (handle_ip ingress p bs s))"
  unfolding handle_ip_def Let_def refreshed_def [symmetric]
  by (auto intro!: withValue withInterface same forward_ip_step refresh trans [OF refresh handle_ip_fragment_step]
      trans [OF refresh dispatch_transport_step])

end

text \<open>With the step that learns an address, the relation holds across received frames and polling.\<close>

definition learn_sender :: "nat \<Rightarrow> ipv4 \<Rightarrow> mac \<Rightarrow> network_stack \<Rightarrow> network_stack" where
  "learn_sender ingress ip mac s =
     update_interface ingress (\<lambda>i. i\<lparr>ni_arp_table := snd (arp_learn ip mac (ni_arp_table i)),
       ni_arp_requests := AList.delete ip (ni_arp_requests i)\<rparr>) s"

lemma and_then_assoc: "and_then (and_then m f) g = and_then m (\<lambda>s. and_then (f s) g)"
  by (auto simp: and_then_def split: prod.split option.split)

context stack_relation
begin

lemma handle_arp_rest: "R (learn_sender ingress (arp_sender_protocol_address a) (arp_sender_hardware_address a) s) (fst (handle_arp ingress a s))
    \<or> handle_arp ingress a s = (s, None) \<or> handle_arp ingress a s = (s, Some Std_out_of_range)"
  unfolding handle_arp_def Let_def with_interface_def learn_sender_def [symmetric]
  by (auto intro!: andThen same start_connects_step table flush_pending_step put simp: iface_outer_def split: option.split)

lemma reap_loop_step: "R s (reap_loop ids s)"
proof (induction ids s rule: reap_loop.induct)
  case (2 conn_id rest s)
  show ?case
  proof (cases "map_of (ns_by_id s) conn_id")
    case (Some key)
    have "R s (s\<lparr>ns_connections := AList.delete key (ns_connections s), ns_by_id := AList.delete conn_id (ns_by_id s)\<rparr>)"
      by (rule internal) (simp add: outer_def)
    from trans [OF this 2(2) [OF Some]] Some show ?thesis by simp
  qed (use 2(1) in simp)
qed (simp add: same)

lemma reap_step: "R s (reap_closed_connections s)"
  unfolding reap_closed_connections_def by (rule trans [OF reap_loop_step fields(6)])

lemma read_frame_step: "R s (snd (read_frame index s))"
  by (auto simp: read_frame_def Let_def iface_outer_def intro!: same table split: list.split)

lemma tick_connections_step: "R s (fst (tick_connections elapsed keys s))"
  by (induction keys arbitrary: s) (auto intro!: same andThen catchingStd on_connection_step)

lemma report_expired_step: "R s (fst (report_expired sources s))"
  by (induction sources arbitrary: s) (auto intro!: same andThen send_reassembly_exceeded_step)

lemma set_arp_request_step: "R s (set_arp_request index ip r s)"
  unfolding set_arp_request_def by (rule table) (simp add: iface_outer_def)

lemma give_up_resolution_step: "R s (fst (give_up_resolution index ip s))"
  unfolding give_up_resolution_def
  by (auto intro!: andThen table trans [OF table fail_pending_step] simp: iface_outer_def)

lemma retry_requests_step: "R s (fst (retry_requests elapsed index requests s))"
proof (induction requests arbitrary: s)
  case (Cons request requests)
  obtain ip r where request: "request = (ip, r)" by (cases request)
  show ?case
    unfolding request retry_requests.simps Let_def
    by (rule andThen [OF _ Cons.IH])
      (auto intro!: andThen set_arp_request_step give_up_resolution_step send_arp_request_step)
qed (simp add: same)

lemma retry_interfaces_step: "R s (fst (retry_interfaces elapsed indices s))"
  by (induction elapsed indices s rule: retry_interfaces.induct) (auto intro!: same andThen retry_requests_step)

lemma on_time_passed_steps:
  "R s (fst (stack_on_time_passed elapsed s))
   \<or> (\<exists>t. R s t \<and> R (snd (age_tables elapsed t)) (fst (stack_on_time_passed elapsed s)))"
proof -
  let ?services = "\<lambda>s. and_then (tick_connections elapsed (map fst (ns_connections s)) s) (\<lambda>s.
     and_then (with_dhcp (dhcp_on_time_passed elapsed) (reap_closed_connections s)) (with_resolver (dns_on_time_passed elapsed)))"
  let ?tables = "\<lambda>s. and_then (report_expired (fst (age_tables elapsed s)) (snd (age_tables elapsed s))) (\<lambda>s.
     retry_interfaces elapsed [0..<length (ns_interfaces s)] s)"
  have "stack_on_time_passed elapsed s = and_then (?services s) ?tables"
    unfolding stack_on_time_passed_def by (simp add: and_then_assoc case_prod_unfold Let_def)
  moreover have "R s (fst (?services s))"
    by (auto intro!: andThen tick_connections_step trans [OF reap_step with_dhcp_step] with_resolver_step)
  moreover have "R (snd (age_tables elapsed t)) (fst (?tables t))" for t
    by (auto intro!: andThen report_expired_step retry_interfaces_step)
  ultimately show ?thesis by (cases "?services s") (auto simp: and_then_def split: option.splits)
qed

end

locale stack_invariant = stack_relation +
  assumes learn: "R s (learn_sender index ip mac s)"
begin

lemma handle_arp_step: "R s (fst (handle_arp ingress a s))"
  using handle_arp_rest [of ingress a s] by (auto intro: same trans [OF learn])

lemma handle_frame_step: "R s (fst (handle_frame ingress frame s))"
  unfolding handle_frame_def
  by (auto intro!: catchingBase withValue withInterface same handle_arp_step handle_ip_step intro: ethernet_echo_sized
      simp: thrown_def split: option.split ethernet_layer.split sum.splits)

lemma poll_pass_step: "R s (fst (snd (snd (poll_pass indices drained processed s))))"
proof (induction indices drained processed s rule: poll_pass.induct)
  case (2 ingress rest drained processed s)
  obtain frame t where t: "read_frame ingress s = (frame, t)" by (cases "read_frame ingress s")
  then have r: "R s t" using read_frame_step [of s ingress] by simp
  obtain u e where u: "handle_frame ingress frame t = (u, e)" by (cases "handle_frame ingress frame t")
  then have h: "R s u" using trans [OF r] handle_frame_step [of t ingress frame] by simp
  show ?case
    using 2 t u r h
    by (auto simp: Let_def intro: same trans [OF r] trans [OF h] split: option.split)
qed (simp add: same)

lemma poll_loop_step: "R s (fst (snd (poll_loop drained processed s)))"
proof (induction drained processed s rule: poll_loop.induct)
  case (1 drained processed s)
  obtain d n t e where p: "poll_pass [0..<length drained] drained processed s = (d, n, t, e)" by (metis prod_cases4)
  then have "R s t" using poll_pass_step [of s "[0..<length drained]" drained processed] by simp
  then show ?case
    using 1 p by (subst poll_loop.simps) (auto intro: same trans split: option.split)
qed

lemma stack_poll_step: "R s (fst (snd (stack_poll s)))"
  using poll_loop_step [of s "replicate (length (ns_interfaces s)) False" 0]
  by (auto simp: stack_poll_def intro: trans [OF _ reap_step] split: prod.split option.split)

end

end
