(* ===== verification/Stack_Invariants.thy ===== *)
theory Stack_Invariants
  imports Stack_Steps
begin

text \<open>
  The calls into the stack as one datatype, runs of them, and the invariants that hold over every run: the ICMP
  error budget, and what the ARP cache can be made to learn.
\<close>

section \<open>Runs\<close>

datatype stack_call =
    Receive nat bytes
  | Poll
  | Tick u32
  | Connect ipv4 u16
  | Send connection_key bytes
  | Read connection_key nat
  | Close connection_key
  | Send_to udp_socket ipv4 u16 bytes
  | Ping ipv4 u16 u16 bytes
  | Lookup string nat
  | Use_servers "ipv4 list"
  | Start_dhcp
  | Bind u16
  | Unbind u16
  | Set_callback u16 udp_receiver
  | Listen u16 nat
  | Accept u16
  | Configure iface_config
  | Add_interface iface_config
  | Add_route ipv4 u8 ipv4 nat
  | Static_arp ipv4 mac
  | On_echo_reply bool

definition stack_call :: "stack_call \<Rightarrow> network_stack \<Rightarrow> network_stack" where
  "stack_call call s =
     (case call of
        Receive index frame \<Rightarrow> fst (handle_frame index frame s)
      | Poll \<Rightarrow> fst (snd (stack_poll s))
      | Tick elapsed_ms \<Rightarrow> fst (stack_on_time_passed elapsed_ms s)
      | Connect ip port \<Rightarrow> fst (snd (stack_connect ip port s))
      | Send key data \<Rightarrow> fst (connection_send key data s)
      | Read key n \<Rightarrow> fst (connection_read key n s)
      | Close key \<Rightarrow> fst (connection_close key s)
      | Send_to socket ip port data \<Rightarrow> fst (socket_send_to socket ip port data s)
      | Ping ip identifier sequence payload \<Rightarrow> fst (send_echo_request ip identifier sequence payload s)
      | Lookup name callback \<Rightarrow> fst (stack_resolve name callback s)
      | Use_servers servers \<Rightarrow> set_dns_servers servers s
      | Start_dhcp \<Rightarrow> fst (start_dhcp s)
      | Bind port \<Rightarrow> bind_udp port s
      | Unbind port \<Rightarrow> snd (unbind_udp port s)
      | Set_callback port r \<Rightarrow> set_receiver port r s
      | Listen port backlog \<Rightarrow> stack_listen port backlog s
      | Accept port \<Rightarrow> snd (stack_accept port s)
      | Configure config \<Rightarrow> configure_interface config s
      | Add_interface config \<Rightarrow> snd (add_interface config s)
      | Add_route destination prefix_length next_hop index \<Rightarrow> add_route destination prefix_length next_hop index s
      | Static_arp ip mac \<Rightarrow> add_static_arp_entry ip mac s
      | On_echo_reply callback \<Rightarrow> set_echo_reply_callback callback s)"

definition stack_run :: "stack_call list \<Rightarrow> network_stack \<Rightarrow> network_stack" where
  "stack_run calls s = foldl (\<lambda>s call. stack_call call s) s calls"

text \<open>The calls whose arguments are in range: pings of a size IP can carry, clock ticks below \<open>2 ^ 29\<close> ms.\<close>

definition call_ok :: "stack_call \<Rightarrow> bool" where
  "call_ok call = (case call of Ping ip identifier sequence payload \<Rightarrow> length payload \<le> 65507
     | Tick elapsed_ms \<Rightarrow> unat elapsed_ms < 2 ^ 29 | _ \<Rightarrow> True)"

text \<open>The calls that only configure: they write no frame and run no callback.\<close>

definition sets_up :: "stack_call \<Rightarrow> bool" where
  "sets_up call = (case call of Listen port backlog \<Rightarrow> True | Accept port \<Rightarrow> True | Configure config \<Rightarrow> True
     | Add_interface config \<Rightarrow> True | Add_route destination prefix_length next_hop index \<Rightarrow> True | Static_arp ip mac \<Rightarrow> True
     | On_echo_reply callback \<Rightarrow> True | _ \<Rightarrow> False)"

definition call_ms :: "stack_call \<Rightarrow> int" where
  "call_ms call = (case call of Tick elapsed_ms \<Rightarrow> int (unat elapsed_ms) | _ \<Rightarrow> 0)"

context stack_invariant
begin

lemma call_step: "call_ok call \<Longrightarrow> (\<And>e. call \<noteq> Tick e) \<Longrightarrow> \<not> sets_up call \<Longrightarrow> R s (stack_call call s)"
  by (cases call)
    (auto simp: stack_call_def call_ok_def sets_up_def intro: handle_frame_step stack_poll_step stack_connect_step connection_calls_step
      socket_send_to_step send_echo_request_step stack_resolve_step set_dns_servers_step start_dhcp_step socket_table_step)

end

section \<open>The ICMP error budget\<close>

definition errors_written :: "network_stack \<Rightarrow> nat" where
  "errors_written s = sum_list (map (\<lambda>i. length (filter icmp_error_frame (ni_written i))) (ns_interfaces s))"

definition within_budget :: "network_stack \<Rightarrow> network_stack \<Rightarrow> bool" where
  "within_budget s t \<longleftrightarrow>
     (\<not> ns_forwarding s \<longrightarrow> \<not> ns_forwarding t
        \<and> MS_PER_SECOND * int (errors_written t) + ns_icmp_tokens t \<le> MS_PER_SECOND * int (errors_written s) + ns_icmp_tokens s
        \<and> (0 \<le> ns_icmp_tokens s \<longrightarrow> 0 \<le> ns_icmp_tokens t))"

lemma errors_written_same:
  assumes "\<And>i. ni_written (f i) = ni_written i"
  shows "errors_written (update_interface index f s) = errors_written s"
  unfolding errors_written_def update_interface_def
  using map_update_same [of "\<lambda>i. length (filter icmp_error_frame (ni_written i))" f "ns_interfaces s" index] assms by simp

lemma errors_written_put:
  "errors_written (write_frame index frame s) \<le> errors_written s + (if icmp_error_frame frame then 1 else 0)"
proof (cases "index < length (ns_interfaces s)")
  case True
  let ?n = "\<lambda>i. length (filter icmp_error_frame (ni_written i))"
  let ?xs = "ns_interfaces s"
  have "sum_list (map ?n (?xs[index := y])) + ?n (?xs ! index) = sum_list (map ?n ?xs) + ?n y" for y
  proof -
    have "sum_list ((map ?n ?xs)[index := v]) + map ?n ?xs ! index = sum_list (map ?n ?xs) + v" for v
      using True elem_le_sum_list [of index "map ?n ?xs"] by (simp add: sum_list_update)
    from this [of "?n y"] show ?thesis using True by (simp add: map_update)
  qed
  from this [of "(?xs ! index)\<lparr>ni_written := ni_written (?xs ! index) @ [frame]\<rparr>"]
  show ?thesis by (auto simp: errors_written_def write_frame_def update_interface_def)
qed (simp add: errors_written_def write_frame_def update_interface_def list_update_beyond)

lemma within_budget_update: "(\<And>i. ni_written (f i) = ni_written i) \<Longrightarrow> within_budget s (update_interface index f s)"
  using errors_written_same [of f index s] by (simp add: within_budget_def) (simp add: update_interface_def)

interpretation budget: stack_invariant within_budget
proof
  show "within_budget s t \<Longrightarrow> within_budget t u \<Longrightarrow> within_budget s u" for s t u by (auto simp: within_budget_def)
  show "outer t = outer s \<Longrightarrow> within_budget s t" for s t by (auto simp: within_budget_def outer_def errors_written_def)
  show "within_budget s (update_interface index f s)" if "\<And>i. iface_outer (f i) = iface_outer i" for f index s
    using that by (intro within_budget_update) (simp add: iface_outer_def)
  show "within_budget s (refreshed index ip s)" for index ip s
    unfolding refreshed_def by (rule within_budget_update) simp
  show "within_budget s (write_frame index frame s)" if "\<not> icmp_error_frame frame \<or> ns_forwarding s" for frame s index
    using errors_written_put [of index frame s] that by (auto simp: within_budget_def write_frame_def update_interface_def MS_PER_SECOND_def)
  show "within_budget s (write_frame index frame (spend s))" if "MS_PER_SECOND \<le> ns_icmp_tokens s" for frame s index
    using errors_written_put [of index frame "spend s"] that
    by (auto simp: within_budget_def MS_PER_SECOND_def errors_written_def spend_def write_frame_def update_interface_def split: if_splits)
  show "within_budget s (spend s)" if "MS_PER_SECOND \<le> ns_icmp_tokens s" for s
    using that by (auto simp: within_budget_def MS_PER_SECOND_def errors_written_def spend_def)
  show "within_budget s (configure_interface config s)" for config s
    using errors_written_same [of "\<lambda>i. i\<lparr>ni_config := config\<rparr>" 0 s]
    by (auto simp: within_budget_def configure_interface_def Let_def errors_written_def update_interface_def)
  show "within_budget s (learn_sender index ip mac s)" for index ip mac s
    unfolding learn_sender_def by (rule within_budget_update) simp
qed

lemma setup_budget: "sets_up call \<Longrightarrow> within_budget s (stack_call call s)"
proof (cases call)
  case (Configure config)
  then show ?thesis by (simp add: stack_call_def budget.configure)
next
  case (Static_arp ip mac)
  then show ?thesis by (simp add: stack_call_def add_static_arp_entry_def within_budget_update)
qed (auto simp: sets_up_def stack_call_def stack_listen_def stack_accept_def add_interface_def add_route_def set_echo_reply_callback_def
    Let_def within_budget_def errors_written_def interface_new_def split: option.split prod.split)

lemma tick_budget:
  assumes "\<not> ns_forwarding s" "unat e < 2 ^ 29" "0 \<le> ns_icmp_tokens s"
  shows "\<not> ns_forwarding (stack_call (Tick e) s) \<and> 0 \<le> ns_icmp_tokens (stack_call (Tick e) s)
    \<and> MS_PER_SECOND * int (errors_written (stack_call (Tick e) s)) + ns_icmp_tokens (stack_call (Tick e) s)
      \<le> MS_PER_SECOND * int (errors_written s) + ns_icmp_tokens s + ICMP_ERROR_REFILL_PER_SECOND * int (unat e)"
proof -
  have e: "sint e = int (unat e)" using assms(2) by (intro sint_small) simp
  let ?u = "stack_call (Tick e) s"
  have aged: "errors_written (snd (age_tables e t)) = errors_written t" "ns_forwarding (snd (age_tables e t)) = ns_forwarding t"
      "ns_icmp_tokens (snd (age_tables e t)) = min (ns_icmp_tokens t + int (unat e) * 4) 10000" for t
    by (simp_all add: age_tables_def Let_def e errors_written_def comp_def ICMP_ERROR_REFILL_PER_SECOND_def ICMP_ERROR_BURST_def
        MS_PER_SECOND_def split: prod.split)
  have "within_budget s ?u \<or> (\<exists>t. within_budget s t \<and> within_budget (snd (age_tables e t)) ?u)"
    using budget.on_time_passed_steps [of s e] by (simp add: stack_call_def)
  then show ?thesis
  proof
    assume "within_budget s ?u"
    then have "\<not> ns_forwarding ?u" "0 \<le> ns_icmp_tokens ?u"
      "MS_PER_SECOND * int (errors_written ?u) + ns_icmp_tokens ?u \<le> MS_PER_SECOND * int (errors_written s) + ns_icmp_tokens s"
      using assms(1,3) by (simp_all add: within_budget_def)
    then show ?thesis unfolding ICMP_ERROR_REFILL_PER_SECOND_def by (intro conjI) (assumption | linarith)+
  next
    assume "\<exists>t. within_budget s t \<and> within_budget (snd (age_tables e t)) ?u"
    then obtain t where "within_budget s t" "within_budget (snd (age_tables e t)) ?u" by blast
    then have "\<not> ns_forwarding ?u" "0 \<le> ns_icmp_tokens t"
      "MS_PER_SECOND * int (errors_written t) + ns_icmp_tokens t \<le> MS_PER_SECOND * int (errors_written s) + ns_icmp_tokens s"
      "MS_PER_SECOND * int (errors_written ?u) + ns_icmp_tokens ?u \<le> MS_PER_SECOND * int (errors_written t) + min (ns_icmp_tokens t + int (unat e) * 4) 10000"
      "0 \<le> min (ns_icmp_tokens t + int (unat e) * 4) 10000 \<longrightarrow> 0 \<le> ns_icmp_tokens ?u"
      using assms(1,3) by (simp_all add: within_budget_def aged)
    moreover have "min (ns_icmp_tokens t + int (unat e) * 4) 10000 \<le> ns_icmp_tokens t + int (unat e) * 4" by simp
    moreover have "0 \<le> min (ns_icmp_tokens t + int (unat e) * 4) 10000" using calculation(2) by simp
    ultimately show ?thesis unfolding ICMP_ERROR_REFILL_PER_SECOND_def by (intro conjI) (assumption | linarith)+
  qed
qed

lemma call_budget:
  assumes "\<not> ns_forwarding s" "call_ok call" "0 \<le> ns_icmp_tokens s"
  shows "\<not> ns_forwarding (stack_call call s) \<and> 0 \<le> ns_icmp_tokens (stack_call call s)
    \<and> MS_PER_SECOND * int (errors_written (stack_call call s)) + ns_icmp_tokens (stack_call call s)
      \<le> MS_PER_SECOND * int (errors_written s) + ns_icmp_tokens s + ICMP_ERROR_REFILL_PER_SECOND * call_ms call"
proof (cases "\<exists>e. call = Tick e")
  case True
  then show ?thesis using tick_budget assms by (auto simp: call_ok_def call_ms_def)
next
  case False
  then have "call_ms call = 0" by (auto simp: call_ms_def split: stack_call.split)
  moreover have "within_budget s (stack_call call s)"
    using budget.call_step [OF assms(2)] setup_budget False by blast
  ultimately show ?thesis using assms(1,3) by (auto simp: within_budget_def)
qed

lemma run_budget:
  assumes "\<not> ns_forwarding s" "list_all call_ok calls" "0 \<le> ns_icmp_tokens s"
  shows "0 \<le> ns_icmp_tokens (stack_run calls s)
    \<and> MS_PER_SECOND * int (errors_written (stack_run calls s)) + ns_icmp_tokens (stack_run calls s)
      \<le> MS_PER_SECOND * int (errors_written s) + ns_icmp_tokens s + ICMP_ERROR_REFILL_PER_SECOND * sum_list (map call_ms calls)"
  using assms
proof (induction calls arbitrary: s)
  case (Cons call calls)
  have c: "\<not> ns_forwarding (stack_call call s)" "0 \<le> ns_icmp_tokens (stack_call call s)"
    "MS_PER_SECOND * int (errors_written (stack_call call s)) + ns_icmp_tokens (stack_call call s)
      \<le> MS_PER_SECOND * int (errors_written s) + ns_icmp_tokens s + ICMP_ERROR_REFILL_PER_SECOND * call_ms call"
    using call_budget [of s call] Cons.prems by auto
  have "list_all call_ok calls" using Cons.prems(2) by simp
  from Cons.IH [OF c(1) this c(2)] c(3) show ?case by (simp add: stack_run_def ring_distribs)
qed (simp add: stack_run_def)

section \<open>What the ARP cache learns\<close>

definition arp_kept :: "network_stack \<Rightarrow> network_stack \<Rightarrow> bool" where
  "arp_kept s t \<longleftrightarrow>
     length (ns_interfaces t) = length (ns_interfaces s)
     \<and> (\<forall>j < length (ns_interfaces s). \<forall>ip mac. arp_lookup ip (ni_arp_table (ns_interfaces t ! j)) = Some mac
          \<longrightarrow> arp_lookup ip (ni_arp_table (ns_interfaces s ! j)) = Some mac)"

lemma arp_kept_same_tables: "map ni_arp_table (ns_interfaces t) = map ni_arp_table (ns_interfaces s) \<Longrightarrow> arp_kept s t"
  unfolding arp_kept_def by (metis length_map nth_map)

lemma arp_kept_update: "(\<And>i. ni_arp_table (f i) = ni_arp_table i) \<Longrightarrow> arp_kept s (update_interface index f s)"
  unfolding update_interface_def
  by (rule arp_kept_same_tables) (simp add: map_update_same [where f = f])

interpretation arp: stack_relation arp_kept
proof
  show "arp_kept s t \<Longrightarrow> arp_kept t u \<Longrightarrow> arp_kept s u" for s t u by (simp add: arp_kept_def)
  show "outer t = outer s \<Longrightarrow> arp_kept s t" for s t by (rule arp_kept_same_tables) (simp add: outer_def)
  show "arp_kept s (update_interface index f s)" if "\<And>i. iface_outer (f i) = iface_outer i" for f index s
    using that by (intro arp_kept_update) (simp add: iface_outer_def)
  show "arp_kept s (refreshed index ip s)" for index ip s by (simp add: arp_kept_def refreshed_arp)
  show wrote: "arp_kept s (write_frame index frame s)" for frame s index
    unfolding write_frame_def by (rule arp_kept_update) simp
  show spent: "arp_kept s (spend s)" for s by (rule arp_kept_same_tables) (simp add: spend_def)
  show "arp_kept s (write_frame index frame (spend s))" for frame s index
    using wrote [of "spend s" index frame] by (simp add: arp_kept_def spend_def)
  show "arp_kept s (configure_interface config s)" for config s
  proof -
    have "arp_kept s (update_interface 0 (\<lambda>i. i\<lparr>ni_config := config\<rparr>) s)" by (rule arp_kept_update) simp
    then show ?thesis by (simp add: configure_interface_def Let_def arp_kept_def)
  qed
qed

lemma learn_sender_lookup:
  assumes "j < length (ns_interfaces s)" "arp_lookup ip (ni_arp_table (ns_interfaces (learn_sender ingress a m s) ! j)) = Some mac"
    and "arp_lookup ip (ni_arp_table (ns_interfaces s ! j)) \<noteq> Some mac"
  shows "j = ingress \<and> ip = a \<and> mac = m"
  using assms by (cases "j = ingress"; cases "fst (arp_learn a m (ni_arp_table (ns_interfaces s ! ingress)))")
    (auto simp: learn_sender_def update_interface_def arp_learn_lookup arp_learn_refused split: if_splits)

lemma handle_arp_learns:
  assumes "j < length (ns_interfaces s)" "arp_lookup ip (ni_arp_table (ns_interfaces (fst (handle_arp ingress a s)) ! j)) = Some mac"
    and "arp_lookup ip (ni_arp_table (ns_interfaces s ! j)) \<noteq> Some mac"
  shows "j = ingress \<and> ip = arp_sender_protocol_address a \<and> mac = arp_sender_hardware_address a
    \<and> arp_target_protocol_address a = ic_ip (ni_config (ns_interfaces s ! ingress))"
proof -
  let ?t = "learn_sender ingress (arp_sender_protocol_address a) (arp_sender_hardware_address a) s"
  have n: "fst (handle_arp ingress a s) \<noteq> s" using assms(2,3) by auto
  then have "arp_kept ?t (fst (handle_arp ingress a s))" using arp.handle_arp_rest [of ingress a s] by auto
  then have "arp_lookup ip (ni_arp_table (ns_interfaces ?t ! j)) = Some mac"
    using assms(1,2) by (simp add: arp_kept_def learn_sender_def update_interface_def)
  moreover have "arp_target_protocol_address a = ic_ip (ni_config (ns_interfaces s ! ingress))"
    using n by (auto simp: handle_arp_def with_interface_def split: if_splits)
  ultimately show ?thesis using learn_sender_lookup [OF assms(1)] assms(3) by blast
qed

section \<open>Properties\<close>

text \<open>C11. The ARP cache is taught by ARP alone: when a received frame changes or adds the hardware address a cache has for some
  address, the frame is an ARP packet sent to this host, asking for or answering with the address of the interface it arrived on, and
  the new entry is the sender's, in the cache of that interface.\<close>

theorem arp_taught_by_arp_only:
  assumes "j < length (ns_interfaces s)"
    and "arp_lookup ip (ni_arp_table (ns_interfaces (fst (handle_frame ingress frame s)) ! j)) = Some mac"
    and "arp_lookup ip (ni_arp_table (ns_interfaces s ! j)) \<noteq> Some mac"
  shows "j = ingress \<and> (\<exists>e a. ethernet_from_bytes frame = Inr e \<and> eth_next_layer e = Some (ArpFrame a)
    \<and> is_addressed_to_us (eth_dest e) (ic_mac (ni_config (ns_interfaces s ! ingress)))
    \<and> arp_target_protocol_address a = ic_ip (ni_config (ns_interfaces s ! ingress))
    \<and> arp_sender_protocol_address a = ip \<and> arp_sender_hardware_address a = mac)"
proof -
  have fst_catch: "fst (catching_base m) = fst m" for m
    by (auto simp: catching_base_def split: prod.split option.split stack_error.split cpp_error.split)
  have kept: "\<not> arp_kept s (fst (handle_frame ingress frame s))" using assms by (auto simp: arp_kept_def)
  obtain e where e: "ethernet_from_bytes frame = Inr e"
    using kept arp.same [of s] by (cases "ethernet_from_bytes frame") (auto simp: handle_frame_def fst_catch thrown_def with_value_def)
  have ip: "arp_kept s (fst (handle_ip ingress p bs s))" if "eth_next_layer e = Some (IpFrame p)" for p bs
    by (rule arp.handle_ip_step [OF ethernet_echo_sized [OF e that]])
  let ?i = "ns_interfaces s ! ingress"
  have h: "handle_frame ingress frame s = catching_base (with_interface ingress s (\<lambda>i.
      if \<not> is_addressed_to_us (eth_dest e) (ic_mac (ni_config i)) then (s, None)
      else if eth_protocol e = ETHERTYPE_ARP then
        (case eth_next_layer e of Some (ArpFrame a) \<Rightarrow> handle_arp ingress a s | _ \<Rightarrow> (s, None))
      else if eth_protocol e = ETHERTYPE_IPv4 then
        (case eth_next_layer e of
           Some (IpFrame p) \<Rightarrow> with_value (thrown (slice_from frame ETHERNET_HEADER_SIZE)) s (\<lambda>ip_bytes. handle_ip ingress p ip_bytes s)
         | _ \<Rightarrow> (s, None))
      else (s, None)))"
    unfolding handle_frame_def e by (simp add: thrown_def with_value_def)
  obtain a where a: "eth_next_layer e = Some (ArpFrame a)" "is_addressed_to_us (eth_dest e) (ic_mac (ni_config ?i))"
      "fst (handle_frame ingress frame s) = fst (handle_arp ingress a s)"
  proof (rule ccontr)
    assume "\<not> thesis"
    note no = this [rule_format]
    have "arp_kept s (fst (handle_frame ingress frame s))"
      unfolding h fst_catch
    proof (rule arp.withInterface, goal_cases)
      case (1 i)
      then show ?case
        using that no by (auto simp: h fst_catch with_interface_def arp.same intro!: arp.withValue ip split: option.split ethernet_layer.split)
    qed
    with kept show False ..
  qed
  show ?thesis using handle_arp_learns [OF assms(1), of ip ingress a mac] assms(2,3) a e by auto
qed

text \<open>C9. A host that does not forward never floods: over every sequence of frames received, clock ticks below \<open>2 ^ 29\<close> ms
  and calls of the application, configuration included and pings of at most 65507 bytes, it writes at most ten ICMP errors and
  four more for each second that has passed.\<close>

theorem icmp_errors_within_budget:
  assumes "list_all call_ok calls"
  shows "1000 * int (errors_written (stack_run calls (stack_new isn next_id clock torn_c torn_r config)))
    \<le> 10000 + 4 * sum_list (map call_ms calls)"
proof -
  let ?s = "stack_new isn next_id clock torn_c torn_r config"
  have "\<not> ns_forwarding ?s" "ns_icmp_tokens ?s = 10000" "errors_written ?s = 0"
    by (simp_all add: stack_new_def configure_interface_def Let_def update_interface_def errors_written_def interface_new_def
        ICMP_ERROR_BURST_def MS_PER_SECOND_def)
  with run_budget [of ?s calls] assms show ?thesis by (simp add: MS_PER_SECOND_def ICMP_ERROR_REFILL_PER_SECOND_def)
qed

definition closed_port_probe :: bytes where
  "closed_port_probe = ip_frame (single_segment_config (lab_mac 2) (lab_ip 2)) (lab_mac 1)
     (ip_packet (single_segment_config (lab_mac 2) (lab_ip 2)) (lab_ip 1) IP_UDP 0 0 0
        (udp_to_bytes (udp_message (lab_ip 2) (lab_ip 1) 7 9 [1, 2, 3])))"

theorem icmp_errors_within_budget_witness:
  "errors_written (stack_run (replicate 12 (Receive 0 closed_port_probe) @ [Tick 250, Receive 0 closed_port_probe])
     (lab_stack (single_segment_config (lab_mac 1) (lab_ip 1)))) \<le> 11"
  using icmp_errors_within_budget [of "replicate 12 (Receive 0 closed_port_probe) @ [Tick 250, Receive 0 closed_port_probe]"
      "\<lparr>isn_key_low = 1, isn_key_high = 2\<rparr>" 1 0 "\<lambda>_ c. c" "\<lambda>_ r. r" "single_segment_config (lab_mac 1) (lab_ip 1)"]
  by (simp add: lab_stack_def call_ok_def call_ms_def sum_list_replicate list_all_iff)

definition arp_announcement :: bytes where
  "arp_announcement = arp_frame (lab_mac 3) (lab_mac 1) (arp_new ARP_REPLY (lab_mac 3) (lab_ip 3) (lab_mac 1) (lab_ip 1))"

lemma announcement_parses:
  "ethernet_from_bytes arp_announcement = Inr \<lparr>eth_src = lab_mac 3, eth_dest = lab_mac 1, eth_protocol = ETHERTYPE_ARP,
     eth_next_layer = Some (ArpFrame (arp_new ARP_REPLY (lab_mac 3) (lab_ip 3) (lab_mac 1) (lab_ip 1)))\<rparr>"
proof -
  let ?a = "arp_new ARP_REPLY (lab_mac 3) (lab_ip 3) (lab_mac 1) (lab_ip 1)"
  let ?e = "(ethernet_new (lab_mac 3) (lab_mac 1) ETHERTYPE_ARP)\<lparr>eth_next_layer := Some (ArpFrame ?a)\<rparr>"
  have "length (ethernet_to_bytes ?e @ []) = 42" by code_simp
  moreover have "arp_supported ?a" "arp_next_layer ?a = None" by code_simp+
  ultimately show ?thesis
    using ethernet_roundtrip [of ?e "ArpFrame ?a" "[]"] by (simp add: arp_announcement_def arp_frame_def ethernet_new_def)
qed

lemma announcement_handled:
  "0 < length (ns_interfaces (lab_host 1 2))" "arp_lookup (lab_ip 3) (ni_arp_table (ns_interfaces (lab_host 1 2) ! 0)) = None"
  "snd (handle_arp 0 (arp_new ARP_REPLY (lab_mac 3) (lab_ip 3) (lab_mac 1) (lab_ip 1)) (lab_host 1 2)) = None"
  "arp_lookup (lab_ip 3) (ni_arp_table (ns_interfaces
     (fst (handle_arp 0 (arp_new ARP_REPLY (lab_mac 3) (lab_ip 3) (lab_mac 1) (lab_ip 1)) (lab_host 1 2))) ! 0)) = Some (lab_mac 3)"
  "is_addressed_to_us (lab_mac 1) (ic_mac (ni_config (ns_interfaces (lab_host 1 2) ! 0)))"
  by code_simp+

lemma announcement_learned:
  "arp_lookup (lab_ip 3) (ni_arp_table (ns_interfaces (fst (handle_frame 0 arp_announcement (lab_host 1 2))) ! 0)) = Some (lab_mac 3)"
proof -
  let ?m = "handle_arp 0 (arp_new ARP_REPLY (lab_mac 3) (lab_ip 3) (lab_mac 1) (lab_ip 1)) (lab_host 1 2)"
  have "handle_frame 0 arp_announcement (lab_host 1 2) = catching_base ?m"
    unfolding handle_frame_def announcement_parses
    using announcement_handled(1,5) by (simp add: thrown_def with_value_def with_interface_def)
  then show ?thesis using announcement_handled(3,4) by (cases ?m) simp
qed

theorem arp_taught_by_arp_only_witness:
  "\<exists>e a. ethernet_from_bytes arp_announcement = Inr e \<and> eth_next_layer e = Some (ArpFrame a)
     \<and> arp_target_protocol_address a = lab_ip 1 \<and> arp_sender_protocol_address a = lab_ip 3 \<and> arp_sender_hardware_address a = lab_mac 3"
  using arp_taught_by_arp_only [OF announcement_handled(1) announcement_learned] announcement_handled(2) by auto

end
