(* ===== verification/Spec2Isabelle.thy ===== *)
theory Spec2Isabelle
  imports Stack_Invariants
begin

text \<open>
  A verification development for a user-space TCP/IP stack in C++17 (\<open>src/include\<close>, \<open>src/src\<close>).

  \<^bold>\<open>The program.\<close> \<open>NetworkStack\<close> owns the interfaces, each with a packet channel, an ARP table and queues of what
  waits for address resolution; a routing table; the IP reassembler; the TCP connections and UDP sockets; and, when
  started, a DHCP client and a DNS resolver. \<open>poll\<close> reads frames from the channels, \<open>_handle_frame\<close> parses them
  (Ethernet, ARP, IPv4, TCP, UDP, ICMP) and hands them to the handler of their protocol; \<open>on_time_passed\<close> drives every
  timer. \<open>TcpConnection\<close>, \<open>DnsResolver\<close> and \<open>DhcpClient\<close> do no input or output: they call back into the stack.

  \<^bold>\<open>Conventions.\<close> A C++ integer is a word of its width, a class is a record with the fields of the class, a member
  function is a function from the record to the record. \<open>'a result\<close> is a returned value or an error: \<open>BaseException\<close>, or
  \<open>UndefinedBehaviour\<close> where the code would index out of range. \<open>'s outcome\<close> is the object a call leaves behind together
  with the exception that left it. \<open>std::map\<close> is an association list in key order, \<open>std::unordered_map\<close> one without.
  C \<open>int\<close> timers are integers, counted down by the elapsed time read as a signed value; \<open>size_t\<close> counts are natural numbers where an
  invariant shows that they cannot wrap. Calls out of an object are logged in order and carried out by its owner.

  \<^bold>\<open>The theories, bottom up.\<close>
  \<^item> \<open>Stack_Prelude\<close>, \<open>Keyed_Store\<close>: results and outcomes, word and list lemmas; the two containers behind the interface
    \<open>keyed_store\<close>, interpreted for both.
  \<^item> \<open>Wire_Bytes\<close> (\<open>bytes.cpp\<close>, \<open>utils.cpp\<close>), \<open>Net_Addr\<close> (\<open>network_addresses.cpp\<close>, \<open>interface_config.cpp\<close>), \<open>Checksum\<close>:
    integers to bytes and back, addresses and their text, the Internet checksum against the RFC 1071 sum.
  \<^item> \<open>Datagram_Codecs\<close> (\<open>arp.cpp\<close>, \<open>udp.cpp\<close>, \<open>icmp.cpp\<close>), \<open>Tcp_Codec\<close> (\<open>tcp.cpp\<close>), \<open>Ip_Codec\<close> (\<open>ip.cpp\<close>, \<open>ethernet.cpp\<close>):
    parsers and writers. No byte string makes a parser read outside its buffer, what is written parses back, and a header checksum
    notices a changed word.
  \<^item> \<open>Arp_Table\<close>, \<open>Route_Table\<close>, \<open>Ip_Reassembler\<close>, \<open>Isn_Generator\<close>: the tables of the stack. Entries live for their time and
    the tables stay within their bounds; the route scan refines longest-prefix match (locale \<open>longest_prefix_table\<close>);
    fragments in any order give the datagram and never a byte that was not offered.
  \<^item> \<open>Congestion_Control\<close>: slow start and recovery over Reno and CUBIC, behind the interface \<open>congestion_controller\<close>;
    bounds of the window and its reaction to acknowledgements and losses.
  \<^item> \<open>Tcp_Connection\<close> (\<open>tcp_connection.cpp\<close>): every member function. \<open>Tcp_Sender\<close> and \<open>Tcp_Receiver\<close>: the invariants of the two
    halves. \<open>Tcp_Path\<close>: two connections over a network that loses, duplicates, delays and reorders; what is read is a prefix
    of what was written, and a close is announced only after all of it.
  \<^item> \<open>Dns_Codec\<close>, \<open>Dns_Resolver\<close>, \<open>Dhcp_Codec\<close>, \<open>Dhcp_Client\<close>: the two services. The parsers are safe and invert the writers; the
    resolver accounts for every callback, gives up in time and ignores forged replies; the client's lease and its owner's agree.
  \<^item> \<open>Stack_State\<close>, \<open>Stack_Output\<close>, \<open>Network_Stack\<close> (\<open>network_stack.cpp\<close>, \<open>udp_socket.cpp\<close>): the stack itself, all handlers and timers.
  \<^item> \<open>Stack_Wire\<close>, \<open>Stack_Delivery\<close>: stacks connected by a wire. UDP datagrams, pings and routed datagrams arrive, fragmented or not;
    when sending returns.
  \<^item> \<open>Stack_Steps\<close>, \<open>Stack_Invariants\<close>: the locale \<open>stack_relation\<close>, a frame rule that carries a relation across every handler,
    and its instances over all runs: the budget of ICMP errors, and what teaches the ARP cache.

  \<^bold>\<open>Bounds.\<close> Loops that end are recursive functions with a termination proof. The fragmentation loop need not end: it is a
  \<open>partial_function\<close> whose missing result is the error \<open>Diverges\<close>, and a theorem of \<open>Stack_Delivery\<close> says exactly when. The 64 draws of
  the resolver's port search, the 16 compression jumps of a DNS name and the frame budget of a poll are bounds of the code. TCP
  streams are below \<open>2 ^ 31\<close> bytes in the end-to-end theorems, so that positions and sequence numbers correspond; clock ticks are below the
  range in which the code reads them as negative.

  \<^bold>\<open>Parameters.\<close> The clock, the key of the ISN generator and the seed of the resolver are arguments. A send callback that throws in
  the middle of a handler of \<open>TcpConnection\<close> or \<open>DnsResolver\<close> leaves the object in a state the model does not compute:
  two arbitrary functions of the stack, \<open>ns_torn_connection\<close> and \<open>ns_torn_resolver\<close>, stand for it, and the theorems hold for all of them.

  \<^bold>\<open>Not modelled.\<close> The packet channels (system calls), logging and the texts of exceptions, the \<open>to_string\<close> printers, the hash functors of
  \<open>std::unordered_map\<close>, \<open>system_wrapper\<close>, the callbacks an application registers on a connection, and the two example
  applications \<open>epoll-server\<close> and \<open>http-get\<close> (threads, epoll and command line around the public calls).
\<close>

end
